(* ===== verification/Prelude.thy ===== *)
theory Prelude
  imports Main "HOL-Library.Word" "HOL-Library.Signed_Division" "HOL-Library.AList"
begin

text \<open>
  The vocabulary every component of the model shares: Go's machine integers, durations and
  instants, the renderings of the standard library the code relies on (decimal, hexadecimal
  and \<open>time.Duration.String\<close>), association lists for Go maps, and the run of a list of
  events through a step function.

  \<^item> \<open>int64\<close>, \<open>int\<close> (64-bit platforms) and \<open>time.Duration\<close> are \<open>64 word\<close> read with
    \<open>sint\<close>; \<open>int32\<close> and \<open>uint32\<close> are \<open>32 word\<close> read with \<open>sint\<close> and \<open>unat\<close>.
  \<^item> \<open>time.Time\<close> is an \<open>int\<close>: nanoseconds since the Unix epoch. Its range in Go covers
    hundreds of billions of years, so \<open>Add\<close> does not wrap; \<open>Sub\<close> and \<open>Until\<close> saturate
    at the bounds of \<open>Duration\<close>, as in Go.
  \<^item> Every call of \<open>time.Now()\<close> is a parameter of the modelled function, one per reading,
    in the order of the readings.
  \<^item> A Go \<open>string\<close> is a \<open>string\<close> (its bytes); the literals that are not ASCII are
    written as their UTF-8 bytes.
\<close>

section \<open>Machine integers, durations and instants\<close>

type_synonym i64 = "64 word"
type_synonym i32 = "32 word"
type_synonym u32 = "32 word"
type_synonym duration = "64 word"
type_synonym gotime = int

named_theorems go_defs \<open>definitions of the Go library models that proofs may unfold\<close>

definition Nanosecond :: duration where "Nanosecond = 1"
definition Microsecond :: duration where "Microsecond = 1000"
definition Millisecond :: duration where "Millisecond = 1000000"
definition Second :: duration where "Second = 1000000000"
definition Minute :: duration where "Minute = 60000000000"

declare Nanosecond_def [go_defs] Microsecond_def [go_defs] Millisecond_def [go_defs]
  Second_def [go_defs] Minute_def [go_defs]

text \<open>Go's integer division truncates towards zero; the result wraps at the width.\<close>

definition go_div :: "i64 \<Rightarrow> i64 \<Rightarrow> i64" where
  "go_div a b = word_of_int (sint a sdiv sint b)"

definition max_dur :: int where "max_dur = 2 ^ 63 - 1"
definition min_dur :: int where "min_dur = - (2 ^ 63)"

definition time_add :: "gotime \<Rightarrow> duration \<Rightarrow> gotime" where
  "time_add t d = t + sint d"

definition time_after :: "gotime \<Rightarrow> gotime \<Rightarrow> bool" where
  "time_after t u \<longleftrightarrow> u < t"

definition time_sub :: "gotime \<Rightarrow> gotime \<Rightarrow> duration" where
  "time_sub t u = word_of_int (max min_dur (min max_dur (t - u)))"

declare time_add_def [go_defs] time_after_def [go_defs] time_sub_def [go_defs]

text \<open>The zero \<open>time.Time{}\<close> is January 1, year 1, 00:00 UTC.\<close>

definition zero_time :: gotime where
  "zero_time = - 62135596800 * 1000000000"

lemma sint_i64_bounds: "- (2 ^ 63) \<le> sint (x :: 64 word)" "sint (x :: 64 word) < 2 ^ 63"
  using sint_ge [of x] sint_lt [of x] by simp_all

lemma sint_of_int_i64:
  assumes "- (2 ^ 63) \<le> x" and "x < 2 ^ 63"
  shows "sint (word_of_int x :: 64 word) = x"
  using assms by (simp add: sint_sbintrunc' signed_take_bit_int_eq_self)

lemma sint_of_int_i32:
  assumes "- (2 ^ 31) \<le> x" and "x < 2 ^ 31"
  shows "sint (word_of_int x :: 32 word) = x"
  using assms by (simp add: sint_sbintrunc' signed_take_bit_int_eq_self)

lemma sint_i32_bounds: "- (2 ^ 31) \<le> sint (x :: 32 word)" "sint (x :: 32 word) < 2 ^ 31"
  using sint_ge [of x] sint_lt [of x] by simp_all

lemma sint_add_one_i32:
  assumes "sint (x :: 32 word) < 2 ^ 31 - 1"
  shows "sint (x + 1) = sint x + 1"
  using assms sint_i32_bounds [of x]
  by (simp add: sint_word_add signed_take_bit_int_eq_self)

lemma sint_sub_one_i32:
  assumes "- (2 ^ 31) < sint (x :: 32 word)"
  shows "sint (x - 1) = sint x - 1"
  using assms sint_i32_bounds [of x]
  by (simp add: sint_word_diff signed_take_bit_int_eq_self)

lemma sint_time_sub:
  "sint (time_sub t u) = max min_dur (min max_dur (t - u))"
  unfolding time_sub_def by (rule sint_of_int_i64) (auto simp: min_dur_def max_dur_def)

lemma sdiv_pos_int: "0 \<le> a \<Longrightarrow> 0 < b \<Longrightarrow> a sdiv b = a div (b :: int)"
  by (cases "a = 0") (simp_all add: signed_divide_int_def)

lemma sint_go_div_pos:
  assumes "0 \<le> sint a" and "0 < sint b"
  shows "sint (go_div a b) = sint a div sint b"
proof -
  have "0 \<le> sint a div sint b" using assms by (simp add: pos_imp_zdiv_nonneg_iff)
  moreover have "sint a div sint b \<le> sint a"
  proof -
    have "sint a div sint b \<le> sint a div 1"
      using assms zdiv_mono2 [of "sint a" 1 "sint b"] by simp
    then show ?thesis by simp
  qed
  ultimately show ?thesis
    using assms sint_i64_bounds [of a]
    by (simp add: go_div_def sdiv_pos_int sint_of_int_i64)
qed

section \<open>Decimal and hexadecimal renderings\<close>

definition digit :: "nat \<Rightarrow> char" where
  "digit d = char_of (48 + d)"

fun dec_nat :: "nat \<Rightarrow> string" where
  "dec_nat n = (if n < 10 then [digit n] else dec_nat (n div 10) @ [digit (n mod 10)])"

declare dec_nat.simps [simp del]

text \<open>\<open>%d\<close> of \<open>fmt\<close>, and the integers in arguments sent to the server.\<close>

definition dec :: "int \<Rightarrow> string" where
  "dec i = (if i < 0 then CHR ''-'' # dec_nat (nat (- i)) else dec_nat (nat i))"

definition is_digit :: "char \<Rightarrow> bool" where
  "is_digit c \<longleftrightarrow> 48 \<le> (of_char c :: nat) \<and> (of_char c :: nat) \<le> 57"

definition undec_nat :: "string \<Rightarrow> nat" where
  "undec_nat s = foldl (\<lambda>n c. 10 * n + (of_char c - 48)) 0 s"

text \<open>A decimal integer numeral, or \<open>None\<close> for any other text.\<close>

definition parse_int :: "string \<Rightarrow> int option" where
  "parse_int s = (case s of
       [] \<Rightarrow> None
     | c # cs \<Rightarrow>
         if c = CHR ''-'' then
           (if cs \<noteq> [] \<and> list_all is_digit cs then Some (- int (undec_nat cs)) else None)
         else if list_all is_digit s then Some (int (undec_nat s)) else None)"

lemma of_char_digit: "d < 10 \<Longrightarrow> (of_char (digit d) :: nat) = 48 + d"
  by (simp add: digit_def)

lemma is_digit_digit [simp]: "d < 10 \<Longrightarrow> is_digit (digit d)"
  by (simp add: is_digit_def of_char_digit)

lemma dec_nat_digits: "list_all is_digit (dec_nat n)"
  by (induction n rule: dec_nat.induct) (subst dec_nat.simps, simp)

lemma dec_nat_nonempty [simp]: "dec_nat n \<noteq> []"
  by (subst dec_nat.simps) simp

lemma undec_dec_nat [simp]: "undec_nat (dec_nat n) = n"
proof (induction n rule: dec_nat.induct)
  case (1 n)
  then show ?case
    by (subst dec_nat.simps) (auto simp: undec_nat_def of_char_digit)
qed

lemma dec_nat_inject: "dec_nat m = dec_nat n \<Longrightarrow> m = n"
  by (metis undec_dec_nat)

lemma not_is_digit_minus: "\<not> is_digit (CHR ''-'')"
  by (simp add: is_digit_def)

lemma hd_dec_nat: "dec_nat n = c # cs \<Longrightarrow> c \<noteq> CHR ''-''"
  using dec_nat_digits [of n] not_is_digit_minus by auto

lemma parse_dec [simp]: "parse_int (dec i) = Some i"
proof (cases "i < 0")
  case True
  then show ?thesis by (simp add: dec_def parse_int_def dec_nat_digits)
next
  case False
  then obtain c cs where d: "dec_nat (nat i) = c # cs"
    by (meson dec_nat_nonempty neq_Nil_conv)
  from d have "c \<noteq> CHR ''-''" by (rule hd_dec_nat)
  with d False dec_nat_digits [of "nat i"] show ?thesis
    using undec_dec_nat [of "nat i"] by (simp add: dec_def parse_int_def)
qed

lemma dec_inject: "dec i = dec j \<longleftrightarrow> i = j"
  by (metis option.inject parse_dec)

lemma dec_no_dot: "CHR ''.'' \<notin> set (dec i)"
proof -
  have "\<not> is_digit (CHR ''.'')" by (simp add: is_digit_def)
  then show ?thesis
    using dec_nat_digits [of "nat i"] dec_nat_digits [of "nat (- i)"]
    by (auto simp: dec_def list_all_iff)
qed

definition hex_digit :: "nat \<Rightarrow> char" where
  "hex_digit d = (if d < 10 then char_of (48 + d) else char_of (87 + d))"

definition hex_byte :: "8 word \<Rightarrow> string" where
  "hex_byte b = [hex_digit (unat b div 16), hex_digit (unat b mod 16)]"

text \<open>\<open>%x\<close> of \<open>fmt\<close> on a byte slice.\<close>

definition hex_bytes :: "8 word list \<Rightarrow> string" where
  "hex_bytes bs = concat (map hex_byte bs)"

lemma of_char_hex_digit:
  "d < 16 \<Longrightarrow> (of_char (hex_digit d) :: nat) = (if d < 10 then 48 + d else 87 + d)"
  by (simp add: hex_digit_def)

lemma hex_digit_inject:
  assumes "a < 16" and "b < 16" and "hex_digit a = hex_digit b"
  shows "a = b"
proof -
  have "(if a < 10 then 48 + a else 87 + a) = (if b < 10 then 48 + b else 87 + b)"
    using of_char_hex_digit [OF assms(1)] of_char_hex_digit [OF assms(2)] assms(3) by simp
  then show ?thesis using assms(1,2) by (cases "a < 10"; cases "b < 10") simp_all
qed

lemma hex_byte_inject:
  assumes "hex_byte a = hex_byte b"
  shows "a = b"
proof -
  have bound: "unat w div 16 < 16" for w :: "8 word"
    using unsigned_less [of w, where 'a = nat] by (simp add: less_mult_imp_div_less)
  from assms have "unat a div 16 = unat b div 16"
    unfolding hex_byte_def using bound by (blast intro: hex_digit_inject)
  moreover from assms have "unat a mod 16 = unat b mod 16"
    unfolding hex_byte_def by (auto intro!: hex_digit_inject)
  ultimately have "unat a = unat b" by (metis div_mult_mod_eq)
  then show ?thesis by (rule unsigned_word_eqI)
qed

lemma length_hex_byte [simp]: "length (hex_byte b) = 2"
  by (simp add: hex_byte_def)

lemma length_hex_bytes [simp]: "length (hex_bytes bs) = 2 * length bs"
  by (induction bs) (simp_all add: hex_bytes_def)

lemma hex_bytes_inject: "length xs = length ys \<Longrightarrow> hex_bytes xs = hex_bytes ys \<Longrightarrow> xs = ys"
proof (induction xs ys rule: list_induct2)
  case (Cons x xs y ys)
  then have "hex_byte x = hex_byte y \<and> hex_bytes xs = hex_bytes ys"
    by (simp add: hex_bytes_def append_eq_append_conv)
  then show ?case using Cons.IH hex_byte_inject by blast
qed simp

section \<open>\<open>time.Duration.String\<close>\<close>

fun fmtFrac :: "nat \<Rightarrow> nat \<Rightarrow> bool \<Rightarrow> string \<Rightarrow> string \<times> nat" where
  "fmtFrac 0 v pr acc = ((if pr then CHR ''.'' # acc else acc), v)"
| "fmtFrac (Suc p) v pr acc =
     (let d = v mod 10; pr' = (pr \<or> d \<noteq> 0)
      in fmtFrac p (v div 10) pr' (if pr' then digit d # acc else acc))"

definition utf8 :: "nat list \<Rightarrow> string" where
  "utf8 bs = map char_of bs"

definition duration_string :: "duration \<Rightarrow> string" where
  "duration_string d =
     (let u = nat \<bar>sint d\<bar>; sign = (if sint d < 0 then ''-'' else '''') in
      if u = 0 then ''0s''
      else if u < 1000000000 then
        (let (prec, unit) = (if u < 1000 then (0, ''ns'')
                             else if u < 1000000 then (3, utf8 [194, 181] @ ''s'')
                             else (6, ''ms''));
             (frac, v) = fmtFrac prec u False unit
         in sign @ dec_nat v @ frac)
      else
        (let (secs, v) = fmtFrac 9 u False ''s'';
             s = dec_nat (v mod 60) @ secs;
             mins = v div 60
         in if mins = 0 then sign @ s
            else (let m = dec_nat (mins mod 60) @ ''m'' @ s; h = mins div 60
                  in if h = 0 then sign @ m else sign @ dec_nat h @ ''h'' @ m)))"

definition bool_string :: "bool \<Rightarrow> string" where
  "bool_string b = (if b then ''true'' else ''false'')"

section \<open>Go maps as association lists\<close>

text \<open>
  A Go map is an association list with distinct keys: \<open>map_of m k\<close> looks a key up,
  \<open>AList.update k v m\<close> stores, \<open>AList.delete k m\<close> deletes. The order of the list is one
  order in which \<open>range\<close> may visit the entries.
\<close>

definition wf_map :: "('k \<times> 'v) list \<Rightarrow> bool" where
  "wf_map m \<longleftrightarrow> distinct (map fst m)"

lemma wf_map_Nil [simp]: "wf_map []"
  by (simp add: wf_map_def)

lemma wf_map_update [simp]: "wf_map m \<Longrightarrow> wf_map (AList.update k v m)"
  by (simp add: wf_map_def distinct_update)

lemma wf_map_delete [simp]: "wf_map m \<Longrightarrow> wf_map (AList.delete k m)"
  by (simp add: wf_map_def distinct_delete)

lemma wf_map_filter [simp]: "wf_map m \<Longrightarrow> wf_map (filter P m)"
  by (induction m) (auto simp: wf_map_def)

lemma map_of_filter_wf:
  "wf_map m \<Longrightarrow> map_of (filter P m) k =
     (case map_of m k of None \<Rightarrow> None | Some v \<Rightarrow> if P (k, v) then Some v else None)"
proof (induction m)
  case (Cons a m)
  have "map_of (filter P m) k = None" if "fst a = k"
    using Cons.prems that by (auto simp: wf_map_def map_of_eq_None_iff)
  with Cons show ?case by (auto simp: wf_map_def split: option.splits)
qed simp

lemma map_of_update [simp]: "map_of (AList.update k v m) = (map_of m)(k \<mapsto> v)"
  by (rule update_conv')

lemma map_of_delete [simp]: "map_of (AList.delete k m) = (map_of m)(k := None)"
  by (rule delete_conv')

section \<open>Running a list of events\<close>

text \<open>\<open>run step es s\<close> feeds the events to the step function and collects the results.\<close>

fun run :: "('e \<Rightarrow> 's \<Rightarrow> 'r \<times> 's) \<Rightarrow> 'e list \<Rightarrow> 's \<Rightarrow> 'r list \<times> 's" where
  "run step [] s = ([], s)"
| "run step (e # es) s =
     (let (r, s1) = step e s; (rs, s2) = run step es s1 in (r # rs, s2))"

lemma run_Cons_fst: "fst (run step (e # es) s) = fst (step e s) # fst (run step es (snd (step e s)))"
  by (simp add: split_def Let_def)

lemma run_Cons_snd: "snd (run step (e # es) s) = snd (run step es (snd (step e s)))"
  by (simp add: split_def Let_def)

lemma run_append_snd: "snd (run step (es @ fs) s) = snd (run step fs (snd (run step es s)))"
  by (induction es arbitrary: s) (simp_all add: run_Cons_snd del: run.simps(2))

lemma length_run [simp]: "length (fst (run step es s)) = length es"
  by (induction es arbitrary: s) (simp_all add: run_Cons_fst del: run.simps(2))

text \<open>An invariant every step keeps holds after every run.\<close>

lemma run_invariant:
  assumes "\<And>e s. P s \<Longrightarrow> P (snd (step e s))" and "P s"
  shows "P (snd (run step es s))"
  using assms(2)
  by (induction es arbitrary: s) (simp_all add: run_Cons_snd assms(1) del: run.simps(2))

text \<open>Every event of the run satisfies \<open>P\<close> in the state it meets.\<close>

fun along :: "('e \<Rightarrow> 's \<Rightarrow> bool) \<Rightarrow> ('e \<Rightarrow> 's \<Rightarrow> 'r \<times> 's) \<Rightarrow> 'e list \<Rightarrow> 's \<Rightarrow> bool" where
  "along P step [] s = True"
| "along P step (e # es) s = (P e s \<and> along P step es (snd (step e s)))"

end
