(* ===== verification/Errors.thy ===== *)
theory Errors
  imports Prelude
begin

text \<open>
  \<open>src/lock.go\<close>, lines 14-268: the structured errors. \<open>LockError\<close> is the constructor
  \<open>LockErr\<close> of the type of Go errors; the other constructors are the errors of other
  packages: a leaf (\<open>errors.New\<close>, the sentinels of \<open>context\<close>), a wrapper with one cause
  (\<open>fmt.Errorf\<close> with \<open>%w\<close>) and a join of several (\<open>errors.Join\<close>). A Go variable of
  type \<open>error\<close> is an \<open>err option\<close>; \<open>None\<close> is \<open>nil\<close>. Timestamps are the reading of
  \<open>time.Now()\<close> that the constructor makes, a parameter.
\<close>

section \<open>Codes, severities, messages\<close>

type_synonym ErrorCode = string
type_synonym ErrorSeverity = int

definition ErrCodeLockNotAcquired :: ErrorCode where
  "ErrCodeLockNotAcquired = ''LOCK_NOT_ACQUIRED''"
definition ErrCodeLockNotFound :: ErrorCode where
  "ErrCodeLockNotFound = ''LOCK_NOT_FOUND''"
definition ErrCodeLockAlreadyReleased :: ErrorCode where
  "ErrCodeLockAlreadyReleased = ''LOCK_ALREADY_RELEASED''"
definition ErrCodeLockExpired :: ErrorCode where
  "ErrCodeLockExpired = ''LOCK_EXPIRED''"
definition ErrCodeAcquireTimeout :: ErrorCode where
  "ErrCodeAcquireTimeout = ''ACQUIRE_TIMEOUT''"
definition ErrCodeInvalidConfig :: ErrorCode where
  "ErrCodeInvalidConfig = ''INVALID_CONFIG''"
definition ErrCodeUnsupportedBackend :: ErrorCode where
  "ErrCodeUnsupportedBackend = ''UNSUPPORTED_BACKEND''"
definition ErrCodeWatchdogStopped :: ErrorCode where
  "ErrCodeWatchdogStopped = ''WATCHDOG_STOPPED''"
definition ErrCodeWatchdogFailed :: ErrorCode where
  "ErrCodeWatchdogFailed = ''WATCHDOG_FAILED''"
definition ErrCodeInvalidOperation :: ErrorCode where
  "ErrCodeInvalidOperation = ''INVALID_OPERATION''"
definition ErrCodeNetworkError :: ErrorCode where
  "ErrCodeNetworkError = ''NETWORK_ERROR''"
definition ErrCodeConnectionFailed :: ErrorCode where
  "ErrCodeConnectionFailed = ''CONNECTION_FAILED''"
definition ErrCodeInternalError :: ErrorCode where
  "ErrCodeInternalError = ''INTERNAL_ERROR''"

lemmas code_defs =
  ErrCodeLockNotAcquired_def ErrCodeLockNotFound_def ErrCodeLockAlreadyReleased_def
  ErrCodeLockExpired_def ErrCodeAcquireTimeout_def ErrCodeInvalidConfig_def
  ErrCodeUnsupportedBackend_def ErrCodeWatchdogStopped_def ErrCodeWatchdogFailed_def
  ErrCodeInvalidOperation_def ErrCodeNetworkError_def ErrCodeConnectionFailed_def
  ErrCodeInternalError_def

definition SeverityInfo :: ErrorSeverity where "SeverityInfo = 0"
definition SeverityWarning :: ErrorSeverity where "SeverityWarning = 1"
definition SeverityError :: ErrorSeverity where "SeverityError = 2"
definition SeverityCritical :: ErrorSeverity where "SeverityCritical = 3"

lemmas severity_defs =
  SeverityInfo_def SeverityWarning_def SeverityError_def SeverityCritical_def

definition Severity_String :: "ErrorSeverity \<Rightarrow> string" where
  "Severity_String s =
     (if s = SeverityInfo then ''INFO''
      else if s = SeverityWarning then ''WARNING''
      else if s = SeverityError then ''ERROR''
      else if s = SeverityCritical then ''CRITICAL''
      else ''UNKNOWN'')"

text \<open>The messages of the source, as their UTF-8 bytes.\<close>

definition msgNotAcquired :: string where
  "msgNotAcquired = utf8 [233, 148, 129, 232, 142, 183, 229, 143, 150, 229, 164, 177, 232, 180, 165]"
definition msgNotFound :: string where
  "msgNotFound = utf8 [233, 148, 129, 228, 184, 141, 229, 173, 152, 229, 156, 168]"
definition msgAlreadyReleased :: string where
  "msgAlreadyReleased = utf8 [233, 148, 129, 229, 183, 178, 233, 135, 138, 230, 148, 190]"
definition msgUnsupportedBackend :: string where
  "msgUnsupportedBackend = utf8 [228, 184, 141, 230, 148, 175, 230, 140, 129, 231, 154, 132,
     229, 144, 142, 231, 171, 175, 231, 177, 187, 229, 158, 139]"
definition msgInvalidConfig :: string where
  "msgInvalidConfig = utf8 [230, 151, 160, 230, 149, 136, 231, 154, 132, 233, 133, 141, 231, 189, 174]"
definition msgWatchdogStopped :: string where
  "msgWatchdogStopped = utf8 [231, 156, 139, 233, 151, 168, 231, 139, 151, 229, 183, 178,
     229, 129, 156, 230, 173, 162]"
definition msgExpired :: string where
  "msgExpired = utf8 [233, 148, 129, 229, 183, 178, 232, 191, 135, 230, 156, 159]"
definition msgAcquireTimeout :: string where
  "msgAcquireTimeout = utf8 [232, 142, 183, 229, 143, 150, 233, 148, 129, 232, 182, 133, 230, 151, 182]"
definition msgNetworkPrefix :: string where
  "msgNetworkPrefix = utf8 [231, 189, 145, 231, 187, 156, 233, 148, 153, 232, 175, 175, 58, 32]"
definition msgConnectionPrefix :: string where
  "msgConnectionPrefix = utf8 [232, 191, 158, 230, 142, 165, 229, 164, 177, 232, 180, 165, 58, 32]"

section \<open>Errors\<close>

text \<open>The values the code stores in an error's context (Go's \<open>interface{}\<close>).\<close>

datatype ctxval = CStr string | CDur duration | CInt int | CBool bool

type_synonym err_context = "(string \<times> ctxval) list"

datatype err =
    LockErr (Code: ErrorCode) (Message: string) (Severity: ErrorSeverity)
      (Context: err_context) (Cause: "err option") (Timestamp: gotime)
  | PlainErr string
  | WrapErr string err
  | JoinErr string "err list"

definition CtxCanceled :: err where "CtxCanceled = PlainErr ''context canceled''"
definition CtxDeadlineExceeded :: err where
  "CtxDeadlineExceeded = PlainErr ''context deadline exceeded''"

fun Error :: "err \<Rightarrow> string" where
  "Error (LockErr c m sev ctx (Some e) ts) = ''['' @ c @ ''] '' @ m @ '': '' @ Error e"
| "Error (LockErr c m sev ctx None ts) = ''['' @ c @ ''] '' @ m"
| "Error (PlainErr s) = s"
| "Error (WrapErr s e) = s"
| "Error (JoinErr s es) = s"

definition Unwrap :: "err \<Rightarrow> err option" where
  "Unwrap e = (case e of LockErr c m sev ctx ca ts \<Rightarrow> ca | PlainErr s \<Rightarrow> None
     | WrapErr s e' \<Rightarrow> Some e' | JoinErr s es \<Rightarrow> None)"

definition Is :: "err \<Rightarrow> err \<Rightarrow> bool" where
  "Is e target = (case target of
       LockErr c m sev ctx ca ts \<Rightarrow> Code e = c
     | _ \<Rightarrow> False)"

fun WithContext :: "string \<Rightarrow> ctxval \<Rightarrow> err \<Rightarrow> err" where
  "WithContext k v (LockErr c m sev ctx ca ts) = LockErr c m sev (AList.update k v ctx) ca ts"
| "WithContext k v e = e"

fun WithCause :: "err option \<Rightarrow> err \<Rightarrow> err" where
  "WithCause cause (LockErr c m sev ctx ca ts) = LockErr c m sev ctx cause ts"
| "WithCause cause e = e"

definition IsTemporary :: "err \<Rightarrow> bool" where
  "IsTemporary e \<longleftrightarrow> Code e \<in> {ErrCodeAcquireTimeout, ErrCodeNetworkError, ErrCodeConnectionFailed}"

definition IsRetryable :: "err \<Rightarrow> bool" where
  "IsRetryable e \<longleftrightarrow> Code e \<in> {ErrCodeLockNotAcquired, ErrCodeAcquireTimeout, ErrCodeNetworkError}"

section \<open>Constructors\<close>

definition NewLockError :: "ErrorCode \<Rightarrow> string \<Rightarrow> ErrorSeverity \<Rightarrow> gotime \<Rightarrow> err" where
  "NewLockError code message severity ts = LockErr code message severity [] None ts"

definition NewLockErrorWithCause ::
    "ErrorCode \<Rightarrow> string \<Rightarrow> ErrorSeverity \<Rightarrow> err option \<Rightarrow> gotime \<Rightarrow> err" where
  "NewLockErrorWithCause code message severity cause ts =
     LockErr code message severity [] cause ts"

text \<open>The predefined instances; \<open>ts\<close> is the time the package was initialised.\<close>

definition ErrLockNotAcquired :: "gotime \<Rightarrow> err" where
  "ErrLockNotAcquired = NewLockError ErrCodeLockNotAcquired msgNotAcquired SeverityError"
definition ErrLockNotFound :: "gotime \<Rightarrow> err" where
  "ErrLockNotFound = NewLockError ErrCodeLockNotFound msgNotFound SeverityError"
definition ErrLockAlreadyReleased :: "gotime \<Rightarrow> err" where
  "ErrLockAlreadyReleased = NewLockError ErrCodeLockAlreadyReleased msgAlreadyReleased SeverityWarning"
definition ErrUnsupportedBackend :: "gotime \<Rightarrow> err" where
  "ErrUnsupportedBackend = NewLockError ErrCodeUnsupportedBackend msgUnsupportedBackend SeverityError"
definition ErrInvalidConfig :: "gotime \<Rightarrow> err" where
  "ErrInvalidConfig = NewLockError ErrCodeInvalidConfig msgInvalidConfig SeverityError"
definition ErrWatchdogStopped :: "gotime \<Rightarrow> err" where
  "ErrWatchdogStopped = NewLockError ErrCodeWatchdogStopped msgWatchdogStopped SeverityWarning"
definition ErrLockExpired :: "gotime \<Rightarrow> err" where
  "ErrLockExpired = NewLockError ErrCodeLockExpired msgExpired SeverityInfo"
definition ErrAcquireTimeout :: "gotime \<Rightarrow> err" where
  "ErrAcquireTimeout = NewLockError ErrCodeAcquireTimeout msgAcquireTimeout SeverityWarning"

section \<open>Inspection\<close>

text \<open>
  \<open>errors.As(err, &lockErr)\<close>: the first \<open>*LockError\<close> of the error tree, depth first,
  starting with the error itself.
\<close>

fun errors_As :: "err \<Rightarrow> err option" and errors_As_list :: "err list \<Rightarrow> err option" where
  "errors_As (LockErr c m sev ctx ca ts) = Some (LockErr c m sev ctx ca ts)"
| "errors_As (PlainErr s) = None"
| "errors_As (WrapErr s e) = errors_As e"
| "errors_As (JoinErr s es) = errors_As_list es"
| "errors_As_list [] = None"
| "errors_As_list (e # es) =
     (case errors_As e of Some l \<Rightarrow> Some l | None \<Rightarrow> errors_As_list es)"

definition IsLockError :: "err option \<Rightarrow> bool" where
  "IsLockError e \<longleftrightarrow> Option.bind e errors_As \<noteq> None"

definition GetLockError :: "err option \<Rightarrow> err option" where
  "GetLockError e = Option.bind e errors_As"

definition IsErrorCode :: "err option \<Rightarrow> ErrorCode \<Rightarrow> bool" where
  "IsErrorCode e code = (case GetLockError e of Some l \<Rightarrow> Code l = code | None \<Rightarrow> False)"

definition IsTemporaryError :: "err option \<Rightarrow> bool" where
  "IsTemporaryError e = (case GetLockError e of Some l \<Rightarrow> IsTemporary l | None \<Rightarrow> False)"

definition IsRetryableError :: "err option \<Rightarrow> bool" where
  "IsRetryableError e = (case GetLockError e of Some l \<Rightarrow> IsRetryable l | None \<Rightarrow> False)"

definition WrapError :: "err option \<Rightarrow> ErrorCode \<Rightarrow> string \<Rightarrow> ErrorSeverity \<Rightarrow> gotime \<Rightarrow> err" where
  "WrapError e code message severity ts = NewLockErrorWithCause code message severity e ts"

definition WrapNetworkError :: "err option \<Rightarrow> string \<Rightarrow> gotime \<Rightarrow> err" where
  "WrapNetworkError e operation ts =
     WithContext ''operation'' (CStr operation)
       (NewLockErrorWithCause ErrCodeNetworkError (msgNetworkPrefix @ operation) SeverityError e ts)"

definition WrapConnectionError :: "err option \<Rightarrow> string \<Rightarrow> gotime \<Rightarrow> err" where
  "WrapConnectionError e backend ts =
     WithContext ''backend'' (CStr backend)
       (NewLockErrorWithCause ErrCodeConnectionFailed (msgConnectionPrefix @ backend)
          SeverityError e ts)"

definition NewLockNotAcquiredError :: "string \<Rightarrow> string \<Rightarrow> gotime \<Rightarrow> err" where
  "NewLockNotAcquiredError key reason ts =
     WithContext ''reason'' (CStr reason)
       (WithContext ''key'' (CStr key)
         (NewLockError ErrCodeLockNotAcquired msgNotAcquired SeverityError ts))"

definition NewLockNotFoundError :: "string \<Rightarrow> gotime \<Rightarrow> err" where
  "NewLockNotFoundError key ts =
     WithContext ''key'' (CStr key)
       (NewLockError ErrCodeLockNotFound msgNotFound SeverityError ts)"

definition NewAcquireTimeoutError :: "string \<Rightarrow> duration \<Rightarrow> gotime \<Rightarrow> err" where
  "NewAcquireTimeoutError key timeout ts =
     WithContext ''timeout'' (CStr (duration_string timeout))
       (WithContext ''key'' (CStr key)
         (NewLockError ErrCodeAcquireTimeout msgAcquireTimeout SeverityWarning ts))"

definition NewInvalidConfigError :: "string \<Rightarrow> ctxval \<Rightarrow> string \<Rightarrow> gotime \<Rightarrow> err" where
  "NewInvalidConfigError field v reason ts =
     WithContext ''reason'' (CStr reason)
       (WithContext ''value'' v
         (WithContext ''field'' (CStr field)
           (NewLockError ErrCodeInvalidConfig msgInvalidConfig SeverityError ts)))"

lemmas new_error_defs =
  NewLockError_def NewLockErrorWithCause_def WrapError_def WrapNetworkError_def
  WrapConnectionError_def NewLockNotAcquiredError_def NewLockNotFoundError_def
  NewAcquireTimeoutError_def NewInvalidConfigError_def

lemmas inspect_defs =
  GetLockError_def IsLockError_def IsErrorCode_def IsTemporaryError_def IsRetryableError_def

section \<open>Properties\<close>

lemma Code_WithContext [simp]: "Code (WithContext k v e) = Code e"
  by (cases e) simp_all

lemma Code_NewLockError [simp]: "Code (NewLockError c m s t) = c"
  by (simp add: NewLockError_def)

lemma Code_new_errors [simp]:
  "Code (NewLockNotFoundError k t) = ErrCodeLockNotFound"
  "Code (NewAcquireTimeoutError k d t) = ErrCodeAcquireTimeout"
  "Code (WrapNetworkError e op t) = ErrCodeNetworkError"
  "Code (WrapConnectionError e b t) = ErrCodeConnectionFailed"
  "Code (NewLockNotAcquiredError k r t) = ErrCodeLockNotAcquired"
  "Code (NewInvalidConfigError f v r t) = ErrCodeInvalidConfig"
  by (simp_all add: new_error_defs)

text \<open>A code is an error of the package, so \<open>errors.As\<close> finds it at once.\<close>

definition is_lock_err :: "err \<Rightarrow> bool" where
  "is_lock_err e = (case e of LockErr c m s x ca t \<Rightarrow> True | _ \<Rightarrow> False)"

lemma errors_As_is_lock_err: "errors_As e = Some l \<Longrightarrow> is_lock_err l"
  and errors_As_list_is_lock_err: "errors_As_list es = Some l \<Longrightarrow> is_lock_err l"
  by (induction e and es arbitrary: l and l rule: errors_As_errors_As_list.induct)
    (auto simp: is_lock_err_def split: option.splits if_splits err.splits)

lemma errors_As_lock_err [simp]: "is_lock_err e \<Longrightarrow> errors_As e = Some e"
  by (cases e) (simp_all add: is_lock_err_def)

lemma is_lock_err_WithContext [simp]: "is_lock_err (WithContext k v e) = is_lock_err e"
  by (cases e) (simp_all add: is_lock_err_def)

lemma is_lock_err_new [simp]:
  "is_lock_err (NewLockError c m s t)"
  "is_lock_err (NewLockErrorWithCause c m s e t)"
  by (simp_all add: is_lock_err_def new_error_defs)

lemma is_lock_err_news [simp]:
  "is_lock_err (NewLockNotFoundError k t)"
  "is_lock_err (NewAcquireTimeoutError k d t)"
  "is_lock_err (WrapNetworkError e op t)"
  "is_lock_err (WrapConnectionError e b t)"
  "is_lock_err (NewLockNotAcquiredError k r t)"
  "is_lock_err (NewInvalidConfigError f v r t)"
  by (simp_all add: NewLockNotFoundError_def NewAcquireTimeoutError_def WrapNetworkError_def
      WrapConnectionError_def NewLockNotAcquiredError_def NewInvalidConfigError_def)

text \<open>The codes are pairwise different.\<close>

lemma codes_distinct:
  "distinct [ErrCodeLockNotAcquired, ErrCodeLockNotFound, ErrCodeLockAlreadyReleased,
     ErrCodeLockExpired, ErrCodeAcquireTimeout, ErrCodeInvalidConfig, ErrCodeUnsupportedBackend,
     ErrCodeWatchdogStopped, ErrCodeWatchdogFailed, ErrCodeInvalidOperation, ErrCodeNetworkError,
     ErrCodeConnectionFailed, ErrCodeInternalError]"
  by (simp add: code_defs)

end
