(* ===== verification/Config.thy ===== *)
theory Config
  imports Errors
begin

text \<open>
  \<open>src/lock.go\<close>, lines 270-447 and 699-720: the unified lock configuration. A
  \<open>LockOption\<close> is a function on the configuration, as \<open>optionFunc\<close> is; the default
  values are the package variables of lines 700-707, which no code of the library assigns.
  \<open>generateUniqueValue\<close> takes what the operating system gives it as parameters: the host
  name, the random bytes (\<open>None\<close> when \<open>rand.Read\<close> fails) and the clock reading.
\<close>

section \<open>Configuration and options\<close>

record LockConfig =
  AcquireTimeout :: duration
  LockTTL :: duration
  EnableWatchdog :: bool
  WatchdogInterval :: duration
  RetryInterval :: duration
  Value :: string
  QueueTTL :: duration

type_synonym LockOption = "LockConfig \<Rightarrow> LockConfig"

definition WithAcquireTimeout :: "duration \<Rightarrow> LockOption" where
  "WithAcquireTimeout timeout = (\<lambda>c. c\<lparr>AcquireTimeout := timeout\<rparr>)"
definition WithLockTTL :: "duration \<Rightarrow> LockOption" where
  "WithLockTTL ttl = (\<lambda>c. c\<lparr>LockTTL := ttl\<rparr>)"
definition WithWatchdog :: "bool \<Rightarrow> LockOption" where
  "WithWatchdog enable = (\<lambda>c. c\<lparr>EnableWatchdog := enable\<rparr>)"
definition WithWatchdogInterval :: "duration \<Rightarrow> LockOption" where
  "WithWatchdogInterval interval = (\<lambda>c. c\<lparr>WatchdogInterval := interval\<rparr>)"
definition WithRetryInterval :: "duration \<Rightarrow> LockOption" where
  "WithRetryInterval interval = (\<lambda>c. c\<lparr>RetryInterval := interval\<rparr>)"
definition WithValue :: "string \<Rightarrow> LockOption" where
  "WithValue v = (\<lambda>c. c\<lparr>Value := v\<rparr>)"
definition WithQueueTTL :: "duration \<Rightarrow> LockOption" where
  "WithQueueTTL ttl = (\<lambda>c. c\<lparr>QueueTTL := ttl\<rparr>)"

lemmas option_defs =
  WithAcquireTimeout_def WithLockTTL_def WithWatchdog_def WithWatchdogInterval_def
  WithRetryInterval_def WithValue_def WithQueueTTL_def

definition DefaultAcquireTimeout :: duration where "DefaultAcquireTimeout = 10 * Second"
definition DefaultLockTTL :: duration where "DefaultLockTTL = 30 * Second"
definition DefaultWatchdogInterval :: duration where "DefaultWatchdogInterval = 10 * Second"
definition DefaultRetryInterval :: duration where "DefaultRetryInterval = 100 * Millisecond"
definition DefaultQueueTTL :: duration where "DefaultQueueTTL = 5 * Minute"
definition DefaultShardCount :: i64 where "DefaultShardCount = 32"

lemmas default_defs =
  DefaultAcquireTimeout_def DefaultLockTTL_def DefaultWatchdogInterval_def
  DefaultRetryInterval_def DefaultQueueTTL_def DefaultShardCount_def

definition generateUniqueValue :: "string \<Rightarrow> 8 word list option \<Rightarrow> int \<Rightarrow> string" where
  "generateUniqueValue hostname random nanos =
     (case random of
        None \<Rightarrow> hostname @ ''-'' @ dec nanos
      | Some b \<Rightarrow> hostname @ ''-'' @ hex_bytes b)"

text \<open>\<open>uv\<close> is the value \<open>generateUniqueValue\<close> returned for this call.\<close>

definition default_config :: "string \<Rightarrow> LockConfig" where
  "default_config uv =
     \<lparr>AcquireTimeout = DefaultAcquireTimeout, LockTTL = DefaultLockTTL, EnableWatchdog = True,
      WatchdogInterval = DefaultWatchdogInterval, RetryInterval = DefaultRetryInterval,
      Value = uv, QueueTTL = DefaultQueueTTL\<rparr>"

definition ApplyLockOptions :: "LockOption list \<Rightarrow> string \<Rightarrow> LockConfig" where
  "ApplyLockOptions opts uv =
     (let config = foldl (\<lambda>c opt. opt c) (default_config uv) opts
      in if WatchdogInterval config = DefaultWatchdogInterval
         then config\<lparr>WatchdogInterval := go_div (LockTTL config) 3\<rparr>
         else config)"

definition msgMustBePositive :: string where
  "msgMustBePositive = utf8 [229, 191, 133, 233, 161, 187, 229, 164, 167, 228, 186, 142, 48]"
definition msgWatchdogPositive :: string where
  "msgWatchdogPositive = utf8 [229, 144, 175, 231, 148, 168, 231, 156, 139, 233, 151, 168, 231,
     139, 151, 230, 151, 182, 229, 191, 133, 233, 161, 187, 229, 164, 167, 228, 186, 142, 48]"
definition msgNotNegative :: string where
  "msgNotNegative = utf8 [228, 184, 141, 232, 131, 189, 229, 176, 143, 228, 186, 142, 48]"

definition Validate :: "LockConfig \<Rightarrow> gotime \<Rightarrow> err option" where
  "Validate c ts =
     (if sint (AcquireTimeout c) \<le> 0
      then Some (NewInvalidConfigError ''AcquireTimeout'' (CDur (AcquireTimeout c)) msgMustBePositive ts)
      else if sint (LockTTL c) \<le> 0
      then Some (NewInvalidConfigError ''LockTTL'' (CDur (LockTTL c)) msgMustBePositive ts)
      else if sint (RetryInterval c) \<le> 0
      then Some (NewInvalidConfigError ''RetryInterval'' (CDur (RetryInterval c)) msgMustBePositive ts)
      else if EnableWatchdog c \<and> sint (WatchdogInterval c) \<le> 0
      then Some (NewInvalidConfigError ''WatchdogInterval'' (CDur (WatchdogInterval c)) msgWatchdogPositive ts)
      else if sint (QueueTTL c) < 0
      then Some (NewInvalidConfigError ''QueueTTL'' (CDur (QueueTTL c)) msgNotNegative ts)
      else None)"

definition Clone :: "LockConfig \<Rightarrow> LockConfig" where
  "Clone c = \<lparr>AcquireTimeout = AcquireTimeout c, LockTTL = LockTTL c,
     EnableWatchdog = EnableWatchdog c, WatchdogInterval = WatchdogInterval c,
     RetryInterval = RetryInterval c, Value = Value c, QueueTTL = QueueTTL c\<rparr>"

definition Config_String :: "LockConfig \<Rightarrow> string" where
  "Config_String c =
     ''LockConfig{AcquireTimeout:'' @ duration_string (AcquireTimeout c) @
     '', LockTTL:'' @ duration_string (LockTTL c) @
     '', EnableWatchdog:'' @ bool_string (EnableWatchdog c) @
     '', WatchdogInterval:'' @ duration_string (WatchdogInterval c) @
     '', RetryInterval:'' @ duration_string (RetryInterval c) @
     '', QueueTTL:'' @ duration_string (QueueTTL c) @
     '', Value:'' @ Value c @ ''}''"

section \<open>Lemmas\<close>

lemmas dur_defs = Nanosecond_def Microsecond_def Millisecond_def Second_def Minute_def

lemma default_sints [simp]:
  "sint DefaultAcquireTimeout = 10000000000"
  "sint DefaultLockTTL = 30000000000"
  "sint DefaultWatchdogInterval = 10000000000"
  "sint DefaultRetryInterval = 100000000"
  "sint DefaultQueueTTL = 300000000000"
  by (simp_all add: default_defs dur_defs)

text \<open>Options that never touch a field leave it as the fold started.\<close>

lemma foldl_frame:
  assumes "\<And>opt c. opt \<in> set opts \<Longrightarrow> f (opt c) = f c"
  shows "f (foldl (\<lambda>c opt. opt c) c0 opts) = f c0"
  using assms by (induction opts arbitrary: c0) auto

lemma Apply_Value_frame:
  assumes "\<And>opt c. opt \<in> set opts \<Longrightarrow> Value (opt c) = Value c"
  shows "Value (ApplyLockOptions opts uv) = uv"
proof -
  have "Value (foldl (\<lambda>c opt. opt c) (default_config uv) opts) = Value (default_config uv)"
    by (rule foldl_frame) (rule assms)
  then show ?thesis by (simp add: ApplyLockOptions_def Let_def default_config_def)
qed

lemma Apply_LockTTL: "LockTTL (ApplyLockOptions opts uv) = LockTTL (foldl (\<lambda>c opt. opt c) (default_config uv) opts)"
  by (simp add: ApplyLockOptions_def Let_def)

lemma Apply_Value: "Value (ApplyLockOptions opts uv) = Value (foldl (\<lambda>c opt. opt c) (default_config uv) opts)"
  by (simp add: ApplyLockOptions_def Let_def)

lemma Apply_RetryInterval:
  "RetryInterval (ApplyLockOptions opts uv) = RetryInterval (foldl (\<lambda>c opt. opt c) (default_config uv) opts)"
  by (simp add: ApplyLockOptions_def Let_def)

lemma Apply_AcquireTimeout:
  "AcquireTimeout (ApplyLockOptions opts uv) = AcquireTimeout (foldl (\<lambda>c opt. opt c) (default_config uv) opts)"
  by (simp add: ApplyLockOptions_def Let_def)

text \<open>The last option wins on its field.\<close>

lemma Apply_last_value [simp]: "Value (ApplyLockOptions (opts @ [WithValue v]) uv) = v"
  by (simp add: Apply_Value WithValue_def)

lemma Apply_nil_Value [simp]: "Value (ApplyLockOptions [] uv) = uv"
  by (simp add: Apply_Value default_config_def)

text \<open>The documented bounds of a configuration.\<close>

definition valid_config :: "LockConfig \<Rightarrow> bool" where
  "valid_config c \<longleftrightarrow>
     0 < sint (AcquireTimeout c) \<and> 0 < sint (LockTTL c) \<and> 0 < sint (RetryInterval c) \<and>
     (EnableWatchdog c \<longrightarrow> 0 < sint (WatchdogInterval c)) \<and> 0 \<le> sint (QueueTTL c)"

text \<open>Options with usable arguments: positive durations, a TTL of at least three nanoseconds.\<close>

inductive_set usable_options :: "LockOption set" where
  "0 < sint d \<Longrightarrow> WithAcquireTimeout d \<in> usable_options"
| "3 \<le> sint d \<Longrightarrow> WithLockTTL d \<in> usable_options"
| "WithWatchdog b \<in> usable_options"
| "0 < sint d \<Longrightarrow> WithWatchdogInterval d \<in> usable_options"
| "0 < sint d \<Longrightarrow> WithRetryInterval d \<in> usable_options"
| "WithValue v \<in> usable_options"
| "0 \<le> sint d \<Longrightarrow> WithQueueTTL d \<in> usable_options"

definition usable_config :: "LockConfig \<Rightarrow> bool" where
  "usable_config c \<longleftrightarrow>
     0 < sint (AcquireTimeout c) \<and> 3 \<le> sint (LockTTL c) \<and> 0 < sint (WatchdogInterval c) \<and>
     0 < sint (RetryInterval c) \<and> 0 \<le> sint (QueueTTL c)"

lemma usable_option_keeps: "opt \<in> usable_options \<Longrightarrow> usable_config c \<Longrightarrow> usable_config (opt c)"
  by (induction rule: usable_options.induct) (simp_all add: usable_config_def option_defs)

lemma usable_fold:
  "set opts \<subseteq> usable_options \<Longrightarrow> usable_config c \<Longrightarrow>
     usable_config (foldl (\<lambda>c opt. opt c) c opts)"
  by (induction opts arbitrary: c) (simp_all add: usable_option_keeps)

lemma usable_default: "usable_config (default_config uv)"
  by (simp add: usable_config_def default_config_def)

lemma third_positive: "3 \<le> sint d \<Longrightarrow> 0 < sint (go_div d 3)"
  by (subst sint_go_div_pos) simp_all

lemma third_le: "0 \<le> sint d \<Longrightarrow> 3 * sint (go_div d 3) \<le> sint d"
  by (subst sint_go_div_pos) simp_all

lemma usable_Apply:
  assumes "set opts \<subseteq> usable_options"
  shows "usable_config (ApplyLockOptions opts uv)"
  using usable_fold [OF assms usable_default, of uv] third_positive
  by (simp add: ApplyLockOptions_def Let_def usable_config_def)

lemma usable_valid: "usable_config c \<Longrightarrow> valid_config c"
  by (simp add: usable_config_def valid_config_def)

section \<open>Properties\<close>

text \<open>
  C38: \<open>Validate\<close> accepts a configuration exactly when every bound of the code holds: the
  acquire timeout, the lock TTL and the retry interval positive, the watchdog interval positive
  when the watchdog is enabled, the queue TTL not negative. Every rejection is an
  \<open>INVALID_CONFIG\<close> error, not retryable, whose context names the first field that violates
  its bound.
\<close>
theorem Validate_exact:
  "case Validate c ts of
     None \<Rightarrow> valid_config c
   | Some e \<Rightarrow> \<not> valid_config c \<and> IsErrorCode (Some e) ErrCodeInvalidConfig \<and>
       \<not> IsRetryableError (Some e) \<and>
       map_of (Context e) ''field'' =
        Some (CStr (if sint (AcquireTimeout c) \<le> 0 then ''AcquireTimeout''
                    else if sint (LockTTL c) \<le> 0 then ''LockTTL''
                    else if sint (RetryInterval c) \<le> 0 then ''RetryInterval''
                    else if EnableWatchdog c \<and> sint (WatchdogInterval c) \<le> 0
                    then ''WatchdogInterval'' else ''QueueTTL''))"
  by (auto simp: Validate_def valid_config_def inspect_defs IsRetryable_def code_defs new_error_defs)

text \<open>
  C39: any list of the package's options with usable arguments (positive durations, a TTL of at
  least 3ns), in any order and with any repetitions, over the defaults, gives a configuration
  that \<open>Validate\<close> accepts; the third of the TTL that replaces an unset watchdog interval is
  still positive.
\<close>
theorem ApplyLockOptions_valid:
  assumes "set opts \<subseteq> usable_options"
  shows "Validate (ApplyLockOptions opts uv) ts = None"
proof -
  have "valid_config (ApplyLockOptions opts uv)"
    by (rule usable_valid) (rule usable_Apply [OF assms])
  then show ?thesis by (auto simp: Validate_def valid_config_def)
qed

theorem ApplyLockOptions_valid_witness:
  "Validate (ApplyLockOptions [WithLockTTL Second, WithValue ''a'', WithLockTTL (2 * Second)] ''u'') 0 = None"
proof (rule ApplyLockOptions_valid)
  have "WithLockTTL Second \<in> usable_options" "WithLockTTL (2 * Second) \<in> usable_options"
    by (auto intro!: usable_options.intros(2) simp: dur_defs)
  then show "set [WithLockTTL Second, WithValue ''a'', WithLockTTL (2 * Second)] \<subseteq> usable_options"
    by (auto intro: usable_options.intros)
qed

text \<open>
  the watchdog interval of an applied configuration. When the options leave it at the
  default of 10s it becomes a third of the lock TTL, and three renewals fit in the TTL. The code
  cannot tell the default from an explicit \<open>WithWatchdogInterval(10s)\<close>: such an option, given
  last, is overridden like an absent one, although the comment says that a third of the TTL is
  used only when the user sets no interval. Any other explicit interval, given last, is kept.
\<close>
theorem watchdog_interval_rule:
  "WatchdogInterval (ApplyLockOptions (opts @ [WithWatchdogInterval d]) uv) =
     (if d = 10 * Second
      then go_div (LockTTL (ApplyLockOptions opts uv)) 3 else d) \<and>
   WatchdogInterval (ApplyLockOptions [WithLockTTL ttl] uv) = go_div ttl 3 \<and>
   3 * max 0 (sint (go_div ttl 3)) \<le> max 0 (sint ttl)"
proof (intro conjI)
  show "WatchdogInterval (ApplyLockOptions (opts @ [WithWatchdogInterval d]) uv) =
     (if d = 10 * Second then go_div (LockTTL (ApplyLockOptions opts uv)) 3 else d)"
    by (simp add: ApplyLockOptions_def Let_def WithWatchdogInterval_def DefaultWatchdogInterval_def)
  show "WatchdogInterval (ApplyLockOptions [WithLockTTL ttl] uv) = go_div ttl 3"
    by (simp add: ApplyLockOptions_def Let_def WithLockTTL_def default_config_def)
  show "3 * max 0 (sint (go_div ttl 3)) \<le> max 0 (sint ttl)"
  proof (cases "0 \<le> sint ttl")
    case True
    then show ?thesis using third_le [of ttl] by (simp add: max_def)
  next
    case False
    then have "sint ttl sdiv 3 \<le> 0"
      by (simp add: signed_divide_int_def sgn_if pos_imp_zdiv_nonneg_iff)
    moreover have "- (2 ^ 63) \<le> sint ttl sdiv 3"
    proof -
      have "\<bar>sint ttl\<bar> div 3 \<le> \<bar>sint ttl\<bar>" by simp
      then show ?thesis
        using False sint_i64_bounds [of ttl] by (simp add: signed_divide_int_def sgn_if)
    qed
    ultimately have "sint (go_div ttl 3) \<le> 0"
      by (simp add: go_div_def sint_of_int_i64)
    then show ?thesis by simp
  qed
qed

text \<open>
  C40: the holder identifiers of one host do not collide: two values made from eight random bytes
  each, or two made from the clock when the random source fails, are equal only if the bytes or
  the readings are equal.
\<close>
theorem generateUniqueValue_injective:
  assumes "length b1 = 8" and "length b2 = 8"
  shows "(generateUniqueValue h (Some b1) n1 = generateUniqueValue h (Some b2) n2 \<longleftrightarrow> b1 = b2) \<and>
         (generateUniqueValue h None n1 = generateUniqueValue h None n2 \<longleftrightarrow> n1 = n2)"
  using assms hex_bytes_inject [of b1 b2] by (auto simp: generateUniqueValue_def dec_inject)

theorem generateUniqueValue_injective_witness:
  "generateUniqueValue ''h'' (Some [1, 2, 3, 4, 5, 6, 7, 8]) 0 \<noteq>
   generateUniqueValue ''h'' (Some [1, 2, 3, 4, 5, 6, 7, 9]) 0"
  using generateUniqueValue_injective [of "[1, 2, 3, 4, 5, 6, 7, 8]" "[1, 2, 3, 4, 5, 6, 7, 9]" "''h''" 0 0]
  by simp

end
