(* ===== verification/Lease.thy ===== *)
theory Lease
  imports Prelude
begin

text \<open>
  The contract every lock of the library is meant to keep, whatever its backend: once granted,
  a lock is a lease of its holder until an instant, and nobody else is granted the lock before
  that instant unless the lease is given up. The contract is a locale over a step function, the
  clock and the current lease of a state, the steps that count as grants and the steps that may
  end or shorten the lease; exclusion along every run is proved once, inside it. The local and
  the distributed locks each interpret it.
\<close>

locale leased =
  fixes step :: "'e \<Rightarrow> 's \<Rightarrow> 'r \<times> 's"
    and clock :: "'s \<Rightarrow> int"
    and lease :: "'s \<Rightarrow> (string \<times> int) option"
    and granted :: "'e \<Rightarrow> 'r \<Rightarrow> bool"
    and yields :: "'e \<Rightarrow> 's \<Rightarrow> bool"
  assumes clock_mono: "clock s \<le> clock (snd (step e s))"
    and lease_kept: "lease s = Some (v, E) \<Longrightarrow> clock (snd (step e s)) \<le> E \<Longrightarrow> \<not> yields e s \<Longrightarrow>
      \<not> granted e (fst (step e s)) \<and> (\<exists>E'\<ge>E. lease (snd (step e s)) = Some (v, E'))"
begin

lemma clock_run: "clock s \<le> clock (snd (run step es s))"
proof (induction es arbitrary: s)
  case (Cons e es)
  from clock_mono [of s e] Cons.IH [of "snd (step e s)"] show ?case
    by (simp add: run_Cons_snd del: run.simps(2))
qed simp

lemma exclusion:
  assumes "lease s = Some (v, E)"
    and "along (\<lambda>e s. \<not> yields e s) step es s"
    and "clock (snd (run step es s)) \<le> E"
  shows "(\<forall>(e, r) \<in> set (zip es (fst (run step es s))). \<not> granted e r) \<and>
         (\<exists>E'\<ge>E. lease (snd (run step es s)) = Some (v, E'))"
  using assms
proof (induction es arbitrary: s E)
  case (Cons e es)
  let ?s = "snd (step e s)"
  have "clock ?s \<le> E"
    using clock_run [of ?s es] Cons.prems(3) by (simp add: run_Cons_snd del: run.simps(2))
  with lease_kept [OF Cons.prems(1)] Cons.prems(2) obtain E' where
    e: "\<not> granted e (fst (step e s))" and E': "E \<le> E'" "lease ?s = Some (v, E')" by auto
  have "(\<forall>(e, r) \<in> set (zip es (fst (run step es ?s))). \<not> granted e r) \<and>
        (\<exists>E''\<ge>E'. lease (snd (run step es ?s)) = Some (v, E''))"
    using Cons.prems(2,3) E' by (intro Cons.IH) (simp_all add: run_Cons_snd del: run.simps(2))
  with e E'(1) show ?case
    by (auto simp: run_Cons_snd run_Cons_fst simp del: run.simps(2))
qed simp

end

text \<open>
  A lock that also reports grants truthfully: after a grant the lease is the requester's, and
  a request that finds no lease is not refused.
\<close>

locale granting_lease = leased step clock lease granted yields
  for step :: "'e \<Rightarrow> 's \<Rightarrow> 'r \<times> 's" and clock and lease and granted and yields +
  fixes asks :: "'e \<Rightarrow> (string \<times> int) option"
  assumes grant_lease: "granted e (fst (step e s)) \<Longrightarrow> asks e = Some (v, d) \<Longrightarrow>
      lease (snd (step e s)) = Some (v, clock (snd (step e s)) + d)"
    and grant_free: "asks e \<noteq> None \<Longrightarrow> lease s = None \<Longrightarrow> granted e (fst (step e s))"
begin

text \<open>A grant of duration \<open>d\<close> excludes every other grant for \<open>d\<close>.\<close>

lemma grant_excludes:
  assumes "granted e (fst (step e s))" and "asks e = Some (v, d)"
    and "along (\<lambda>e s. \<not> yields e s) step es (snd (step e s))"
    and "clock (snd (run step es (snd (step e s)))) \<le> clock (snd (step e s)) + d"
  shows "(\<forall>(e', r) \<in> set (zip es (fst (run step es (snd (step e s))))). \<not> granted e' r) \<and>
         (\<exists>E\<ge>clock (snd (step e s)) + d. lease (snd (run step es (snd (step e s)))) = Some (v, E))"
  by (rule exclusion [OF grant_lease [OF assms(1,2)] assms(3,4)])

end

end
