(* ===== verification/Retry.thy ===== *)
theory Retry
  imports Config
begin

text \<open>
  \<open>src/lock.go\<close>, lines 795-880: the retry loop every blocking acquisition goes through. What
  the loop sees of the Go runtime is a parameter, the record \<open>go_rt\<close> over an opaque world
  \<open>'w\<close>: reading the clock, polling the context (its error when it is done), sleeping, and making the
  unique value that \<open>ApplyLockOptions\<close> asks for on every call. The
  operation that is retried is a function on the same world, so other goroutines may change
  anything between two calls. The loop may run forever (a clock that stands still), so it is a
  \<^theory_text>\<open>partial_function\<close> into \<open>option\<close>; the locale \<open>go_runtime\<close> states what Go documents
  of its clock and of \<open>time.Sleep\<close>, and under it the loop is shown to return.
\<close>

section \<open>The runtime and the loop\<close>

record 'w go_rt =
  rt_now :: "'w \<Rightarrow> gotime \<times> 'w"
  rt_ctx :: "'w \<Rightarrow> err option \<times> 'w"
  rt_sleep :: "duration \<Rightarrow> 'w \<Rightarrow> 'w"
  rt_unique :: "'w \<Rightarrow> string \<times> 'w"

record RetryConfig =
  Timeout :: duration
  Interval :: duration
  Key :: string

type_synonym ('w, 'a) RetryOperation = "'w \<Rightarrow> (bool \<times> 'a \<times> err option) \<times> 'w"

partial_function (option) retry_loop ::
    "'w go_rt \<Rightarrow> RetryConfig \<Rightarrow> 'a \<Rightarrow> ('w, 'a) RetryOperation \<Rightarrow> gotime \<Rightarrow> 'w
       \<Rightarrow> (('a \<times> err option) \<times> 'w) option" where
  "retry_loop rt cfg zero oper deadline w =
     (case rt_ctx rt w of
        (Some e, w1) \<Rightarrow> Some ((zero, Some e), w1)
      | (None, w1) \<Rightarrow>
          (case rt_now rt w1 of (t, w2) \<Rightarrow>
             if time_after t deadline then
               (case rt_now rt w2 of (ts, w3) \<Rightarrow>
                  Some ((zero, Some (NewAcquireTimeoutError (Key cfg) (Timeout cfg) ts)), w3))
             else
               (case oper w2 of
                  ((success, result, Some e), w3) \<Rightarrow> Some ((zero, Some e), w3)
                | ((success, result, None), w3) \<Rightarrow>
                    if success then Some ((result, None), w3)
                    else retry_loop rt cfg zero oper deadline (rt_sleep rt (Interval cfg) w3))))"

definition RetryWithTimeout ::
    "'w go_rt \<Rightarrow> RetryConfig \<Rightarrow> 'a \<Rightarrow> ('w, 'a) RetryOperation \<Rightarrow> 'w
       \<Rightarrow> (('a \<times> err option) \<times> 'w) option" where
  "RetryWithTimeout rt cfg zero oper w =
     (case rt_now rt w of (t, w1) \<Rightarrow>
        retry_loop rt cfg zero oper (time_add t (Timeout cfg)) w1)"

text \<open>The closure \<open>RetryLockOperation\<close> passes on: the success flag is also the result.\<close>

definition lock_oper :: "('w \<Rightarrow> (bool \<times> err option) \<times> 'w) \<Rightarrow> ('w, bool) RetryOperation" where
  "lock_oper attempt w = (case attempt w of ((success, e), w') \<Rightarrow> ((success, success, e), w'))"

definition RetryLockOperation ::
    "'w go_rt \<Rightarrow> RetryConfig \<Rightarrow> ('w \<Rightarrow> (bool \<times> err option) \<times> 'w) \<Rightarrow> 'w \<Rightarrow> (err option \<times> 'w) option" where
  "RetryLockOperation rt cfg oper w =
     map_option (\<lambda>((r, e), w'). (e, w'))
       (RetryWithTimeout rt cfg False (lock_oper oper) w)"

definition NewRetryConfig :: "string \<Rightarrow> duration \<Rightarrow> duration \<Rightarrow> RetryConfig" where
  "NewRetryConfig key timeout interval = \<lparr>Timeout = timeout, Interval = interval, Key = key\<rparr>"

definition NewRetryConfigFromLockOptions :: "string \<Rightarrow> LockOption list \<Rightarrow> string \<Rightarrow> RetryConfig" where
  "NewRetryConfigFromLockOptions key opts uv =
     (let config = ApplyLockOptions opts uv
      in \<lparr>Timeout = AcquireTimeout config, Interval = RetryInterval config, Key = key\<rparr>)"

definition RetryWithCustomLogic ::
    "'w go_rt \<Rightarrow> duration \<Rightarrow> (gotime \<Rightarrow> 'w \<Rightarrow> 'r) \<Rightarrow> 'w \<Rightarrow> 'r" where
  "RetryWithCustomLogic rt timeout oper w =
     (case rt_now rt w of (t, w1) \<Rightarrow> oper (time_add t timeout) w1)"

section \<open>What Go documents of its clock\<close>

text \<open>
  \<open>clk w\<close> is the monotonic clock of the world \<open>w\<close>: a reading of \<open>time.Now()\<close> lies between
  the clock before and after it, nothing turns the clock back, and \<open>time.Sleep(d)\<close> pauses the
  goroutine for at least \<open>d\<close>.
\<close>

locale go_runtime =
  fixes rt :: "'w go_rt" and clk :: "'w \<Rightarrow> int"
  assumes now_lower: "clk w \<le> fst (rt_now rt w)"
    and now_upper: "fst (rt_now rt w) \<le> clk (snd (rt_now rt w))"
    and ctx_mono: "clk w \<le> clk (snd (rt_ctx rt w))"
    and sleep_pauses: "clk w + max 0 (sint d) \<le> clk (rt_sleep rt d w)"
    and unique_mono: "clk w \<le> clk (snd (rt_unique rt w))"
begin

lemma now_mono: "clk w \<le> clk (snd (rt_now rt w))"
  using now_lower [of w] now_upper [of w] by linarith

text \<open>Past the deadline the loop makes no further attempt.\<close>

lemma loop_late:
  assumes "deadline < clk w"
  shows "\<exists>r. retry_loop rt cfg zero oper deadline w = Some r"
proof (cases "rt_ctx rt w")
  case (Pair d w1)
  show ?thesis
  proof (cases d)
    case (Some e)
    with Pair show ?thesis by (subst retry_loop.simps) simp
  next
    case None
    obtain t w2 where n: "rt_now rt w1 = (t, w2)" by (cases "rt_now rt w1")
    have "deadline < t"
      using assms ctx_mono [of w] now_lower [of w1] Pair n by simp
    with Pair None n show ?thesis
      by (subst retry_loop.simps) (simp add: time_after_def split: prod.splits)
  qed
qed

lemma loop_returns:
  assumes pos: "0 < sint (Interval cfg)" and oper: "\<And>w. clk w \<le> clk (snd (oper w))"
  shows "\<exists>r. retry_loop rt cfg zero oper deadline w = Some r"
proof (induction "nat (deadline + 1 - clk w)" arbitrary: w rule: less_induct)
  case less
  show ?case
  proof (cases "deadline < clk w")
    case True
    then show ?thesis by (rule loop_late)
  next
    case False
    obtain d w1 where c: "rt_ctx rt w = (d, w1)" by (cases "rt_ctx rt w")
    obtain t w2 where n: "rt_now rt w1 = (t, w2)" by (cases "rt_now rt w1")
    obtain s r e w3 where o: "oper w2 = ((s, r, e), w3)" by (cases "oper w2") auto
    have "clk w \<le> clk w3"
      using ctx_mono [of w] now_mono [of w1] oper [of w2] c n o by simp
    then have "clk w < clk (rt_sleep rt (Interval cfg) w3)"
      using pos sleep_pauses [of w3 "Interval cfg"] by simp
    then have "\<exists>r. retry_loop rt cfg zero oper deadline (rt_sleep rt (Interval cfg) w3) = Some r"
      using less False by simp
    with c n o show ?thesis
      by (subst retry_loop.simps) (auto split: option.splits prod.splits)
  qed
qed

end

text \<open>
  The same runtime with a counter in the world that only the operation advances: an upper
  bound on the number of attempts.
\<close>

locale counted_runtime = go_runtime rt clk for rt :: "'w go_rt" and clk :: "'w \<Rightarrow> int" +
  fixes cnt :: "'w \<Rightarrow> nat"
  assumes cnt_now: "cnt (snd (rt_now rt w)) = cnt w"
    and cnt_ctx: "cnt (snd (rt_ctx rt w)) = cnt w"
    and cnt_sleep: "cnt (rt_sleep rt d w) = cnt w"
begin

lemma loop_attempts:
  assumes pos: "0 < sint (Interval cfg)"
    and mono: "\<And>w. clk w \<le> clk (snd (oper w))"
    and one: "\<And>w. cnt (snd (oper w)) \<le> Suc (cnt w)"
    and ret: "retry_loop rt cfg zero oper deadline w = Some (r, w')"
  shows "int (cnt w') \<le> int (cnt w) +
    (if deadline < clk w then 0 else (deadline - clk w) div sint (Interval cfg) + 1)"
  using ret
proof (induction "nat (deadline + 1 - clk w)" arbitrary: w rule: less_induct)
  case less
  let ?I = "sint (Interval cfg)"
  obtain d w1 where c: "rt_ctx rt w = (d, w1)" by (cases "rt_ctx rt w")
  obtain t w2 where n: "rt_now rt w1 = (t, w2)" by (cases "rt_now rt w1")
  obtain ts w2' where n': "rt_now rt w2 = (ts, w2')" by (cases "rt_now rt w2")
  obtain s x e w3 where o: "oper w2 = ((s, x, e), w3)" by (cases "oper w2") auto
  let ?w4 = "rt_sleep rt (Interval cfg) w3"
  have k: "cnt w1 = cnt w" "cnt w2 = cnt w" "cnt w2' = cnt w" "cnt w3 \<le> Suc (cnt w)"
    using cnt_ctx [of w] cnt_now [of w1] cnt_now [of w2] one [of w2] c n n' o by simp_all
  have t: "clk w \<le> t" "clk w + ?I \<le> clk ?w4"
    using ctx_mono [of w] now_lower [of w1] now_mono [of w1] mono [of w2] pos
      sleep_pauses [of w3 "Interval cfg"] c n o by simp_all
  show ?case
  proof (cases "d = None \<and> \<not> time_after t deadline")
    case False
    with less.prems c n n' have "w' = w1 \<or> w' = w2'"
      by (subst (asm) retry_loop.simps) (auto split: option.splits)
    with k pos show ?thesis by (auto simp: pos_imp_zdiv_nonneg_iff)
  next
    case True
    then have in_time: "clk w \<le> deadline" using t(1) by (simp add: time_after_def)
    show ?thesis
    proof (cases "e = None \<and> \<not> s")
      case False
      with less.prems c n o True have "w' = w3"
        by (subst (asm) retry_loop.simps) (auto split: option.splits if_splits)
      moreover have "0 \<le> (deadline - clk w) div ?I"
        using in_time pos by (simp add: pos_imp_zdiv_nonneg_iff)
      ultimately show ?thesis using k(4) in_time by simp
    next
      case again: True
      with less.prems c n o True have rec: "retry_loop rt cfg zero oper deadline ?w4 = Some (r, w')"
        by (subst (asm) retry_loop.simps) auto
      have "int (cnt w') \<le> int (cnt ?w4) +
          (if deadline < clk ?w4 then 0 else (deadline - clk ?w4) div ?I + 1)"
        using less.hyps [OF _ rec] t(2) pos in_time by simp
      moreover have "(deadline - clk ?w4) div ?I \<le> (deadline - clk w - ?I) div ?I"
        using t(2) pos by (intro zdiv_mono1) simp_all
      moreover have "(deadline - clk w - ?I) div ?I = (deadline - clk w) div ?I - 1"
        using pos div_add_self2 [of ?I "deadline - clk w - ?I"] by simp
      moreover have "0 \<le> (deadline - clk w) div ?I"
        using in_time pos by (simp add: pos_imp_zdiv_nonneg_iff)
      ultimately show ?thesis
        using k cnt_sleep [of "Interval cfg" w3] in_time by (auto split: if_splits)
    qed
  qed
qed

end

section \<open>A single goroutine's runtime\<close>

text \<open>
  The runtime of one goroutine that runs alone: time passes only while it sleeps, and the
  context may be due to end at a given instant with a given error. Its unique values are made
  from a serial number.
\<close>

record 'x sim =
  sim_clock :: gotime
  sim_cancel :: "(gotime \<times> err) option"
  sim_serial :: nat
  sim_data :: 'x

definition sim_rt :: "('x sim) go_rt" where
  "sim_rt = \<lparr>rt_now = (\<lambda>w. (sim_clock w, w)),
     rt_ctx = (\<lambda>w. (case sim_cancel w of
                       None \<Rightarrow> None
                     | Some (t, e) \<Rightarrow> if t \<le> sim_clock w then Some e else None, w)),
     rt_sleep = (\<lambda>d w. w\<lparr>sim_clock := sim_clock w + max 0 (sint d)\<rparr>),
     rt_unique = (\<lambda>w. (generateUniqueValue ''host'' None (int (sim_serial w)),
                      w\<lparr>sim_serial := Suc (sim_serial w)\<rparr>))\<rparr>"

lemma sim_rt_simps:
  "rt_now sim_rt w = (sim_clock w, w)"
  "rt_sleep sim_rt d w = w\<lparr>sim_clock := sim_clock w + max 0 (sint d)\<rparr>"
  "rt_unique sim_rt w = (generateUniqueValue ''host'' None (int (sim_serial w)),
     w\<lparr>sim_serial := Suc (sim_serial w)\<rparr>)"
  "sim_cancel w = None \<Longrightarrow> rt_ctx sim_rt w = (None, w)"
  by (simp_all add: sim_rt_def)

interpretation alone: go_runtime sim_rt sim_clock
  by unfold_locales (simp_all add: sim_rt_def)

interpretation alone_counted: counted_runtime sim_rt sim_clock "\<lambda>w. (sim_data w :: nat)"
  by unfold_locales (simp_all add: sim_rt_def)

section \<open>Outcomes\<close>

text \<open>How the loop can end, as a statement about its result.\<close>

definition retry_outcome ::
    "'w go_rt \<Rightarrow> RetryConfig \<Rightarrow> 'a \<Rightarrow> ('w, 'a) RetryOperation \<Rightarrow> gotime \<Rightarrow> ('a \<times> err option) \<times> 'w \<Rightarrow> bool" where
  "retry_outcome rt cfg zero oper deadline out \<longleftrightarrow>
     (case out of ((res, er), w') \<Rightarrow>
        (case er of
           None \<Rightarrow> \<exists>w1. oper w1 = ((True, res, None), w')
         | Some e \<Rightarrow> res = zero \<and>
             ((\<exists>w1. rt_ctx rt w1 = (Some e, w')) \<or>
              (\<exists>w1 s r. oper w1 = ((s, r, Some e), w')) \<or>
              (\<exists>w1 t w2 ts. rt_now rt w1 = (t, w2) \<and> deadline < t \<and> rt_now rt w2 = (ts, w') \<and>
                 e = NewAcquireTimeoutError (Key cfg) (Timeout cfg) ts))))"

lemma retry_loop_outcome:
  assumes "retry_loop rt cfg zero oper deadline w = Some out"
  shows "retry_outcome rt cfg zero oper deadline out"
proof (rule retry_loop.raw_induct
    [where P = "\<lambda>rt cfg zero oper deadline w out. retry_outcome rt cfg zero oper deadline out",
      OF _ assms])
  fix f and rt :: "'w go_rt" and cfg zero oper deadline w out
  assume IH: "\<And>rt cfg zero oper deadline w out. f rt cfg zero oper deadline w = Some out \<Longrightarrow>
      retry_outcome rt cfg zero oper deadline out"
    and step: "(case rt_ctx rt w of
        (Some e, w1) \<Rightarrow> Some ((zero, Some e), w1)
      | (None, w1) \<Rightarrow>
          (case rt_now rt w1 of (t, w2) \<Rightarrow>
             if time_after t deadline then
               (case rt_now rt w2 of (ts, w3) \<Rightarrow>
                  Some ((zero, Some (NewAcquireTimeoutError (Key cfg) (Timeout cfg) ts)), w3))
             else
               (case oper w2 of
                  ((success, result, Some e), w3) \<Rightarrow> Some ((zero, Some e), w3)
                | ((success, result, None), w3) \<Rightarrow>
                    if success then Some ((result, None), w3)
                    else f rt cfg zero oper deadline (rt_sleep rt (Interval cfg) w3)))) = Some out"
  obtain d w1 where c: "rt_ctx rt w = (d, w1)" by (cases "rt_ctx rt w")
  obtain t w2 where n: "rt_now rt w1 = (t, w2)" by (cases "rt_now rt w1")
  obtain ts w2' where n': "rt_now rt w2 = (ts, w2')" by (cases "rt_now rt w2")
  obtain s r e w3 where o: "oper w2 = ((s, r, e), w3)" by (cases "oper w2") auto
  show "retry_outcome rt cfg zero oper deadline out"
  proof (cases d)
    case (Some er)
    with step c show ?thesis by (auto simp: retry_outcome_def)
  next
    case None
    show ?thesis
    proof (cases "time_after t deadline")
      case True
      with step c n n' None
      have "out = ((zero, Some (NewAcquireTimeoutError (Key cfg) (Timeout cfg) ts)), w2')"
        by auto
      moreover from True have "deadline < t" by (simp add: time_after_def)
      ultimately show ?thesis
        using n n' unfolding retry_outcome_def by (simp, blast)
    next
      case False
      with step c n o None have
        "(case e of Some er \<Rightarrow> Some ((zero, Some er), w3)
          | None \<Rightarrow> if s then Some ((r, None), w3)
                    else f rt cfg zero oper deadline (rt_sleep rt (Interval cfg) w3)) = Some out"
        by (auto split: option.splits)
      note tail = this
      show ?thesis
      proof (cases e)
        case (Some er)
        with tail have "out = ((zero, Some er), w3)" by simp
        with o Some show ?thesis unfolding retry_outcome_def by (simp, blast)
      next
        case [simp]: None
        show ?thesis
        proof (cases s)
          case True
          with tail have "out = ((r, None), w3)" by simp
          with o True show ?thesis unfolding retry_outcome_def by auto
        next
          case False
          with tail have "f rt cfg zero oper deadline (rt_sleep rt (Interval cfg) w3) = Some out"
            by simp
          then show ?thesis by (rule IH)
        qed
      qed
    qed
  qed
qed

text \<open>
  An invariant of the world holds where the loop returns; if no attempt ever succeeds under it, the
  loop ends with an error.
\<close>

lemma retry_loop_keeps:
  fixes rt :: "'w go_rt"
  assumes "retry_loop rt cfg zero oper deadline w = Some out" and "P w"
    and "\<And>w. P w \<Longrightarrow> P (snd (rt_ctx rt w))" and "\<And>w. P w \<Longrightarrow> P (snd (rt_now rt w))"
    and "\<And>w d. P w \<Longrightarrow> P (rt_sleep rt d w)"
    and "\<And>w. P w \<Longrightarrow> (never \<longrightarrow> \<not> fst (fst (oper w))) \<and> P (snd (oper w))"
  shows "(never \<longrightarrow> snd (fst out) \<noteq> None) \<and> P (snd out)"
proof -
  have "(\<forall>w. P w \<longrightarrow> P (snd (rt_ctx rt w))) \<and> (\<forall>w. P w \<longrightarrow> P (snd (rt_now rt w))) \<and>
      (\<forall>w d. P w \<longrightarrow> P (rt_sleep rt d w)) \<and>
      (\<forall>w. P w \<longrightarrow> (never \<longrightarrow> \<not> fst (fst (oper w))) \<and> P (snd (oper w))) \<and> P w \<longrightarrow> (never \<longrightarrow> snd (fst out) \<noteq> None) \<and> P (snd out)"
  proof (rule retry_loop.raw_induct [where P = "\<lambda>rt cfg zero oper deadline w out.
      (\<forall>w. P w \<longrightarrow> P (snd (rt_ctx rt w))) \<and> (\<forall>w. P w \<longrightarrow> P (snd (rt_now rt w))) \<and>
      (\<forall>w d. P w \<longrightarrow> P (rt_sleep rt d w)) \<and>
      (\<forall>w. P w \<longrightarrow> (never \<longrightarrow> \<not> fst (fst (oper w))) \<and> P (snd (oper w))) \<and> P w \<longrightarrow> (never \<longrightarrow> snd (fst out) \<noteq> None) \<and> P (snd out)",
      OF _ assms(1)], intro impI, elim conjE)
    fix f and rt :: "'w go_rt" and cfg zero oper deadline w out
    assume IH: "\<And>rt cfg zero oper deadline w out. f rt cfg zero oper deadline w = Some out \<Longrightarrow>
        (\<forall>w. P w \<longrightarrow> P (snd (rt_ctx rt w))) \<and> (\<forall>w. P w \<longrightarrow> P (snd (rt_now rt w))) \<and>
        (\<forall>w d. P w \<longrightarrow> P (rt_sleep rt d w)) \<and>
        (\<forall>w. P w \<longrightarrow> (never \<longrightarrow> \<not> fst (fst (oper w))) \<and> P (snd (oper w))) \<and> P w \<longrightarrow> (never \<longrightarrow> snd (fst out) \<noteq> None) \<and> P (snd out)"
      and step: "(case rt_ctx rt w of
        (Some e, w1) \<Rightarrow> Some ((zero, Some e), w1)
      | (None, w1) \<Rightarrow>
          (case rt_now rt w1 of (t, w2) \<Rightarrow>
             if time_after t deadline then
               (case rt_now rt w2 of (ts, w3) \<Rightarrow>
                  Some ((zero, Some (NewAcquireTimeoutError (Key cfg) (Timeout cfg) ts)), w3))
             else
               (case oper w2 of
                  ((success, result, Some e), w3) \<Rightarrow> Some ((zero, Some e), w3)
                | ((success, result, None), w3) \<Rightarrow>
                    if success then Some ((result, None), w3)
                    else f rt cfg zero oper deadline (rt_sleep rt (Interval cfg) w3)))) = Some out"
      and P: "\<forall>w. P w \<longrightarrow> P (snd (rt_ctx rt w))" "\<forall>w. P w \<longrightarrow> P (snd (rt_now rt w))"
        "\<forall>w d. P w \<longrightarrow> P (rt_sleep rt d w)"
        "\<forall>w. P w \<longrightarrow> (never \<longrightarrow> \<not> fst (fst (oper w))) \<and> P (snd (oper w))" "P w"
    obtain d w1 where c: "rt_ctx rt w = (d, w1)" by (cases "rt_ctx rt w")
    obtain t w2 where n: "rt_now rt w1 = (t, w2)" by (cases "rt_now rt w1")
    obtain ts w2' where n': "rt_now rt w2 = (ts, w2')" by (cases "rt_now rt w2")
    obtain s r e w3 where o: "oper w2 = ((s, r, e), w3)" by (cases "oper w2") auto
    have "P w1" using P(1,5) c by (metis snd_conv)
    then have "P w2" using P(2) n by (metis snd_conv)
    then have "P w2'" using P(2) n' by (metis snd_conv)
    from \<open>P w2\<close> have s: "never \<longrightarrow> \<not> s" and "P w3" using P(4) o by (metis fst_conv, metis snd_conv)
    then have P4: "P (rt_sleep rt (Interval cfg) w3)" using P(3) by blast
    show "(never \<longrightarrow> snd (fst out) \<noteq> None) \<and> P (snd out)"
    proof (cases "d = None \<and> \<not> time_after t deadline \<and> e = None \<and> \<not> s")
      case True
      with step c n o have "f rt cfg zero oper deadline (rt_sleep rt (Interval cfg) w3) = Some out"
        by simp
      from IH [OF this] P(1-4) P4 show ?thesis by blast
    next
      case False
      with step c n n' o s \<open>P w1\<close> \<open>P w2'\<close> \<open>P w3\<close> show ?thesis
        by (cases d; cases "time_after t deadline"; cases e) auto
    qed
  qed
  with assms show ?thesis by blast
qed

lemma retry_loop_never:
  fixes rt :: "'w go_rt"
  assumes "retry_loop rt cfg zero oper deadline w = Some out" and "P w"
    and "\<And>w. P w \<Longrightarrow> P (snd (rt_ctx rt w))" and "\<And>w. P w \<Longrightarrow> P (snd (rt_now rt w))"
    and "\<And>w d. P w \<Longrightarrow> P (rt_sleep rt d w)"
    and "\<And>w. P w \<Longrightarrow> \<not> fst (fst (oper w)) \<and> P (snd (oper w))"
  shows "snd (fst out) \<noteq> None \<and> P (snd out)"
  using retry_loop_keeps [where P = P and never = True, OF assms(1-5)] assms(6) by simp

text \<open>What the runtime leaves as it is, and the operation too, \<open>RetryLockOperation\<close> leaves as it is.\<close>

definition rt_frame :: "'w go_rt \<Rightarrow> ('w \<Rightarrow> 'x) \<Rightarrow> bool" where
  "rt_frame rt p \<longleftrightarrow> (\<forall>w d. p (snd (rt_now rt w)) = p w \<and> p (snd (rt_ctx rt w)) = p w \<and>
     p (rt_sleep rt d w) = p w \<and> p (snd (rt_unique rt w)) = p w)"

lemma rt_frameD:
  "rt_frame rt p \<Longrightarrow> p (snd (rt_now rt w)) = p w" "rt_frame rt p \<Longrightarrow> p (snd (rt_ctx rt w)) = p w"
  "rt_frame rt p \<Longrightarrow> p (rt_sleep rt d w) = p w" "rt_frame rt p \<Longrightarrow> p (snd (rt_unique rt w)) = p w"
  by (simp_all add: rt_frame_def)

lemma RetryLockOperation_frame:
  assumes "RetryLockOperation rt cfg attempt w = Some (e, w')" and "rt_frame rt p"
    and "\<And>w. p (snd (attempt w)) = p w"
  shows "p w' = p w"
proof -
  obtain t w1 where t: "rt_now rt w = (t, w1)" by (cases "rt_now rt w")
  then obtain r where out: "retry_loop rt cfg False (lock_oper attempt) (time_add t (Timeout cfg)) w1 = Some ((r, e), w')"
    using assms(1) by (auto simp: RetryLockOperation_def RetryWithTimeout_def)
  have "p w1 = p w" using rt_frameD(1) [OF assms(2), of w] t by simp
  then have "(False \<longrightarrow> snd (fst ((r, e), w')) \<noteq> None) \<and> p (snd ((r, e), w')) = p w"
    by (rule retry_loop_keeps [where P = "\<lambda>w'. p w' = p w", OF out])
       (simp_all add: rt_frameD [OF assms(2)] assms(3) lock_oper_def case_prod_beta)
  then show ?thesis by simp
qed

section \<open>Properties\<close>

text \<open>
  C14: the retry loop returns. Under what Go documents of its clock and of \<open>Sleep\<close>, with an
  operation that does not turn the clock back and a positive retry interval, the loop ends,
  whatever the context and the other goroutines do, and even if no attempt ever succeeds.
\<close>
theorem RetryWithTimeout_returns:
  assumes "go_runtime rt clk"
    and "\<And>w. clk w \<le> clk (snd (oper w))"
    and "0 < sint (Interval cfg)"
  shows "\<exists>r. RetryWithTimeout rt cfg zero oper w = Some r"
  unfolding RetryWithTimeout_def
  using go_runtime.loop_returns [OF assms(1) assms(3,2)] by (simp split: prod.splits)

theorem RetryWithTimeout_returns_witness:
  "\<exists>r. RetryWithTimeout sim_rt (NewRetryConfig ''k'' Second Millisecond) False
     (\<lambda>w. ((False, False, None), w)) \<lparr>sim_clock = 0, sim_cancel = None, sim_serial = 0, sim_data = ()\<rparr> = Some r"
  by (rule RetryWithTimeout_returns [OF alone.go_runtime_axioms])
    (simp_all add: NewRetryConfig_def dur_defs)

text \<open>
  C16: what a returned result means. A nil error comes with the result of an attempt that
  reported success, as the last thing that happened. An error comes with the zero value, and is
  the context's error, the error of an attempt, or an acquire-timeout error (retryable, naming
  the key and the timeout) made after a clock reading past the deadline, which is the first
  reading plus the timeout.
\<close>
theorem RetryWithTimeout_outcome:
  assumes "RetryWithTimeout rt cfg zero oper w = Some out"
  shows "retry_outcome rt cfg zero oper (fst (rt_now rt w) + sint (Timeout cfg)) out"
proof -
  obtain t w1 where n: "rt_now rt w = (t, w1)" by (cases "rt_now rt w")
  with assms have "retry_loop rt cfg zero oper (t + sint (Timeout cfg)) w1 = Some out"
    by (simp add: RetryWithTimeout_def time_add_def)
  from retry_loop_outcome [OF this] n show ?thesis by simp
qed

theorem RetryWithTimeout_outcome_witness:
  "retry_outcome sim_rt (NewRetryConfig ''k'' Second Millisecond) (0 :: int)
     (\<lambda>w. ((True, 7, None), w)) 1000000000
     ((7, None), \<lparr>sim_clock = 0, sim_cancel = None, sim_serial = 0, sim_data = ()\<rparr>)"
proof -
  let ?w = "\<lparr>sim_clock = 0, sim_cancel = None, sim_serial = 0, sim_data = ()\<rparr>"
  let ?cfg = "NewRetryConfig ''k'' Second Millisecond"
  have "RetryWithTimeout sim_rt ?cfg (0 :: int) (\<lambda>w. ((True, 7, None), w)) ?w = Some ((7, None), ?w)"
    by (simp add: RetryWithTimeout_def retry_loop.simps sim_rt_def NewRetryConfig_def go_defs)
  from RetryWithTimeout_outcome [OF this] show ?thesis
    by (simp add: sim_rt_def NewRetryConfig_def dur_defs)
qed

text \<open>
  C17: the number of attempts is bounded. When the clock readings of a \<open>RetryWithTimeout\<close>
  with a positive interval behave as Go documents, the operation is invoked at most
  \<open>Timeout / Interval + 1\<close> times (\<open>cnt\<close> counts the invocations), and not at all when the
  timeout is negative.
\<close>
theorem RetryWithTimeout_attempts:
  assumes "counted_runtime rt clk cnt"
    and "\<And>w. clk w \<le> clk (snd (oper w))"
    and "\<And>w. cnt (snd (oper w)) \<le> Suc (cnt w)"
    and "0 < sint (Interval cfg)"
    and "RetryWithTimeout rt cfg zero oper w = Some (r, w')"
  shows "int (cnt w') \<le> int (cnt w) +
    (if sint (Timeout cfg) < 0 then 0 else sint (Timeout cfg) div sint (Interval cfg) + 1)"
proof -
  let ?I = "sint (Interval cfg)" and ?T = "sint (Timeout cfg)"
  have rt: "go_runtime rt clk" using assms(1) by (simp add: counted_runtime_def)
  obtain t w1 where n: "rt_now rt w = (t, w1)" by (cases "rt_now rt w")
  then have t: "t \<le> clk w1" "cnt w1 = cnt w"
    using go_runtime.now_upper [OF rt, of w] counted_runtime.cnt_now [OF assms(1), of w] by simp_all
  from assms(5) n have "retry_loop rt cfg zero oper (t + ?T) w1 = Some (r, w')"
    by (simp add: RetryWithTimeout_def time_add_def)
  from counted_runtime.loop_attempts [OF assms(1,4,2,3) this]
  have bound: "int (cnt w') \<le> int (cnt w) +
      (if t + ?T < clk w1 then 0 else (t + ?T - clk w1) div ?I + 1)"
    by (simp add: t)
  moreover have "(t + ?T - clk w1) div ?I \<le> ?T div ?I"
    using t assms(4) by (intro zdiv_mono1) simp_all
  moreover have "0 \<le> ?T div ?I" if "0 \<le> ?T"
    using that assms(4) by (simp add: pos_imp_zdiv_nonneg_iff)
  ultimately show ?thesis using t by (auto split: if_splits)
qed

theorem RetryWithTimeout_attempts_witness:
  "\<exists>r w'. RetryWithTimeout sim_rt (NewRetryConfig ''k'' Second (400 * Millisecond)) False
     (\<lambda>w. ((False, False, None), w\<lparr>sim_data := Suc (sim_data w)\<rparr>))
     \<lparr>sim_clock = 0, sim_cancel = None, sim_serial = 0, sim_data = 0\<rparr> = Some (r, w') \<and> int (sim_data w') \<le> 3"
proof -
  let ?cfg = "NewRetryConfig ''k'' Second (400 * Millisecond)"
  let ?op = "\<lambda>w. ((False, False, None), w\<lparr>sim_data := Suc (sim_data w)\<rparr>) :: (bool \<times> bool \<times> err option) \<times> nat sim"
  let ?w = "\<lparr>sim_clock = 0, sim_cancel = None, sim_serial = 0, sim_data = 0\<rparr>"
  have pos: "0 < sint (Interval ?cfg)" by (simp add: NewRetryConfig_def dur_defs)
  obtain r w' where r: "RetryWithTimeout sim_rt ?cfg False ?op ?w = Some (r, w')"
    using alone.loop_returns [OF pos, of ?op False "sim_clock ?w + sint (Timeout ?cfg)" ?w]
    by (auto simp: RetryWithTimeout_def time_add_def sim_rt_def)
  from RetryWithTimeout_attempts [OF alone_counted.counted_runtime_axioms _ _ pos r]
  have "int (sim_data w') \<le> 3"
    by (simp add: NewRetryConfig_def dur_defs)
  with r show ?thesis by blast
qed

end
