(* ===== verification/ShardedLock.thy ===== *)
theory ShardedLock
  imports Retry Lease
begin

text \<open>
  \<open>src/sharded_lock.go\<close>, lines 27-38 and 265-377: the in-process lock object and its
  generic methods. A method that takes \<open>l.mu\<close> is one atomic step on the object; the methods
  that take only the read lock but still write \<open>l.unlocked\<close> (\<open>IsLocked\<close>, \<open>GetTTL\<close>) are
  modelled as atomic too. \<open>sl_shard\<close> is the index of the shard the object belongs to, \<open>None\<close>
  for \<open>nil\<close>. The parameters \<open>t1\<close>, \<open>t2\<close>, \<open>ts\<close> are readings of \<open>time.Now()\<close>.
\<close>

section \<open>The object and its methods\<close>

record 'd ShardedLock =
  sl_key :: string
  sl_value :: string
  sl_data :: 'd
  unlocked :: bool
  sl_ttl :: duration
  expireAt :: gotime
  refCount :: i32
  sl_shard :: "nat option"

definition SL_TryLock ::
    "LockOption list \<Rightarrow> string \<Rightarrow> gotime \<Rightarrow> gotime \<Rightarrow> 'd ShardedLock \<Rightarrow> (bool \<times> err option) \<times> 'd ShardedLock" where
  "SL_TryLock opts uv t1 t2 l =
     (let config = ApplyLockOptions opts uv
      in if \<not> unlocked l \<and> \<not> time_after t1 (expireAt l) then ((False, None), l)
         else ((True, None),
               l\<lparr>unlocked := False, sl_value := Value config, sl_ttl := LockTTL config,
                 expireAt := time_add t2 (LockTTL config)\<rparr>))"

definition SL_Unlock :: "gotime \<Rightarrow> 'd ShardedLock \<Rightarrow> err option \<times> 'd ShardedLock" where
  "SL_Unlock ts l =
     (if unlocked l then (Some (NewLockNotFoundError (sl_key l) ts), l)
      else (None, l\<lparr>unlocked := True\<rparr>))"

definition SL_Extend ::
    "duration \<Rightarrow> gotime \<Rightarrow> 'd ShardedLock \<Rightarrow> (bool \<times> err option) \<times> 'd ShardedLock" where
  "SL_Extend ttl t l =
     (if unlocked l then ((False, Some (NewLockNotFoundError (sl_key l) t)), l)
      else ((True, None), l\<lparr>sl_ttl := ttl, expireAt := time_add t ttl\<rparr>))"

definition SL_IsLocked :: "gotime \<Rightarrow> 'd ShardedLock \<Rightarrow> (bool \<times> err option) \<times> 'd ShardedLock" where
  "SL_IsLocked t l =
     (if unlocked l then ((False, None), l)
      else if time_after t (expireAt l) then ((False, None), l\<lparr>unlocked := True\<rparr>)
      else ((True, None), l))"

definition SL_GetTTL ::
    "gotime \<Rightarrow> gotime \<Rightarrow> 'd ShardedLock \<Rightarrow> (duration \<times> err option) \<times> 'd ShardedLock" where
  "SL_GetTTL t1 t2 l =
     (if unlocked l then ((0, Some (NewLockNotFoundError (sl_key l) t1)), l)
      else if time_after t1 (expireAt l)
      then ((0, Some (WithContext ''key'' (CStr (sl_key l))
                        (NewLockError ErrCodeLockExpired msgExpired SeverityInfo t2))),
            l\<lparr>unlocked := True\<rparr>)
      else ((time_sub (expireAt l) t2, None), l))"

definition SL_GetKey :: "'d ShardedLock \<Rightarrow> string" where "SL_GetKey l = sl_key l"
definition SL_GetValue :: "'d ShardedLock \<Rightarrow> string" where "SL_GetValue l = sl_value l"
definition SL_GetData :: "'d ShardedLock \<Rightarrow> 'd" where "SL_GetData l = sl_data l"

lemmas sl_defs = SL_TryLock_def SL_Unlock_def SL_Extend_def SL_IsLocked_def SL_GetTTL_def

text \<open>
  The blocking \<open>Lock\<close>: the retry loop over \<open>TryLock\<close>. The object lives in the world
  (\<open>get\<close>, \<open>put\<close>), so other goroutines may use it between two attempts. Every attempt calls
  \<open>ApplyLockOptions\<close>, so it draws a new unique value. Both clock readings of an attempt are
  drawn, though the code skips the first when the lock is free.
\<close>

definition SL_attempt ::
    "'w go_rt \<Rightarrow> ('w \<Rightarrow> 'd ShardedLock) \<Rightarrow> ('d ShardedLock \<Rightarrow> 'w \<Rightarrow> 'w) \<Rightarrow> LockOption list \<Rightarrow> 'w
       \<Rightarrow> (bool \<times> err option) \<times> 'w" where
  "SL_attempt rt get put opts w =
     (case rt_unique rt w of (uv, w1) \<Rightarrow>
        (case rt_now rt w1 of (t1, w2) \<Rightarrow>
           (case rt_now rt w2 of (t2, w3) \<Rightarrow>
              (case SL_TryLock opts uv t1 t2 (get w3) of (r, l) \<Rightarrow> (r, put l w3)))))"

definition SL_Lock ::
    "'w go_rt \<Rightarrow> ('w \<Rightarrow> 'd ShardedLock) \<Rightarrow> ('d ShardedLock \<Rightarrow> 'w \<Rightarrow> 'w) \<Rightarrow> LockOption list \<Rightarrow> 'w
       \<Rightarrow> (err option \<times> 'w) option" where
  "SL_Lock rt get put opts w =
     (case rt_unique rt w of (uv, w1) \<Rightarrow>
        RetryLockOperation rt (NewRetryConfigFromLockOptions (sl_key (get w)) opts uv)
          (SL_attempt rt get put opts) w1)"

section \<open>Runs of operations on one object\<close>

datatype sl_op =
    TryLockOp "LockOption list" string | UnlockOp | ExtendOp duration | IsLockedOp | GetTTLOp

datatype op_result = BoolRes bool "err option" | ErrRes "err option" | DurRes duration "err option"
  | NumRes int "err option" | ListRes "string list" "err option"

fun sl_apply :: "sl_op \<Rightarrow> gotime \<Rightarrow> gotime \<Rightarrow> 'd ShardedLock \<Rightarrow> op_result \<times> 'd ShardedLock" where
  "sl_apply (TryLockOp opts uv) t1 t2 l =
     (case SL_TryLock opts uv t1 t2 l of ((b, e), l') \<Rightarrow> (BoolRes b e, l'))"
| "sl_apply UnlockOp t1 t2 l = (case SL_Unlock t2 l of (e, l') \<Rightarrow> (ErrRes e, l'))"
| "sl_apply (ExtendOp ttl) t1 t2 l = (case SL_Extend ttl t2 l of ((b, e), l') \<Rightarrow> (BoolRes b e, l'))"
| "sl_apply IsLockedOp t1 t2 l = (case SL_IsLocked t2 l of ((b, e), l') \<Rightarrow> (BoolRes b e, l'))"
| "sl_apply GetTTLOp t1 t2 l = (case SL_GetTTL t1 t2 l of ((d, e), l') \<Rightarrow> (DurRes d e, l'))"

text \<open>
  An event is an operation with the time that passes before it and between its two clock
  readings; a state is the clock and the object.
\<close>

type_synonym 'o timed = "nat \<times> nat \<times> 'o"

fun sl_step :: "sl_op timed \<Rightarrow> gotime \<times> 'd ShardedLock \<Rightarrow> op_result \<times> (gotime \<times> 'd ShardedLock)" where
  "sl_step (d1, d2, oper) (now, l) =
     (case sl_apply oper (now + int d1) (now + int d1 + int d2) l of
        (r, l') \<Rightarrow> (r, (now + int d1 + int d2, l')))"

definition sl_lease :: "gotime \<times> 'd ShardedLock \<Rightarrow> (string \<times> int) option" where
  "sl_lease s = (if unlocked (snd s) then None else Some (sl_value (snd s), expireAt (snd s)))"

fun sl_granted :: "sl_op timed \<Rightarrow> op_result \<Rightarrow> bool" where
  "sl_granted (d1, d2, TryLockOp opts uv) (BoolRes b e) = b"
| "sl_granted ev r = False"

text \<open>The operations that end the lease, or renew it to an earlier instant.\<close>

fun sl_yields :: "sl_op timed \<Rightarrow> gotime \<times> 'd ShardedLock \<Rightarrow> bool" where
  "sl_yields (d1, d2, UnlockOp) s = True"
| "sl_yields (d1, d2, ExtendOp ttl) s =
     (fst s + int d1 + int d2 + sint ttl < expireAt (snd s))"
| "sl_yields ev s = False"

fun sl_asks :: "sl_op timed \<Rightarrow> (string \<times> int) option" where
  "sl_asks (d1, d2, TryLockOp opts uv) =
     Some (Value (ApplyLockOptions opts uv), sint (LockTTL (ApplyLockOptions opts uv)))"
| "sl_asks ev = None"

lemma sl_step_facts:
  "sl_step (d1, d2, oper) s =
     (fst (sl_apply oper (fst s + int d1) (fst s + int d1 + int d2) (snd s)),
      (fst s + int d1 + int d2,
       snd (sl_apply oper (fst s + int d1) (fst s + int d1 + int d2) (snd s))))"
  by (cases s) (simp split: prod.splits)

interpretation simple: granting_lease sl_step fst sl_lease sl_granted sl_yields sl_asks
proof unfold_locales
  fix s :: "gotime \<times> 'd ShardedLock" and e :: "sl_op timed" and v E d
  obtain d1 d2 oper where e: "e = (d1, d2, oper)" by (cases e)
  show "fst s \<le> fst (snd (sl_step e s))" by (simp add: e sl_step_facts)
  show "\<not> sl_granted e (fst (sl_step e s)) \<and> (\<exists>E'\<ge>E. sl_lease (snd (sl_step e s)) = Some (v, E'))"
    if "sl_lease s = Some (v, E)" and "fst (snd (sl_step e s)) \<le> E" and "\<not> sl_yields e s"
    using that unfolding e
    by (cases oper) (auto simp: sl_step_facts sl_lease_def sl_defs time_after_def time_add_def
        Let_def split: if_splits)
  show "sl_lease (snd (sl_step e s)) = Some (v, fst (snd (sl_step e s)) + d)"
    if "sl_granted e (fst (sl_step e s))" and "sl_asks e = Some (v, d)"
    using that unfolding e
    by (cases oper) (auto simp: sl_step_facts sl_lease_def sl_defs time_add_def Let_def split: if_splits)
  show "sl_granted e (fst (sl_step e s))" if "sl_asks e \<noteq> None" and "sl_lease s = None"
    using that unfolding e
    by (cases oper) (auto simp: sl_step_facts sl_lease_def sl_defs Let_def split: if_splits)
qed

section \<open>Waiting for an expired lease\<close>

abbreviation sim_put :: "'x \<Rightarrow> 'x sim \<Rightarrow> 'x sim" where
  "sim_put l w \<equiv> w\<lparr>sim_data := l\<rparr>"

lemma SL_attempt_sim:
  "SL_attempt sim_rt sim_data sim_put opts w =
     (case SL_TryLock opts (generateUniqueValue ''host'' None (int (sim_serial w)))
             (sim_clock w) (sim_clock w) (sim_data w) of
        (r, l) \<Rightarrow> (r, w\<lparr>sim_serial := Suc (sim_serial w), sim_data := l\<rparr>))"
  by (simp add: SL_attempt_def sim_rt_def split: prod.splits)



lemma loop_waits_out_lease:
  fixes w :: "('d ShardedLock) sim"
  assumes "0 < sint (Interval cfg)"
    and "sim_cancel w = None"
    and "\<not> unlocked (sim_data w)" and "expireAt (sim_data w) + sint (Interval cfg) \<le> deadline"
    and "sim_clock w \<le> deadline"
  shows "\<exists>w'. retry_loop sim_rt cfg False (lock_oper (SL_attempt sim_rt sim_data sim_put opts)) deadline w =
        Some ((True, None), w') \<and>
      \<not> unlocked (sim_data w') \<and> expireAt (sim_data w) < sim_clock w' \<and>
      sim_clock w' \<le> max (sim_clock w) (expireAt (sim_data w) + sint (Interval cfg))"
  using assms(2-)
proof (induction "nat (expireAt (sim_data w) + 1 - sim_clock w)" arbitrary: w rule: less_induct)
  case less
  let ?l = "sim_data w" and ?I = "sint (Interval cfg)"
  let ?oper = "lock_oper (SL_attempt sim_rt sim_data sim_put opts) :: (('d ShardedLock) sim, bool) RetryOperation"
  have world: "rt_ctx sim_rt w = (None, w)" "rt_now sim_rt w = (sim_clock w, w)"
    "\<not> time_after (sim_clock w) deadline"
    using less.prems by (simp_all add: sim_rt_def time_after_def)
  show ?case
  proof (cases "time_after (sim_clock w) (expireAt ?l)")
    case True
    obtain w' where "?oper w = ((True, True, None), w')" "\<not> unlocked (sim_data w')"
        "sim_clock w' = sim_clock w"
      using True by (simp add: lock_oper_def SL_attempt_sim SL_TryLock_def Let_def)
    with world True show ?thesis
      by (subst retry_loop.simps) (simp add: time_after_def)
  next
    case False
    let ?w1 = "w\<lparr>sim_serial := Suc (sim_serial w)\<rparr>"
    let ?w2 = "rt_sleep sim_rt (Interval cfg) ?w1"
    have op: "?oper w = ((False, False, None), ?w1)"
      using False less.prems by (simp add: lock_oper_def SL_attempt_sim SL_TryLock_def Let_def)
    have w2: "sim_data ?w2 = ?l" "sim_cancel ?w2 = None" "sim_clock ?w2 = sim_clock w + ?I"
      using less.prems assms(1) by (simp_all add: sim_rt_def)
    have small: "sim_clock w \<le> expireAt ?l" using False by (simp add: time_after_def)
    have "\<exists>w'. retry_loop sim_rt cfg False ?oper deadline ?w2 = Some ((True, None), w') \<and>
        \<not> unlocked (sim_data w') \<and> expireAt (sim_data ?w2) < sim_clock w' \<and>
        sim_clock w' \<le> max (sim_clock ?w2) (expireAt (sim_data ?w2) + ?I)"
      using small less.prems assms(1) w2 by (intro less.hyps) simp_all
    moreover have "retry_loop sim_rt cfg False ?oper deadline w = retry_loop sim_rt cfg False ?oper deadline ?w2"
      using world op by (subst retry_loop.simps) simp
    ultimately show ?thesis using small w2 by (auto simp: max_def split: if_splits)
  qed
qed

section \<open>Properties\<close>

text \<open>
  C3: exclusion. Once \<open>TryLock\<close> has granted the lock with value \<open>v\<close> and TTL \<open>d\<close> at an
  instant, then along every sequence of operations on the same object by anyone, with any delays,
  that contains no \<open>Unlock\<close> and no \<open>Extend\<close> to an earlier instant, no other
  \<open>TryLock\<close> is granted until \<open>d\<close> has passed, and the lock is still leased to \<open>v\<close>.
\<close>
theorem TryLock_excludes:
  assumes "sl_step (d1, d2, TryLockOp opts uv) s = (BoolRes True e, s1)"
    and "along (\<lambda>ev s. \<not> sl_yields ev s) sl_step evs s1"
    and "run sl_step evs s1 = (rs, s2)"
    and "fst s2 \<le> fst s1 + sint (LockTTL (ApplyLockOptions opts uv))"
  shows "(\<forall>(ev, r) \<in> set (zip evs rs). \<not> sl_granted ev r) \<and>
    (\<exists>E\<ge>fst s1 + sint (LockTTL (ApplyLockOptions opts uv)).
       sl_lease s2 = Some (Value (ApplyLockOptions opts uv), E))"
  using simple.grant_excludes [of "(d1, d2, TryLockOp opts uv)" s _ _ evs] assms by simp

theorem TryLock_excludes_witness:
  "list_all (\<lambda>(ev, r). \<not> sl_granted ev r)
     (zip [(5, 0, IsLockedOp), (10, 1, TryLockOp [] ''b''), (1, 0, GetTTLOp)]
        [BoolRes True None, BoolRes False None, DurRes 29999999983 None])"
proof -
  let ?l = "\<lparr>sl_key = ''k'', sl_value = '''', sl_data = (), unlocked = True, sl_ttl = 0,
      expireAt = 0, refCount = 1, sl_shard = Some 0\<rparr> :: unit ShardedLock"
  let ?ev = "[(5, 0, IsLockedOp), (10, 1, TryLockOp [] ''b''), (1, 0, GetTTLOp)] :: sl_op timed list"
  let ?s1 = "snd (sl_step (0, 0, TryLockOp [] ''a'') (0, ?l))"
  note eval = sl_defs ApplyLockOptions_def default_config_def default_defs dur_defs go_div_def
    time_after_def time_add_def time_sub_def max_dur_def min_dur_def Let_def
  have g: "sl_step (0, 0, TryLockOp [] ''a'') (0, ?l) = (BoolRes True None, ?s1)"
    by (simp add: eval)
  have a: "along (\<lambda>ev s. \<not> sl_yields ev s) sl_step ?ev ?s1" by simp
  have r: "run sl_step ?ev ?s1 =
      ([BoolRes True None, BoolRes False None, DurRes 29999999983 None], snd (run sl_step ?ev ?s1))"
    by (simp add: eval)
  have t: "fst (snd (run sl_step ?ev ?s1)) \<le> fst ?s1 + sint (LockTTL (ApplyLockOptions [] ''a''))"
    by (simp add: eval)
  from TryLock_excludes [OF g a r t] show ?thesis unfolding list_all_iff by blast
qed

text \<open>
  the remaining time. After a grant with TTL \<open>d\<close> at \<open>t2\<close>, a \<open>GetTTL\<close> at \<open>t\<close> within
  the lease returns exactly the remaining time and \<open>IsLocked\<close> is true; the first query after the
  expiry is answered with \<open>LOCK_EXPIRED\<close> and releases the object, so the next one is answered
  with \<open>LOCK_NOT_FOUND\<close>.
\<close>
theorem GetTTL_after_grant:
  assumes "SL_TryLock opts uv t1 t2 l = ((True, None), l')"
    and "d = sint (LockTTL (ApplyLockOptions opts uv))" and "t2 \<le> t"
  shows "if t \<le> t2 + d
     then (\<exists>r. SL_GetTTL t t l' = ((r, None), l') \<and> sint r = t2 + d - t) \<and>
          SL_IsLocked t l' = ((True, None), l')
     else (\<exists>e. SL_GetTTL t t l' = ((0, Some e), l'\<lparr>unlocked := True\<rparr>) \<and> Code e = ErrCodeLockExpired) \<and>
          (\<exists>e. SL_GetTTL t t (l'\<lparr>unlocked := True\<rparr>) = ((0, Some e), l'\<lparr>unlocked := True\<rparr>) \<and>
               Code e = ErrCodeLockNotFound)"
proof -
  have l': "\<not> unlocked l'" "expireAt l' = t2 + d"
    using assms(1,2) by (auto simp: SL_TryLock_def Let_def time_add_def split: if_splits)
  have "d < 2 ^ 63" using assms(2) sint_i64_bounds by simp
  then have "sint (time_sub (t2 + d) t) = t2 + d - t" if "t \<le> t2 + d"
    using that assms(3) by (simp add: sint_time_sub max_dur_def min_dur_def)
  then show ?thesis
    using l' by (auto simp: SL_GetTTL_def SL_IsLocked_def time_after_def)
qed

theorem GetTTL_after_grant_witness:
  "SL_IsLocked 10 (snd (SL_TryLock [] ''a'' 0 0 \<lparr>sl_key = ''k'', sl_value = '''', sl_data = (),
      unlocked = True, sl_ttl = 0, expireAt = 0, refCount = 1, sl_shard = Some 0\<rparr>)) =
   ((True, None), snd (SL_TryLock [] ''a'' 0 0 \<lparr>sl_key = ''k'', sl_value = '''', sl_data = (),
      unlocked = True, sl_ttl = 0, expireAt = 0, refCount = 1, sl_shard = Some 0\<rparr>))"
proof -
  let ?l = "\<lparr>sl_key = ''k'', sl_value = '''', sl_data = (), unlocked = True, sl_ttl = 0,
      expireAt = 0, refCount = 1, sl_shard = Some 0\<rparr> :: unit ShardedLock"
  have "SL_TryLock [] ''a'' 0 0 ?l = ((True, None), snd (SL_TryLock [] ''a'' 0 0 ?l))"
    by (simp add: SL_TryLock_def Let_def)
  from GetTTL_after_grant [OF this refl, of 10] show ?thesis
    by (simp add: Apply_LockTTL default_config_def)
qed

text \<open>
  C18: blocking acquisition makes progress. A goroutine that runs alone (nobody releases or
  renews) and calls \<open>Lock\<close> on an object leased until \<open>E\<close>, with a positive retry interval and
  a timeout that reaches at least one interval beyond \<open>E\<close>, gets the lock without error: after
  \<open>E\<close>, and no later than one interval after it (or at once, if \<open>E\<close> is already past).
\<close>
theorem Lock_acquires_after_expiry:
  assumes "cfg = NewRetryConfigFromLockOptions (sl_key (sim_data w)) opts (fst (rt_unique sim_rt w))"
    and "sim_cancel w = None" and "\<not> unlocked (sim_data w)"
    and "0 < sint (Interval cfg)" and "0 \<le> sint (Timeout cfg)"
    and "expireAt (sim_data w) + sint (Interval cfg) \<le> sim_clock w + sint (Timeout cfg)"
  shows "\<exists>w'. SL_Lock sim_rt sim_data sim_put opts w = Some (None, w') \<and>
      \<not> unlocked (sim_data w') \<and> expireAt (sim_data w) < sim_clock w' \<and>
      sim_clock w' \<le> max (sim_clock w) (expireAt (sim_data w) + sint (Interval cfg))"
proof -
  let ?w1 = "snd (rt_unique sim_rt w)"
  have w1: "sim_data ?w1 = sim_data w" "sim_clock ?w1 = sim_clock w" "sim_cancel ?w1 = None"
    "rt_now sim_rt ?w1 = (sim_clock w, ?w1)"
    using assms(2) by (simp_all add: sim_rt_def)
  obtain w' where w': "retry_loop sim_rt cfg False
        (lock_oper (SL_attempt sim_rt sim_data sim_put opts)) (sim_clock w + sint (Timeout cfg)) ?w1 =
      Some ((True, None), w')" "\<not> unlocked (sim_data w')" "expireAt (sim_data w) < sim_clock w'"
      "sim_clock w' \<le> max (sim_clock w) (expireAt (sim_data w) + sint (Interval cfg))"
    using loop_waits_out_lease [OF assms(4), of ?w1 "sim_clock w + sint (Timeout cfg)" opts] w1 assms(3,5,6)
    by auto
  have "SL_Lock sim_rt sim_data sim_put opts w = Some (None, w')"
    using w'(1) w1(4) unfolding SL_Lock_def RetryLockOperation_def RetryWithTimeout_def
    by (simp add: assms(1) time_add_def case_prod_beta)
  with w' show ?thesis by blast
qed

theorem Lock_acquires_after_expiry_witness:
  "\<exists>w'. SL_Lock sim_rt sim_data sim_put [WithValue ''b'']
      \<lparr>sim_clock = 0, sim_cancel = None, sim_serial = 0,
       sim_data = \<lparr>sl_key = ''k'', sl_value = ''a'', sl_data = (), unlocked = False,
         sl_ttl = 5 * Second, expireAt = 5000000000, refCount = 1, sl_shard = Some 0\<rparr>\<rparr> = Some (None, w')"
proof -
  let ?w = "\<lparr>sim_clock = 0, sim_cancel = None, sim_serial = 0,
       sim_data = \<lparr>sl_key = ''k'', sl_value = ''a'', sl_data = (), unlocked = False,
         sl_ttl = 5 * Second, expireAt = 5000000000, refCount = 1, sl_shard = Some 0\<rparr>\<rparr> :: (unit ShardedLock) sim"
  have "Interval (NewRetryConfigFromLockOptions k [WithValue ''b''] u) = DefaultRetryInterval"
    "Timeout (NewRetryConfigFromLockOptions k [WithValue ''b''] u) = DefaultAcquireTimeout" for k u
    by (simp_all add: NewRetryConfigFromLockOptions_def Apply_RetryInterval Apply_AcquireTimeout
        Let_def WithValue_def default_config_def)
  then show ?thesis
    using Lock_acquires_after_expiry [OF refl, of ?w "[WithValue ''b'']"] by auto
qed

text \<open>
  an expired lease and \<open>Extend\<close>. Nothing but an acquisition or a query notices an expiry:
  \<open>Extend\<close> on an expired lease succeeds and revives it for the old holder, and \<open>Unlock\<close> on it
  succeeds; but if the query \<open>IsLocked\<close> happens to come first, the same \<open>Extend\<close> and
  \<open>Unlock\<close> are answered with \<open>LOCK_NOT_FOUND\<close>.
\<close>
theorem expired_lease_revived_unless_queried:
  assumes "\<not> unlocked l" and "expireAt l < t"
  shows "fst (SL_Extend ttl t l) = (True, None) \<and>
         sl_lease (t, snd (SL_Extend ttl t l)) = Some (sl_value l, t + sint ttl) \<and>
         fst (SL_Unlock t l) = None \<and>
         SL_IsLocked t l = ((False, None), l\<lparr>unlocked := True\<rparr>) \<and>
         fst (SL_Extend ttl t (snd (SL_IsLocked t l))) = (False, Some (NewLockNotFoundError (sl_key l) t)) \<and>
         fst (SL_Unlock t (snd (SL_IsLocked t l))) = Some (NewLockNotFoundError (sl_key l) t)"
  using assms by (simp add: SL_Extend_def SL_Unlock_def SL_IsLocked_def sl_lease_def time_add_def time_after_def)

theorem expired_lease_revived_unless_queried_witness:
  "fst (SL_Extend Second 10 \<lparr>sl_key = ''k'', sl_value = ''a'', sl_data = (), unlocked = False,
      sl_ttl = 5, expireAt = 5, refCount = 1, sl_shard = Some 0\<rparr>) = (True, None)"
  using expired_lease_revived_unless_queried [of "\<lparr>sl_key = ''k'', sl_value = ''a'', sl_data = (),
      unlocked = False, sl_ttl = 5, expireAt = 5, refCount = 1, sl_shard = Some 0\<rparr>" 10 Second]
  by simp

end
