(* ===== verification/ShardedRW.thy ===== *)
theory ShardedRW
  imports ShardedLock
begin

text \<open>
  \<open>src/sharded_lock.go\<close>, lines 379-410 and 522-525: the read side of the in-process
  read-write lock. The write side is the generic \<open>TryLock\<close>/\<open>Unlock\<close> of the same object. The
  reader count is an \<open>int32\<close> that only the read operations touch.
\<close>

record RWLockData = readers :: i32

type_synonym rw_lock = "RWLockData ShardedLock"

abbreviation add_readers :: "i32 \<Rightarrow> rw_lock \<Rightarrow> rw_lock" where
  "add_readers n l \<equiv> l\<lparr>sl_data := (sl_data l)\<lparr>readers := readers (sl_data l) + n\<rparr>\<rparr>"

definition TryRLockRW :: "gotime \<Rightarrow> rw_lock \<Rightarrow> (bool \<times> err option) \<times> rw_lock" where
  "TryRLockRW t l =
     (if \<not> unlocked l \<and> \<not> time_after t (expireAt l) then ((False, None), l)
      else ((True, None), add_readers 1 (l\<lparr>unlocked := True\<rparr>)))"

definition RUnlockRW :: "rw_lock \<Rightarrow> err option \<times> rw_lock" where
  "RUnlockRW l = (None, add_readers (- 1) l)"

definition GetReadCountRW :: "rw_lock \<Rightarrow> int \<times> err option" where
  "GetReadCountRW l = (sint (readers (sl_data l)), None)"

section \<open>Runs\<close>

declare sl_step.simps [simp del]

datatype rw_op = WriteOp sl_op | TryRLockOp | RUnlockOp

fun rw_step :: "rw_op timed \<Rightarrow> gotime \<times> rw_lock \<Rightarrow> op_result \<times> (gotime \<times> rw_lock)" where
  "rw_step (d1, d2, WriteOp oper) s = sl_step (d1, d2, oper) s"
| "rw_step (d1, d2, TryRLockOp) (now, l) =
     (case TryRLockRW (now + int d1 + int d2) l of
        ((b, e), l') \<Rightarrow> (BoolRes b e, (now + int d1 + int d2, l')))"
| "rw_step (d1, d2, RUnlockOp) (now, l) =
     (case RUnlockRW l of (e, l') \<Rightarrow> (ErrRes e, (now + int d1 + int d2, l')))"

fun rw_granted :: "rw_op timed \<Rightarrow> op_result \<Rightarrow> bool" where
  "rw_granted (d1, d2, WriteOp oper) r = sl_granted (d1, d2, oper) r"
| "rw_granted (d1, d2, TryRLockOp) (BoolRes b e) = b"
| "rw_granted ev r = False"

fun rw_yields :: "rw_op timed \<Rightarrow> gotime \<times> rw_lock \<Rightarrow> bool" where
  "rw_yields (d1, d2, WriteOp oper) s = sl_yields (d1, d2, oper) s"
| "rw_yields ev s = False"

fun rw_asks :: "rw_op timed \<Rightarrow> (string \<times> int) option" where
  "rw_asks (d1, d2, WriteOp oper) = sl_asks (d1, d2, oper)"
| "rw_asks ev = None"

interpretation rw: granting_lease rw_step fst sl_lease rw_granted rw_yields rw_asks
proof unfold_locales
  fix s :: "gotime \<times> rw_lock" and e :: "rw_op timed" and v E d
  obtain d1 d2 oper where e: "e = (d1, d2, oper)" by (cases e)
  obtain now l where s: "s = (now, l)" by (cases s)
  show "fst s \<le> fst (snd (rw_step e s))"
    unfolding e s by (cases oper) (simp_all add: simple.clock_mono TryRLockRW_def RUnlockRW_def
        sl_step_facts)
  show "\<not> rw_granted e (fst (rw_step e s)) \<and> (\<exists>E'\<ge>E. sl_lease (snd (rw_step e s)) = Some (v, E'))"
    if "sl_lease s = Some (v, E)" and "fst (snd (rw_step e s)) \<le> E" and "\<not> rw_yields e s"
  proof (cases oper)
    case (WriteOp w)
    with that simple.lease_kept [of s v E "(d1, d2, w)"] show ?thesis by (simp add: e)
  next
    case TryRLockOp
    with that show ?thesis
      by (auto simp: e s TryRLockRW_def sl_lease_def time_after_def split: if_splits)
  next
    case RUnlockOp
    with that show ?thesis by (auto simp: e s RUnlockRW_def sl_lease_def split: if_splits)
  qed
  show "sl_lease (snd (rw_step e s)) = Some (v, fst (snd (rw_step e s)) + d)"
    if "rw_granted e (fst (rw_step e s))" and "rw_asks e = Some (v, d)"
    using that simple.grant_lease unfolding e s by (cases oper) auto
  show "rw_granted e (fst (rw_step e s))" if "rw_asks e \<noteq> None" and "sl_lease s = None"
  proof (cases oper)
    case (WriteOp w)
    with that simple.grant_free [of "(d1, d2, w)" s] show ?thesis by (simp add: e)
  qed (use that e in simp_all)
qed

text \<open>Grants minus releases, as the \<open>int32\<close> the code keeps.\<close>

fun read_balance :: "(rw_op timed \<times> op_result) list \<Rightarrow> i32" where
  "read_balance [] = 0"
| "read_balance (((d1, d2, TryRLockOp), BoolRes b e) # h) = (if b then 1 else 0) + read_balance h"
| "read_balance (((d1, d2, RUnlockOp), r) # h) = read_balance h - 1"
| "read_balance (x # h) = read_balance h"

lemma sl_step_data: "sl_data (snd (snd (sl_step e s))) = sl_data (snd s)"
proof -
  obtain d1 d2 oper where e: "e = (d1, d2, oper)" by (cases e)
  show ?thesis unfolding e by (cases oper) (simp_all add: sl_step_facts sl_defs Let_def)
qed

lemma read_balance_step:
  "readers (sl_data (snd (snd (rw_step e s)))) + read_balance h =
   readers (sl_data (snd s)) + read_balance ((e, fst (rw_step e s)) # h)"
proof -
  obtain d1 d2 oper where e: "e = (d1, d2, oper)" by (cases e)
  obtain now l where s: "s = (now, l)" by (cases s)
  show ?thesis unfolding e s
    by (cases oper) (simp_all add: sl_step_data TryRLockRW_def RUnlockRW_def)
qed

section \<open>Properties\<close>

text \<open>
  C10: a write lease excludes readers and writers. Once a write lock has been granted for \<open>d\<close>,
  no read lock and no write lock of the same object is granted until \<open>d\<close> has passed, along
  every sequence of read and write operations without a release or a shortening renewal of the
  write lock.
\<close>
theorem write_lease_excludes:
  assumes "rw_step (d1, d2, WriteOp (TryLockOp opts uv)) s = (BoolRes True e, s1)"
    and "along (\<lambda>ev s. \<not> rw_yields ev s) rw_step evs s1"
    and "run rw_step evs s1 = (rs, s2)"
    and "fst s2 \<le> fst s1 + sint (LockTTL (ApplyLockOptions opts uv))"
  shows "\<forall>(ev, r) \<in> set (zip evs rs). \<not> rw_granted ev r"
  using rw.grant_excludes [of "(d1, d2, WriteOp (TryLockOp opts uv))" s _ _ evs] assms by simp

theorem write_lease_excludes_witness:
  "list_all (\<lambda>(ev, r). \<not> rw_granted ev r) (zip [(5, 0, TryRLockOp), (10, 1, WriteOp (TryLockOp [] ''b''))]
      [BoolRes False None, BoolRes False None])"
proof -
  let ?l = "\<lparr>sl_key = ''k'', sl_value = '''', sl_data = \<lparr>readers = 0\<rparr>, unlocked = True, sl_ttl = 0,
      expireAt = 0, refCount = 1, sl_shard = Some 0\<rparr> :: rw_lock"
  let ?ev = "[(5, 0, TryRLockOp), (10, 1, WriteOp (TryLockOp [] ''b''))] :: rw_op timed list"
  let ?s1 = "snd (rw_step (0, 0, WriteOp (TryLockOp [] ''a'')) (0, ?l))"
  note eval = sl_step.simps sl_defs TryRLockRW_def ApplyLockOptions_def default_config_def default_defs dur_defs
    go_div_def time_after_def time_add_def Let_def
  have g: "rw_step (0, 0, WriteOp (TryLockOp [] ''a'')) (0, ?l) = (BoolRes True None, ?s1)"
    by (simp add: eval)
  have a: "along (\<lambda>ev s. \<not> rw_yields ev s) rw_step ?ev ?s1" by simp
  have r: "run rw_step ?ev ?s1 = ([BoolRes False None, BoolRes False None], snd (run rw_step ?ev ?s1))"
    by (simp add: eval)
  have t: "fst (snd (run rw_step ?ev ?s1)) \<le> fst ?s1 + sint (LockTTL (ApplyLockOptions [] ''a''))"
    by (simp add: eval)
  from write_lease_excludes [OF g a r t] show ?thesis unfolding list_all_iff by blast
qed

text \<open>
  readers do not exclude a writer. A \<open>TryLock\<close> of the write side is granted whenever no
  write lease is alive, whatever the number of readers, and leaves the readers counted: right
  after a granted read lock, a write lock is granted as well. The read-write lock of the local
  backend does not keep its promise of many readers or one writer.
\<close>
theorem writer_ignores_readers:
  "(if unlocked l \<or> expireAt l < t1
    then fst (SL_TryLock opts uv t1 t2 l) = (True, None)
    else SL_TryLock opts uv t1 t2 l = ((False, None), l)) \<and>
   sl_data (snd (SL_TryLock opts uv t1 t2 l)) = sl_data l \<and>
   (if fst (TryRLockRW t l) = (True, None)
    then fst (SL_TryLock opts uv t1 t2 (snd (TryRLockRW t l))) = (True, None) \<and>
         readers (sl_data (snd (SL_TryLock opts uv t1 t2 (snd (TryRLockRW t l))))) =
           readers (sl_data l) + 1
    else snd (TryRLockRW t l) = l)"
  by (simp add: SL_TryLock_def TryRLockRW_def time_after_def Let_def)

text \<open>
  the reader count is the number of granted read locks minus the number of releases, in
  \<open>int32\<close> arithmetic, along every run of read and write operations. Releases are not checked:
  \<open>RUnlock\<close> never fails, and one release too many makes \<open>GetReadCount\<close> report -1.
\<close>
theorem reader_count_balance:
  "readers (sl_data (snd (snd (run rw_step evs s)))) =
     readers (sl_data (snd s)) + read_balance (zip evs (fst (run rw_step evs s))) \<and>
   fst (RUnlockRW l) = None \<and>
   GetReadCountRW (snd (RUnlockRW (l\<lparr>sl_data := \<lparr>readers = 0\<rparr>\<rparr>))) = (- 1, None)"
proof (intro conjI)
  show "readers (sl_data (snd (snd (run rw_step evs s)))) =
     readers (sl_data (snd s)) + read_balance (zip evs (fst (run rw_step evs s)))"
  proof (induction evs arbitrary: s)
    case (Cons e es)
    then show ?case
      using read_balance_step [of e s "zip es (fst (run rw_step es (snd (rw_step e s))))"]
      by (simp add: run_Cons_fst run_Cons_snd del: run.simps(2))
  qed simp
qed (simp_all add: RUnlockRW_def GetReadCountRW_def)

end
