(* ===== verification/ShardedFair.thy ===== *)
theory ShardedFair
  imports ShardedLock
begin

text \<open>
  \<open>src/sharded_lock.go\<close>, lines 412-513 and 527-530: the in-process fair lock. Its data is the
  queue; while the lock is held the head of the queue is the holder, behind it stand the values
  of refused requests, in the order of the requests.
\<close>

record FairLockData = queue :: "string list"

type_synonym fair_lock = "FairLockData ShardedLock"

abbreviation fqueue :: "fair_lock \<Rightarrow> string list" where
  "fqueue l \<equiv> queue (sl_data l)"

abbreviation set_queue :: "string list \<Rightarrow> fair_lock \<Rightarrow> fair_lock" where
  "set_queue q l \<equiv> l\<lparr>sl_data := \<lparr>queue = q\<rparr>\<rparr>"

text \<open>\<open>l.data.queue[1:]\<close> guarded by a positive length: \<open>tl\<close> of the empty list is empty.\<close>

definition drop_head :: "fair_lock \<Rightarrow> fair_lock" where
  "drop_head l = set_queue (tl (fqueue l)) l"

definition TryFairLockFair ::
    "LockOption list \<Rightarrow> string \<Rightarrow> gotime \<Rightarrow> gotime \<Rightarrow> fair_lock \<Rightarrow> (bool \<times> err option) \<times> fair_lock" where
  "TryFairLockFair opts uv t1 t2 l =
     (let config = ApplyLockOptions opts uv; v = Value config
      in if \<not> unlocked l \<and> \<not> time_after t1 (expireAt l)
         then ((False, None), set_queue (fqueue l @ [v]) l)
         else
           (let l1 = (if unlocked l then l else drop_head (l\<lparr>unlocked := True\<rparr>))
            in if fqueue l1 \<noteq> [] \<and> hd (fqueue l1) \<noteq> v
               then ((False, None), set_queue (fqueue l1 @ [v]) l1)
               else
                 (let l2 = l1\<lparr>unlocked := False, sl_value := v, sl_ttl := LockTTL config,
                             expireAt := time_add t2 (LockTTL config)\<rparr>
                  in ((True, None),
                      if fqueue l2 = [] \<or> hd (fqueue l2) \<noteq> v
                      then set_queue (v # fqueue l2) l2 else l2))))"

definition UnlockFairFair :: "gotime \<Rightarrow> fair_lock \<Rightarrow> err option \<times> fair_lock" where
  "UnlockFairFair ts l =
     (if unlocked l then (Some (NewLockNotFoundError (sl_key l) ts), l)
      else (None, drop_head (l\<lparr>unlocked := True\<rparr>)))"

definition IsLockedFairFair :: "gotime \<Rightarrow> fair_lock \<Rightarrow> (bool \<times> err option) \<times> fair_lock" where
  "IsLockedFairFair t l =
     (if unlocked l then ((False, None), l)
      else if time_after t (expireAt l) then ((False, None), drop_head (l\<lparr>unlocked := True\<rparr>))
      else ((True, None), l))"

definition GetTTLFairFair ::
    "gotime \<Rightarrow> gotime \<Rightarrow> fair_lock \<Rightarrow> (duration \<times> err option) \<times> fair_lock" where
  "GetTTLFairFair t1 t2 l =
     (if unlocked l then ((0, Some (NewLockNotFoundError (sl_key l) t1)), l)
      else if time_after t1 (expireAt l)
      then ((0, Some (WithContext ''key'' (CStr (sl_key l))
                        (NewLockError ErrCodeLockExpired msgExpired SeverityInfo t2))),
            drop_head (l\<lparr>unlocked := True\<rparr>))
      else ((time_sub (expireAt l) t2, None), l))"

lemmas fair_defs =
  TryFairLockFair_def UnlockFairFair_def IsLockedFairFair_def GetTTLFairFair_def SL_Extend_def
  drop_head_def

section \<open>Runs\<close>

text \<open>The operations are those of \<open>sl_op\<close>, in the versions of the fair lock.\<close>

fun fair_apply :: "sl_op \<Rightarrow> gotime \<Rightarrow> gotime \<Rightarrow> fair_lock \<Rightarrow> op_result \<times> fair_lock" where
  "fair_apply (TryLockOp opts uv) t1 t2 l =
     (case TryFairLockFair opts uv t1 t2 l of ((b, e), l') \<Rightarrow> (BoolRes b e, l'))"
| "fair_apply UnlockOp t1 t2 l = (case UnlockFairFair t2 l of (e, l') \<Rightarrow> (ErrRes e, l'))"
| "fair_apply (ExtendOp ttl) t1 t2 l = (case SL_Extend ttl t2 l of ((b, e), l') \<Rightarrow> (BoolRes b e, l'))"
| "fair_apply IsLockedOp t1 t2 l = (case IsLockedFairFair t2 l of ((b, e), l') \<Rightarrow> (BoolRes b e, l'))"
| "fair_apply GetTTLOp t1 t2 l = (case GetTTLFairFair t1 t2 l of ((d, e), l') \<Rightarrow> (DurRes d e, l'))"

definition fair_step :: "sl_op timed \<Rightarrow> gotime \<times> fair_lock \<Rightarrow> op_result \<times> (gotime \<times> fair_lock)" where
  "fair_step ev s =
     (case ev of (d1, d2, oper) \<Rightarrow>
        (case fair_apply oper (fst s + int d1) (fst s + int d1 + int d2) (snd s) of
           (r, l') \<Rightarrow> (r, (fst s + int d1 + int d2, l'))))"

lemma fair_step_facts:
  "fair_step (d1, d2, oper) s =
     (fst (fair_apply oper (fst s + int d1) (fst s + int d1 + int d2) (snd s)),
      (fst s + int d1 + int d2,
       snd (fair_apply oper (fst s + int d1) (fst s + int d1 + int d2) (snd s))))"
  by (simp add: fair_step_def split: prod.splits)

interpretation fair: leased fair_step fst sl_lease sl_granted sl_yields
proof unfold_locales
  fix s :: "gotime \<times> fair_lock" and e :: "sl_op timed" and v E
  obtain d1 d2 oper where e: "e = (d1, d2, oper)" by (cases e)
  show "fst s \<le> fst (snd (fair_step e s))" by (simp add: e fair_step_facts)
  show "\<not> sl_granted e (fst (fair_step e s)) \<and> (\<exists>E'\<ge>E. sl_lease (snd (fair_step e s)) = Some (v, E'))"
    if "sl_lease s = Some (v, E)" and "fst (snd (fair_step e s)) \<le> E" and "\<not> sl_yields e s"
    using that unfolding e
    by (cases oper) (auto simp: fair_step_facts sl_lease_def fair_defs time_after_def time_add_def
        Let_def split: if_splits)
qed

text \<open>The value an event requests, if it is a request.\<close>

fun requests :: "sl_op timed \<Rightarrow> string option" where
  "requests (d1, d2, TryLockOp opts uv) = Some (Value (ApplyLockOptions opts uv))"
| "requests ev = None"

definition fq :: "gotime \<times> fair_lock \<Rightarrow> string list" where
  "fq s = fqueue (snd s)"

lemma fq_Pair [simp]: "fq (t, l) = fqueue l"
  by (simp add: fq_def)

lemma sl_granted_requests: "sl_granted e r \<Longrightarrow> \<exists>v. requests e = Some v"
  by (induction e r rule: sl_granted.induct) auto

text \<open>One step drops at most the head and appends at most the requested value.\<close>

lemma fair_step_queue:
  "\<exists>k vs. k \<le> 1 \<and> fq (snd (fair_step e s)) = drop k (fq s) @ vs \<and>
     set vs \<subseteq> set_option (requests e)"
proof -
  obtain d1 d2 oper where e: "e = (d1, d2, oper)" by (cases e)
  show ?thesis
  proof (cases oper)
    case (TryLockOp opts uv)
    let ?v = "Value (ApplyLockOptions opts uv)"
    let ?q = "fq s" and ?q' = "fq (snd (fair_step e s))"
    have "?q' \<in> {?q @ [?v], tl ?q @ [?v], ?q, tl ?q}"
      unfolding e TryLockOp
      by (auto simp: fair_step_facts TryFairLockFair_def drop_head_def fq_def Let_def)
    then show ?thesis
      using TryLockOp e
      by (auto simp: drop_Suc intro: exI [of _ 0] exI [of _ "Suc 0"])
  qed (use e in \<open>auto simp: fair_step_facts fair_defs fq_def drop_Suc intro: exI [of _ 0] exI [of _ "Suc 0"]\<close>)
qed

text \<open>A grant puts (or finds) the requester at the head.\<close>

lemma fair_grant_head:
  assumes "sl_granted e (fst (fair_step e s))" and "requests e = Some v"
  shows "fq (snd (fair_step e s)) \<noteq> [] \<and> hd (fq (snd (fair_step e s))) = v"
proof -
  obtain d1 d2 oper where e: "e = (d1, d2, oper)" by (cases e)
  from assms show ?thesis unfolding e
    by (cases oper) (auto simp: fair_step_facts TryFairLockFair_def drop_head_def fq_def Let_def
        split: if_splits)
qed

lemma absent_stays:
  assumes "u \<notin> set (fq s)" and "\<forall>e\<in>set es. requests e \<noteq> Some u"
  shows "u \<notin> set (fq (snd (run fair_step es s)))"
  using assms
proof (induction es arbitrary: s)
  case (Cons e es)
  obtain k vs where "fq (snd (fair_step e s)) = drop k (fq s) @ vs" "set vs \<subseteq> set_option (requests e)"
    using fair_step_queue by blast
  with Cons.prems have "u \<notin> set (fq (snd (fair_step e s)))"
    by (auto dest: in_set_dropD)
  then have "u \<notin> set (fq (snd (run fair_step es (snd (fair_step e s)))))"
    using Cons.prems(2) by (intro Cons.IH) simp_all
  then show ?case by (simp add: run_Cons_snd del: run.simps(2))
qed simp

lemma fifo:
  assumes "fq s = xs @ u # ys" and "u \<notin> set xs" and "u \<notin> set ys"
    and "\<forall>e\<in>set es. requests e \<noteq> Some u"
    and "u \<in> set (fq (snd (run fair_step es s)))"
  shows "\<forall>(e, r) \<in> set (zip es (fst (run fair_step es s))).
      sl_granted e r \<longrightarrow> (\<exists>v\<in>set xs. requests e = Some v)"
  using assms
proof (induction es arbitrary: s xs ys)
  case (Cons e es)
  let ?s = "snd (fair_step e s)"
  obtain k vs where k: "k \<le> 1" and q: "fq ?s = drop k (fq s) @ vs"
    and vs: "set vs \<subseteq> set_option (requests e)"
    using fair_step_queue by blast
  have uvs: "u \<notin> set vs" using vs Cons.prems(4) by auto
  have last: "u \<in> set (fq (snd (run fair_step es ?s)))"
    using Cons.prems(5) by (simp add: run_Cons_snd del: run.simps(2))
  then have "u \<in> set (fq ?s)"
    using absent_stays [of u ?s es] Cons.prems(4) by (metis list.set_intros(2))
  then have "\<not> (xs = [] \<and> k = 1)" using q uvs Cons.prems(1,3) by auto
  then have q': "fq ?s = drop k xs @ u # (ys @ vs)"
    using q k Cons.prems(1) by (cases xs; cases k) auto
  have "\<forall>(e, r) \<in> set (zip es (fst (run fair_step es ?s))).
      sl_granted e r \<longrightarrow> (\<exists>v\<in>set (drop k xs). requests e = Some v)"
    using Cons.prems uvs last q' by (intro Cons.IH [of ?s "drop k xs" "ys @ vs"]) (auto dest: in_set_dropD)
  then have rest: "\<forall>(e, r) \<in> set (zip es (fst (run fair_step es ?s))).
      sl_granted e r \<longrightarrow> (\<exists>v\<in>set xs. requests e = Some v)"
    using set_drop_subset [of k xs] by fast
  have "\<exists>v\<in>set xs. requests e = Some v" if g: "sl_granted e (fst (fair_step e s))"
  proof -
    obtain v where v: "requests e = Some v" using sl_granted_requests [OF g] by blast
    then have "v \<noteq> u" "hd (fq ?s) = v" using fair_grant_head [OF g] Cons.prems(4) by auto
    with q' have "v \<in> set (drop k xs)" by (cases "drop k xs") auto
    with v show ?thesis by (auto dest: in_set_dropD)
  qed
  with rest show ?case by (simp add: run_Cons_fst del: run.simps(2))
qed simp

text \<open>The lock is free, but the head of the queue is a value nobody requests any more.\<close>

definition stuck :: "string \<Rightarrow> fair_lock \<Rightarrow> bool" where
  "stuck p l \<longleftrightarrow> unlocked l \<and> fqueue l \<noteq> [] \<and> hd (fqueue l) = p"

lemma stuck_step:
  assumes "stuck p (snd s)" and "requests e \<noteq> Some p"
  shows "\<not> sl_granted e (fst (fair_step e s)) \<and> stuck p (snd (snd (fair_step e s)))"
proof -
  obtain d1 d2 oper where e: "e = (d1, d2, oper)" by (cases e)
  from assms show ?thesis unfolding e stuck_def
    by (cases oper) (auto simp: fair_step_facts fair_defs Let_def)
qed

lemma stuck_run:
  assumes "stuck p (snd s)" and "\<forall>e\<in>set es. requests e \<noteq> Some p"
  shows "(\<forall>(e, r) \<in> set (zip es (fst (run fair_step es s))). \<not> sl_granted e r) \<and>
    stuck p (snd (snd (run fair_step es s)))"
  using assms
proof (induction es arbitrary: s)
  case (Cons e es)
  from stuck_step [OF Cons.prems(1)] Cons.prems(2)
  have "\<not> sl_granted e (fst (fair_step e s))" "stuck p (snd (snd (fair_step e s)))" by auto
  with Cons.IH [of "snd (fair_step e s)"] Cons.prems(2) show ?case
    by (simp add: run_Cons_fst run_Cons_snd del: run.simps(2))
qed simp

text \<open>While the lock is held its holder is the head of the queue.\<close>

definition holder_heads :: "fair_lock \<Rightarrow> bool" where
  "holder_heads l \<longleftrightarrow> unlocked l \<or> (fqueue l \<noteq> [] \<and> hd (fqueue l) = sl_value l)"

lemma holder_heads_step: "holder_heads (snd s) \<Longrightarrow> holder_heads (snd (snd (fair_step e s)))"
proof -
  assume h: "holder_heads (snd s)"
  obtain d1 d2 oper where e: "e = (d1, d2, oper)" by (cases e)
  from h show ?thesis unfolding e holder_heads_def
    by (cases oper) (auto simp: fair_step_facts fair_defs Let_def)
qed

section \<open>The blocking \<open>Lock\<close>\<close>

text \<open>
  \<open>localFairLock.Lock\<close> (\<open>src/local_fair.go\<close>, lines 28-34): the retry loop over
  \<open>TryFairLockFair\<close>, each attempt with its own call of \<open>ApplyLockOptions\<close>.
\<close>

definition fair_attempt ::
    "'w go_rt \<Rightarrow> ('w \<Rightarrow> fair_lock) \<Rightarrow> (fair_lock \<Rightarrow> 'w \<Rightarrow> 'w) \<Rightarrow> LockOption list \<Rightarrow> 'w
       \<Rightarrow> (bool \<times> err option) \<times> 'w" where
  "fair_attempt rt get put opts w =
     (case rt_unique rt w of (uv, w1) \<Rightarrow>
        (case rt_now rt w1 of (t1, w2) \<Rightarrow>
           (case rt_now rt w2 of (t2, w3) \<Rightarrow>
              (case TryFairLockFair opts uv t1 t2 (get w3) of (r, l) \<Rightarrow> (r, put l w3)))))"

definition fair_Lock ::
    "'w go_rt \<Rightarrow> ('w \<Rightarrow> fair_lock) \<Rightarrow> (fair_lock \<Rightarrow> 'w \<Rightarrow> 'w) \<Rightarrow> string \<Rightarrow> LockOption list \<Rightarrow> 'w
       \<Rightarrow> (err option \<times> 'w) option" where
  "fair_Lock rt get put key opts w =
     (case rt_unique rt w of (uv, w1) \<Rightarrow>
        RetryLockOperation rt (NewRetryConfigFromLockOptions key opts uv)
          (fair_attempt rt get put opts) w1)"

abbreviation serial_value :: "nat \<Rightarrow> string" where
  "serial_value n \<equiv> generateUniqueValue ''host'' None (int n)"

lemma serial_value_inject: "serial_value m = serial_value n \<longleftrightarrow> m = n"
  by (simp add: generateUniqueValue_def dec_inject)

lemma fair_attempt_sim:
  "fair_attempt sim_rt sim_data sim_put opts w =
     (case TryFairLockFair opts (serial_value (sim_serial w)) (sim_clock w) (sim_clock w) (sim_data w) of
        (r, l) \<Rightarrow> (r, w\<lparr>sim_serial := Suc (sim_serial w), sim_data := l\<rparr>))"
  by (simp add: fair_attempt_def sim_rt_def split: prod.splits)

text \<open>
  The values of past attempts that the queue keeps: the next in line is one of them, so no
  attempt of the same caller matches it again.
\<close>

definition past_head :: "fair_lock sim \<Rightarrow> bool" where
  "past_head w \<longleftrightarrow> sim_cancel w = None \<and>
     (\<exists>n < sim_serial w.
        if unlocked (sim_data w) then fqueue (sim_data w) \<noteq> [] \<and> hd (fqueue (sim_data w)) = serial_value n
        else 2 \<le> length (fqueue (sim_data w)) \<and> hd (tl (fqueue (sim_data w))) = serial_value n)"

lemma past_head_runtime:
  "past_head w \<Longrightarrow> past_head (rt_sleep sim_rt d w)"
  "past_head w \<Longrightarrow> past_head (snd (rt_ctx sim_rt w))"
  "past_head w \<Longrightarrow> past_head (snd (rt_now sim_rt w))"
  "past_head w \<Longrightarrow> sim_cancel w = None"
proof -
  have same: "past_head w' = past_head w" if "sim_cancel w' = sim_cancel w"
    and "sim_serial w' = sim_serial w" and "sim_data w' = sim_data w" for w'
    using that by (simp only: past_head_def)
  assume w: "past_head w"
  show "sim_cancel w = None" using w by (simp only: past_head_def)
  show "past_head (rt_sleep sim_rt d w)" using w by (subst same) (simp_all add: sim_rt_simps)
  show "past_head (snd (rt_ctx sim_rt w))" using w by (simp add: sim_rt_def)
  show "past_head (snd (rt_now sim_rt w))" using w by (simp add: sim_rt_simps)
qed

lemma past_head_attempt:
  assumes "past_head w" and "\<And>opt c. opt \<in> set opts \<Longrightarrow> Value (opt c) = Value c"
  shows "\<not> fst (fst (lock_oper (fair_attempt sim_rt sim_data sim_put opts) w)) \<and>
         past_head (snd (lock_oper (fair_attempt sim_rt sim_data sim_put opts) w))"
proof -
  have v: "Value (ApplyLockOptions opts uv) = uv" for uv by (rule Apply_Value_frame) (rule assms(2))
  obtain n where n: "n < sim_serial w" and cancel: "sim_cancel w = None"
    and h: "if unlocked (sim_data w) then fqueue (sim_data w) \<noteq> [] \<and> hd (fqueue (sim_data w)) = serial_value n
      else 2 \<le> length (fqueue (sim_data w)) \<and> hd (tl (fqueue (sim_data w))) = serial_value n"
    using assms(1) by (auto simp: past_head_def)
  let ?q = "fqueue (sim_data w)" and ?v = "serial_value (sim_serial w)"
  have ne: "serial_value n \<noteq> ?v" using n by (simp add: serial_value_inject)
  have two: "tl ?q \<noteq> []" "?q \<noteq> []" if "2 \<le> length ?q"
    using that by (cases ?q; cases "tl ?q"; simp)+
  define r where "r = TryFairLockFair opts ?v (sim_clock w) (sim_clock w) (sim_data w)"
  have "fst (fst r) = False \<and>
      (if unlocked (snd r) then fqueue (snd r) \<noteq> [] \<and> hd (fqueue (snd r)) = serial_value n
       else 2 \<le> length (fqueue (snd r)) \<and> hd (tl (fqueue (snd r))) = serial_value n)"
    using h ne two unfolding r_def by (auto simp: TryFairLockFair_def drop_head_def Let_def v)
  then show ?thesis
    using n cancel by (auto simp: lock_oper_def fair_attempt_sim r_def [symmetric] past_head_def
        split: prod.splits intro!: exI [of _ n])
qed

lemma fair_attempt_no_error:
  "lock_oper (fair_attempt sim_rt sim_data sim_put opts) w = ((s, r, e), w') \<Longrightarrow> e = None"
  by (auto simp: lock_oper_def fair_attempt_sim TryFairLockFair_def Let_def split: prod.splits if_splits)

lemma fair_attempt_clock:
  "sim_clock w \<le> sim_clock (snd (lock_oper (fair_attempt sim_rt sim_data sim_put opts) w))"
  by (auto simp: lock_oper_def fair_attempt_sim split: prod.splits)

section \<open>Properties\<close>

text \<open>
  C12: first come, first served. While an entry \<open>u\<close> waits in the queue behind the entries
  \<open>xs\<close>, nobody overtakes it: along every run of operations in which \<open>u\<close> itself is not
  requested again and after which \<open>u\<close> is still queued, every grant went to a value of \<open>xs\<close>.
\<close>
theorem fair_no_overtaking:
  assumes "fq s = xs @ u # ys" and "u \<notin> set xs" and "u \<notin> set ys"
    and "\<forall>e\<in>set evs. requests e \<noteq> Some u"
    and "run fair_step evs s = (rs, s')" and "u \<in> set (fq s')"
  shows "\<forall>(e, r) \<in> set (zip evs rs). sl_granted e r \<longrightarrow> (\<exists>v\<in>set xs. requests e = Some v)"
  using fifo [OF assms(1-4)] assms(5,6) by simp

theorem fair_no_overtaking_witness:
  "list_all (\<lambda>(e, r). if sl_granted e r then requests e = Some ''a'' \<or> requests e = Some ''b'' else True)
     (zip [(0, 0, UnlockOp), (0, 0, TryLockOp [] ''c''), (0, 0, TryLockOp [] ''b'')]
        [ErrRes None, BoolRes False None, BoolRes True None])"
proof -
  let ?l = "\<lparr>sl_key = ''k'', sl_value = ''a'', sl_data = \<lparr>queue = [''a'', ''b'', ''u'']\<rparr>,
      unlocked = False, sl_ttl = 100, expireAt = 100, refCount = 1, sl_shard = Some 0\<rparr> :: fair_lock"
  let ?evs = "[(0, 0, UnlockOp), (0, 0, TryLockOp [] ''c''), (0, 0, TryLockOp [] ''b'')] :: sl_op timed list"
  note eval = fair_step_facts fair_defs fq_def Let_def
  have r: "run fair_step ?evs (0, ?l) =
      ([ErrRes None, BoolRes False None, BoolRes True None], snd (run fair_step ?evs (0, ?l)))"
    by (simp add: eval)
  have "\<forall>(e, r) \<in> set (zip ?evs [ErrRes None, BoolRes False None, BoolRes True None]).
     sl_granted e r \<longrightarrow> (\<exists>v\<in>set [''a'', ''b'']. requests e = Some v)"
    by (rule fair_no_overtaking [of "(0, ?l)" "[''a'', ''b'']" "''u''" "[]", OF _ _ _ _ r])
      (simp_all add: eval)
  then show ?thesis unfolding list_all_iff by auto
qed

text \<open>
  C11: exclusion and the holder's place. While a lease of the fair lock runs and is neither
  released nor shortened, no request is granted and the lease stands, along every run, whatever is queued. And, on every
  run at all, if the lock is free or its holder stands at the head of the queue before the run, so it
  is after it; in particular the holder of a lease that has run on is then still at the head.
\<close>
theorem fair_lease_excludes:
  assumes "run fair_step evs s = (rs, s')"
  shows "(sl_lease s = Some (v, E) \<and> along (\<lambda>ev s. \<not> sl_yields ev s) fair_step evs s \<and> fst s' \<le> E \<longrightarrow>
      (\<forall>(ev, r) \<in> set (zip evs rs). \<not> sl_granted ev r) \<and> (\<exists>E'\<ge>E. sl_lease s' = Some (v, E')) \<and>
      (hd (fq s) = v \<and> fq s \<noteq> [] \<longrightarrow> hd (fq s') = v)) \<and>
    (unlocked (snd s) \<or> fq s \<noteq> [] \<and> hd (fq s) = sl_value (snd s) \<longrightarrow>
      unlocked (snd s') \<or> fq s' \<noteq> [] \<and> hd (fq s') = sl_value (snd s'))"
proof -
  from assms have rs: "rs = fst (run fair_step evs s)" and s': "s' = snd (run fair_step evs s)"
    by simp_all
  have heads: "holder_heads (snd s')" if "holder_heads (snd s)"
    unfolding s' by (rule run_invariant [where P = "\<lambda>s. holder_heads (snd s)", OF holder_heads_step that])
  have x: "(\<forall>(ev, r) \<in> set (zip evs rs). \<not> sl_granted ev r) \<and> (\<exists>E'\<ge>E. sl_lease s' = Some (v, E'))"
    if "sl_lease s = Some (v, E)" "along (\<lambda>ev s. \<not> sl_yields ev s) fair_step evs s" "fst s' \<le> E"
    using fair.exclusion [of s v E evs] that unfolding rs s' by blast
  have y: "hd (fq s') = v"
    if "sl_lease s = Some (v, E)" "sl_lease s' = Some (v, E')" "hd (fq s) = v" "fq s \<noteq> []" for E'
  proof -
    have "holder_heads (snd s)" using that by (simp add: holder_heads_def fq_def sl_lease_def split: if_splits)
    from heads [OF this] that(2) show ?thesis
      by (simp add: holder_heads_def fq_def sl_lease_def split: if_splits)
  qed
  show ?thesis
  proof (intro conjI impI)
    assume l: "sl_lease s = Some (v, E) \<and> along (\<lambda>ev s. \<not> sl_yields ev s) fair_step evs s \<and> fst s' \<le> E"
    note x = x [OF l [THEN conjunct1] l [THEN conjunct2, THEN conjunct1] l [THEN conjunct2, THEN conjunct2]]
    show "\<forall>(ev, r) \<in> set (zip evs rs). \<not> sl_granted ev r" using x by (rule conjunct1)
    show "\<exists>E'\<ge>E. sl_lease s' = Some (v, E')" using x by (rule conjunct2)
    show "hd (fq s') = v" if "hd (fq s) = v \<and> fq s \<noteq> []"
      using x y [OF l [THEN conjunct1]] that by blast
  next
    assume "unlocked (snd s) \<or> fq s \<noteq> [] \<and> hd (fq s) = sl_value (snd s)"
    then show "unlocked (snd s') \<or> fq s' \<noteq> [] \<and> hd (fq s') = sl_value (snd s')"
      using heads by (simp add: holder_heads_def fq_def)
  qed
qed

theorem fair_lease_excludes_witness:
  "list_all (\<lambda>(ev, r). \<not> sl_granted ev r) (zip [(5, 1, TryLockOp [] ''b'')] [BoolRes False None])"
proof -
  let ?l = "\<lparr>sl_key = ''k'', sl_value = ''a'', sl_data = \<lparr>queue = [''a'']\<rparr>,
      unlocked = False, sl_ttl = 100, expireAt = 100, refCount = 1, sl_shard = Some 0\<rparr> :: fair_lock"
  let ?evs = "[(5, 1, TryLockOp [] ''b'')] :: sl_op timed list"
  note eval = fair_step_facts fair_defs fq_def Let_def sl_lease_def holder_heads_def time_after_def
  have r: "run fair_step ?evs (0, ?l) = ([BoolRes False None], snd (run fair_step ?evs (0, ?l)))"
    by (simp add: eval)
  have t: "fst (snd (run fair_step ?evs (0, ?l))) \<le> 100" by (simp add: eval)
  have "sl_lease (0, ?l) = Some (''a'', 100)" by (simp add: eval)
  with fair_lease_excludes [OF r, of "''a''" 100] t show ?thesis by (simp add: eval)
qed

text \<open>
  an abandoned entry blocks the lock for ever. The lock is held by \<open>a\<close>, alone in the
  queue; a request with value \<open>b\<close> is refused and queued; the holder releases. If nobody ever
  requests the lock with the value \<open>b\<close> again (a caller that gave up, or one that, with the
  default options, draws a new value for every attempt), no request whatsoever is granted from
  then on, however long anyone waits: the lock is free, but the queue never moves.
\<close>
theorem abandoned_entry_blocks:
  assumes "\<not> unlocked l" and "fqueue l = [a]" and "t1 \<le> expireAt l"
    and "b = Value (ApplyLockOptions opts uv)"
    and "TryFairLockFair opts uv t1 t2 l = (r1, l1)" and "UnlockFairFair t3 l1 = (r2, l2)"
    and "\<forall>e\<in>set evs. requests e \<noteq> Some b"
  shows "r1 = (False, None) \<and> r2 = None \<and> unlocked l2 \<and>
    (\<forall>(e, r) \<in> set (zip evs (fst (run fair_step evs (t3, l2)))). \<not> sl_granted e r) \<and>
    unlocked (snd (snd (run fair_step evs (t3, l2))))"
proof -
  have l1: "r1 = (False, None)" "l1 = set_queue [a, b] l"
    using assms(1-5) by (auto simp: TryFairLockFair_def time_after_def Let_def)
  have l2: "r2 = None" "stuck b l2"
    using l1(2) assms(1,6) by (auto simp: UnlockFairFair_def drop_head_def stuck_def)
  have "stuck b (snd (t3, l2))" using l2(2) by simp
  from stuck_run [OF this assms(7)] l1(1) l2 show ?thesis by (simp add: stuck_def)
qed

theorem abandoned_entry_blocks_witness:
  "\<not> sl_granted (7, 0, TryLockOp [] ''c'') (BoolRes False None) \<and>
   fst (run fair_step [(7, 0, TryLockOp [] ''c'')]
     (20, \<lparr>sl_key = ''k'', sl_value = ''a'', sl_data = \<lparr>queue = [''b'']\<rparr>, unlocked = True,
       sl_ttl = 100, expireAt = 100, refCount = 1, sl_shard = Some 0\<rparr>)) = [BoolRes False None]"
proof -
  let ?l = "\<lparr>sl_key = ''k'', sl_value = ''a'', sl_data = \<lparr>queue = [''a'']\<rparr>,
      unlocked = False, sl_ttl = 100, expireAt = 100, refCount = 1, sl_shard = Some 0\<rparr> :: fair_lock"
  have refused: "TryFairLockFair [] ''b'' 10 10 ?l = ((False, None), set_queue [''a'', ''b''] ?l)"
    by (simp add: TryFairLockFair_def time_after_def Let_def)
  have unl: "UnlockFairFair 20 (set_queue [''a'', ''b''] ?l) =
      (None, set_queue [''b''] (?l\<lparr>unlocked := True\<rparr>))"
    by (simp add: UnlockFairFair_def drop_head_def)
  from abandoned_entry_blocks [OF _ _ _ _ refused unl, where a = "''a''" and b = "''b''" and
      evs = "[(7, 0, TryLockOp [] ''c'')]"]
  show ?thesis by (simp add: fair_step_facts fair_defs Let_def)
qed

text \<open>
  C36: a blocking \<open>Lock\<close> with the default value never gets a fair lock it has to wait for.
  A goroutine that runs alone, with options that set no value, a positive retry interval and a
  context that is not cancelled, calls \<open>Lock\<close> on a fair lock that is held (the holder alone in
  the queue, the lease still running): the call ends with an acquire timeout, however long the
  timeout is and however soon the lease expires. Each attempt queues a new value, and the next
  attempt no longer matches it.
\<close>
theorem fair_Lock_default_value_starves:
  assumes "\<And>opt c. opt \<in> set opts \<Longrightarrow> Value (opt c) = Value c"
    and "cfg = NewRetryConfigFromLockOptions key opts (fst (rt_unique sim_rt w))"
    and "0 < sint (Interval cfg)" and "sim_cancel w = None"
    and "\<not> unlocked (sim_data w)" and "fqueue (sim_data w) = [a]"
    and "sim_clock w \<le> expireAt (sim_data w)"
  shows "\<exists>e w'. fair_Lock sim_rt sim_data sim_put key opts w = Some (Some e, w') \<and>
      IsErrorCode (Some e) ErrCodeAcquireTimeout"
proof -
  let ?oper = "lock_oper (fair_attempt sim_rt sim_data sim_put opts)"
  let ?w1 = "snd (rt_unique sim_rt w)" and ?dl = "sim_clock w + sint (Timeout cfg)"
  have v: "Value (ApplyLockOptions opts uv) = uv" for uv by (rule Apply_Value_frame) (rule assms(1))
  have w1: "rt_now sim_rt ?w1 = (sim_clock w, ?w1)" "rt_ctx sim_rt ?w1 = (None, ?w1)"
    using assms(4) by (simp_all add: sim_rt_def)
  obtain res er w' where out: "retry_loop sim_rt cfg False ?oper ?dl ?w1 = Some ((res, er), w')"
    using alone.loop_returns [where oper = ?oper, OF assms(3) fair_attempt_clock, of False ?dl ?w1]
    by auto
  have "er \<noteq> None \<and> sim_cancel w' = None"
  proof (cases "time_after (sim_clock w) ?dl")
    case True
    with out w1 assms(4) show ?thesis by (subst (asm) retry_loop.simps) (auto simp: sim_rt_def)
  next
    case False
    define w2 where "w2 = snd (?oper ?w1)"
    have first: "?oper ?w1 = ((False, False, None), w2)" "past_head w2"
      unfolding w2_def using assms(4-7)
      by (auto simp: lock_oper_def fair_attempt_sim TryFairLockFair_def time_after_def past_head_def
          sim_rt_simps Let_def v intro: exI [of _ "Suc (sim_serial w)"])
    from out w1 False first(1)
    have rest: "retry_loop sim_rt cfg False ?oper ?dl (rt_sleep sim_rt (Interval cfg) w2) = Some ((res, er), w')"
      by (subst (asm) retry_loop.simps) simp
    have keeps: "\<not> fst (fst (?oper w)) \<and> past_head (snd (?oper w))" if "past_head w" for w
      by (rule past_head_attempt [OF that]) (rule assms(1))
    have "snd (fst ((res, er), w')) \<noteq> None \<and> past_head (snd ((res, er), w'))"
      using rest past_head_runtime(1) [OF first(2)]
      by (rule retry_loop_never) (simp_all only: past_head_runtime keeps, simp)
    then show ?thesis using past_head_runtime(4) by simp
  qed
  then obtain e where e: "er = Some e" "sim_cancel w' = None" by blast
  have "\<exists>ts. e = NewAcquireTimeoutError (Key cfg) (Timeout cfg) ts"
    using retry_loop_outcome [OF out] e fair_attempt_no_error
    by (fastforce simp: retry_outcome_def sim_rt_def)
  moreover have "fair_Lock sim_rt sim_data sim_put key opts w = Some (Some e, w')"
    using out w1(1) e(1) unfolding fair_Lock_def RetryLockOperation_def RetryWithTimeout_def
    by (simp add: assms(2) time_add_def case_prod_beta)
  ultimately show ?thesis by (auto simp: inspect_defs)
qed

theorem fair_Lock_default_value_starves_witness:
  "\<exists>e w'. fair_Lock sim_rt sim_data sim_put ''k'' [WithAcquireTimeout Minute]
     \<lparr>sim_clock = 0, sim_cancel = None, sim_serial = 1,
      sim_data = \<lparr>sl_key = ''k'', sl_value = ''a'', sl_data = \<lparr>queue = [''a'']\<rparr>, unlocked = False,
        sl_ttl = Second, expireAt = 1000000000, refCount = 2, sl_shard = Some 0\<rparr>\<rparr> = Some (Some e, w') \<and>
     IsErrorCode (Some e) ErrCodeAcquireTimeout"
  by (rule fair_Lock_default_value_starves [OF _ refl])
    (auto simp: NewRetryConfigFromLockOptions_def Apply_RetryInterval Let_def WithAcquireTimeout_def
      default_config_def)

end
