(* ===== verification/ShardedManager.thy ===== *)
theory ShardedManager
  imports ShardedRW ShardedFair
begin

unbundle bit_operations_syntax

text \<open>
  \<open>src/sharded_lock.go\<close>, lines 11-25, 40-263 and 532-583: the manager of the in-process
  locks. Lock objects live in a heap (a list, an object's address is its index), because handles
  keep pointers to them: the maps of the shards and the object pools hold addresses. What the
  maps and pools do under \<open>shard.mu\<close> is one atomic step. \<open>sync.Pool.Get\<close> may return any
  pooled object or make a new one; the choice is a parameter \<open>pick\<close> (a position in the pool, or
  \<open>None\<close> for a new object). \<open>factory\<close> is the value the factory function returns.
\<close>

section \<open>Shards\<close>

record LockShard =
  locks :: "(string \<times> nat) list"
  pool :: "nat list"

record 'd manager =
  heap :: "'d ShardedLock list"
  shards :: "LockShard list"
  shardCount :: u32
  shardMask :: u32
  stopped :: bool

text \<open>\<open>fnv.New32a\<close>: the 32-bit FNV-1a hash of the bytes of the key.\<close>

definition fnv32a :: "string \<Rightarrow> u32" where
  "fnv32a key = foldl (\<lambda>h c. (h XOR of_nat (of_char c)) * 16777619) 2166136261 key"

definition getShardIndex :: "'d manager \<Rightarrow> string \<Rightarrow> u32" where
  "getShardIndex m key = fnv32a key AND shardMask m"

definition getShard :: "'d manager \<Rightarrow> string \<Rightarrow> nat" where
  "getShard m key = (let hash = fnv32a key; shardIndex = hash AND shardMask m in unat shardIndex)"

text \<open>The loop that doubles a \<open>uint32\<close> until it reaches the requested count.\<close>

partial_function (option) pow2_loop :: "u32 \<Rightarrow> u32 \<Rightarrow> u32 option" where
  "pow2_loop target actual =
     (if actual < target then pow2_loop target (push_bit 1 actual) else Some actual)"

definition NewShardedLockManager :: "i64 \<Rightarrow> 'd manager option" where
  "NewShardedLockManager count =
     (let shardCount = (if sint count \<le> 0 then DefaultShardCount else count)
      in map_option (\<lambda>actual.
           \<lparr>heap = [], shards = replicate (unat actual) \<lparr>locks = [], pool = []\<rparr>,
            shardCount = actual, shardMask = actual - 1, stopped = False\<rparr>)
         (pow2_loop (ucast shardCount) 1))"

definition upd_lock :: "nat \<Rightarrow> ('d ShardedLock \<Rightarrow> 'd ShardedLock) \<Rightarrow> 'd manager \<Rightarrow> 'd manager" where
  "upd_lock p f m = m\<lparr>heap := (heap m)[p := f (heap m ! p)]\<rparr>"

definition upd_shard :: "nat \<Rightarrow> (LockShard \<Rightarrow> LockShard) \<Rightarrow> 'd manager \<Rightarrow> 'd manager" where
  "upd_shard i f m = m\<lparr>shards := (shards m)[i := f (shards m ! i)]\<rparr>"

definition new_object :: "'d \<Rightarrow> 'd ShardedLock" where
  "new_object factory = \<lparr>sl_key = '''', sl_value = '''', sl_data = factory, unlocked = True,
     sl_ttl = 0, expireAt = zero_time, refCount = 0, sl_shard = None\<rparr>"

definition pool_get :: "'d \<Rightarrow> nat option \<Rightarrow> nat \<Rightarrow> 'd manager \<Rightarrow> nat \<times> 'd manager" where
  "pool_get factory pick i m =
     (case pick of
        Some j \<Rightarrow>
          if j < length (pool (shards m ! i))
          then (pool (shards m ! i) ! j,
                upd_shard i (\<lambda>sh. sh\<lparr>pool := take j (pool sh) @ drop (Suc j) (pool sh)\<rparr>) m)
          else (length (heap m), m\<lparr>heap := heap m @ [new_object factory]\<rparr>)
      | None \<Rightarrow> (length (heap m), m\<lparr>heap := heap m @ [new_object factory]\<rparr>))"

definition GetLock :: "'d \<Rightarrow> nat option \<Rightarrow> string \<Rightarrow> 'd manager \<Rightarrow> nat \<times> 'd manager" where
  "GetLock factory pick key m =
     (let i = getShard m key
      in case map_of (locks (shards m ! i)) key of
           Some p \<Rightarrow> (p, upd_lock p (\<lambda>l. l\<lparr>refCount := refCount l + 1\<rparr>) m)
         | None \<Rightarrow>
             (let (p, m1) = pool_get factory pick i m
              in (p, upd_shard i (\<lambda>sh. sh\<lparr>locks := AList.update key p (locks sh)\<rparr>)
                      (upd_lock p (\<lambda>l. l\<lparr>sl_key := key, unlocked := True, refCount := 1,
                                          sl_shard := Some i\<rparr>) m1))))"

text \<open>
  Removing an object from its shard: deleted from the map under its key, reset (its data is
  not touched) and put into the pool.
\<close>

definition reset_object :: "'d ShardedLock \<Rightarrow> 'd ShardedLock" where
  "reset_object l = l\<lparr>sl_key := '''', sl_value := '''', unlocked := True, sl_ttl := 0,
     expireAt := zero_time, refCount := 0, sl_shard := None\<rparr>"

definition unregister :: "nat \<Rightarrow> nat \<Rightarrow> 'd manager \<Rightarrow> 'd manager" where
  "unregister i p m =
     upd_shard i (\<lambda>sh. sh\<lparr>pool := pool sh @ [p]\<rparr>)
       (upd_lock p reset_object
         (upd_shard i (\<lambda>sh. sh\<lparr>locks := AList.delete (sl_key (heap m ! p)) (locks sh)\<rparr>) m))"

text \<open>
  \<open>cleanupLock\<close> reads \<open>lock.shard\<close> before it takes \<open>shard.mu\<close>: \<open>cleanup_locked\<close> is what it
  does under the mutex, with the shard it has read; \<open>cleanupLock\<close> is the two without
  interference in between.
\<close>

definition cleanup_locked :: "nat \<Rightarrow> nat \<Rightarrow> 'd manager \<Rightarrow> 'd manager" where
  "cleanup_locked i p m = (if 0 < sint (refCount (heap m ! p)) then m else unregister i p m)"

definition cleanupLock :: "nat \<Rightarrow> 'd manager \<Rightarrow> 'd manager" where
  "cleanupLock p m =
     (case sl_shard (heap m ! p) of None \<Rightarrow> m | Some i \<Rightarrow> cleanup_locked i p m)"

text \<open>The two atomic steps of \<open>ReleaseLock\<close>: the decrement, and the cleanup it may lead to.\<close>

definition decRef :: "nat \<Rightarrow> 'd manager \<Rightarrow> 'd manager" where
  "decRef p m = upd_lock p (\<lambda>l. l\<lparr>refCount := refCount l - 1\<rparr>) m"

definition ReleaseLock :: "nat \<Rightarrow> 'd manager \<Rightarrow> 'd manager" where
  "ReleaseLock p m =
     (let m1 = decRef p m
      in if sint (refCount (heap m1 ! p)) \<le> 0 then cleanupLock p m1 else m1)"

text \<open>The body of the loop of \<open>performCleanup\<close>, for one shard.\<close>

definition evictable :: "gotime \<Rightarrow> 'd ShardedLock \<Rightarrow> bool" where
  "evictable now l \<longleftrightarrow> (unlocked l \<or> time_after now (expireAt l)) \<and> sint (refCount l) \<le> 1"

definition cleanupShard :: "gotime \<Rightarrow> nat \<Rightarrow> 'd manager \<Rightarrow> 'd manager" where
  "cleanupShard now i m =
     (let toCleanup = filter (\<lambda>p. evictable now (heap m ! p)) (map snd (locks (shards m ! i)))
      in foldl (\<lambda>m p. unregister i p m) m toCleanup)"

definition performCleanup :: "gotime \<Rightarrow> 'd manager \<Rightarrow> 'd manager" where
  "performCleanup now m = foldl (\<lambda>m i. cleanupShard now i m) m [0..<length (shards m)]"

text \<open>
  \<open>Close\<close> closes \<open>cleanupStop\<close>, which ends the background loop; closing a closed channel
  panics (\<open>None\<close>).
\<close>

definition Manager_Close :: "'d manager \<Rightarrow> 'd manager option" where
  "Manager_Close m = (if stopped m then None else Some (m\<lparr>stopped := True\<rparr>))"

text \<open>One tick of the background loop: it cleans up unless it has been stopped.\<close>

definition cleanup_tick :: "gotime \<Rightarrow> 'd manager \<Rightarrow> 'd manager" where
  "cleanup_tick now m = (if stopped m then m else performCleanup now m)"

record ShardedLockStats =
  stats_ShardCount :: nat
  stats_TotalLocks :: nat
  stats_Shards :: "nat list"

definition Manager_GetStats :: "'d manager \<Rightarrow> ShardedLockStats" where
  "Manager_GetStats m =
     \<lparr>stats_ShardCount = unat (shardCount m),
      stats_TotalLocks = foldl (\<lambda>n sh. n + length (locks sh)) 0 (shards m),
      stats_Shards = map (\<lambda>sh. length (locks sh)) (shards m)\<rparr>"

lemmas heap_defs = upd_lock_def upd_shard_def

text \<open>
  The three process-wide managers (lines 532-583). \<open>initOnce\<close> makes the first call decide;
  \<open>None\<close> in \<open>managers\<close> is a process that has not initialised them yet. The outer \<open>None\<close> is a
  constructor that does not return.
\<close>

record globals =
  managers :: "(unit manager \<times> RWLockData manager \<times> FairLockData manager) option"

definition initGlobalManagers :: "i64 \<Rightarrow> globals \<Rightarrow> globals option" where
  "initGlobalManagers count g =
     (case managers g of
        Some ms \<Rightarrow> Some g
      | None \<Rightarrow>
          (case (NewShardedLockManager count, NewShardedLockManager count, NewShardedLockManager count) of
             (Some s, Some r, Some f) \<Rightarrow> Some (g\<lparr>managers := Some (s, r, f)\<rparr>)
           | _ \<Rightarrow> None))"

definition GetGlobalSimpleLockManager :: "i64 \<Rightarrow> globals \<Rightarrow> (unit manager \<times> globals) option" where
  "GetGlobalSimpleLockManager count g =
     map_option (\<lambda>g'. (fst (the (managers g')), g')) (initGlobalManagers count g)"

definition GetGlobalRWLockManager :: "i64 \<Rightarrow> globals \<Rightarrow> (RWLockData manager \<times> globals) option" where
  "GetGlobalRWLockManager count g =
     map_option (\<lambda>g'. (fst (snd (the (managers g'))), g')) (initGlobalManagers count g)"

definition GetGlobalFairLockManager :: "i64 \<Rightarrow> globals \<Rightarrow> (FairLockData manager \<times> globals) option" where
  "GetGlobalFairLockManager count g =
     map_option (\<lambda>g'. (snd (snd (the (managers g'))), g')) (initGlobalManagers count g)"

section \<open>The number of shards\<close>

lemma pow2_loop_result:
  assumes "pow2_loop target a = Some r" and "a = 0 \<or> (\<exists>k<32. a = 2 ^ k)"
  shows "target \<le> r \<and> (r = 0 \<or> (\<exists>k<32. r = 2 ^ k))"
  using assms
proof (rule pow2_loop.raw_induct
    [where P = "\<lambda>target a r. a = 0 \<or> (\<exists>k<32. a = 2 ^ k) \<longrightarrow>
       target \<le> r \<and> (r = 0 \<or> (\<exists>k<32. r = 2 ^ k))", rule_format, rotated])
  fix f :: "u32 \<Rightarrow> u32 \<Rightarrow> u32 option" and target a r :: u32
  assume IH: "\<And>target a r. f target a = Some r \<Longrightarrow> a = 0 \<or> (\<exists>k<32. a = 2 ^ k) \<Longrightarrow>
      target \<le> r \<and> (r = 0 \<or> (\<exists>k<32. r = 2 ^ k))"
    and step: "(if a < target then f target (push_bit 1 a) else Some a) = Some r"
    and a: "a = 0 \<or> (\<exists>k<32. a = 2 ^ k)"
  have "push_bit 1 a = 0 \<or> (\<exists>k<32. push_bit 1 a = 2 ^ k)"
  proof -
    have "push_bit 1 (2 ^ k :: u32) = 2 ^ Suc k" for k
      by (simp add: push_bit_eq_mult mult.commute)
    moreover have "(2 ^ 32 :: u32) = 0" by simp
    ultimately show ?thesis using a by (metis Suc_leI le_neq_implies_less push_bit_of_0)
  qed
  with IH step a show "target \<le> r \<and> (r = 0 \<or> (\<exists>k<32. r = 2 ^ k))"
    by (cases "a < target") auto
qed


lemma unat_two_power_u32: "k < 32 \<Longrightarrow> unat (2 ^ k :: u32) = 2 ^ k"
proof (induction k)
  case (Suc k)
  then have "unat (2 ^ k :: u32) * 2 < 2 ^ 32"
    using power_increasing [of "Suc k" 31 "2 :: nat"] by simp
  with Suc show ?case by (simp add: unat_word_ariths)
qed simp

lemma pow2_loop_returns:
  assumes "k < 32" and "unat target \<le> 2 ^ 31" and "k = 0 \<or> 2 ^ (k - 1) < unat target"
  shows "\<exists>j<32. pow2_loop target (2 ^ k) = Some (2 ^ j) \<and> unat target \<le> 2 ^ j \<and>
           (j = 0 \<or> 2 ^ (j - 1) < unat target)"
  using assms(1,3)
proof (induction "31 - k" arbitrary: k)
  case 0
  then have "k = 31" by simp
  with assms(2) show ?case
    using 0 by (subst pow2_loop.simps) (auto simp: word_less_nat_alt intro!: exI [of _ "31 :: nat"])
next
  case (Suc n)
  show ?case
  proof (cases "(2 ^ k :: u32) < target")
    case True
    then have "2 ^ k < unat target" using Suc.prems by (simp add: word_less_nat_alt unat_two_power_u32)
    moreover have "push_bit 1 (2 ^ k :: u32) = 2 ^ Suc k" by (simp add: push_bit_eq_mult mult.commute)
    ultimately show ?thesis
      using Suc.hyps(1) [of "Suc k"] Suc.hyps(2) True
      by (subst pow2_loop.simps) (simp add: mult.commute)
  next
    case False
    then show ?thesis using Suc.prems
      by (subst pow2_loop.simps) (auto simp: word_less_nat_alt unat_two_power_u32 not_less intro!: exI [of _ k])
  qed
qed


lemma uint_ucast_count:
  "uint (ucast (count :: i64) :: u32) = sint count mod 2 ^ 32"
proof -
  have "uint (ucast count :: u32) = take_bit 32 (uint count)"
    by (simp add: unsigned_ucast_eq)
  also have "\<dots> = take_bit 32 (take_bit 64 (sint count))"
    by (simp only: uint_sint) simp
  finally show ?thesis by (simp only: take_bit_take_bit) (simp add: take_bit_eq_mod)
qed

lemma and_mask_u32: "j < 32 \<Longrightarrow> unat (h AND (2 ^ j - 1) :: u32) = unat h mod 2 ^ j"
  by (simp only: mask_eq_exp_minus_1 [symmetric] take_bit_eq_mask [symmetric] unsigned_take_bit_eq)
     (simp add: take_bit_eq_mod)

lemma pow2_loop_spec:
  "if unat c \<le> 2 ^ 31
   then \<exists>j<32. pow2_loop c 1 = Some (2 ^ j) \<and> unat c \<le> 2 ^ j \<and> (j = 0 \<or> 2 ^ (j - 1) < unat c)
   else pow2_loop c 1 = None"
proof (cases "unat c \<le> 2 ^ 31")
  case True
  with pow2_loop_returns [of 0 c] show ?thesis by simp
next
  case c: False
  have "pow2_loop c 1 = None"
  proof (rule ccontr)
    assume "pow2_loop c 1 \<noteq> None"
    then obtain r where r: "pow2_loop c 1 = Some r" by auto
    have "\<exists>k<32. (1 :: u32) = 2 ^ k" by (rule exI [of _ 0]) simp
    with pow2_loop_result [OF r] have "c \<le> r" "r = 0 \<or> (\<exists>k<32. r = 2 ^ k)"
      by blast+
    then consider "c \<le> 0" | k where "k < 32" "c \<le> 2 ^ k" by auto
    then have "unat c \<le> 2 ^ 31"
    proof cases
      case (2 k)
      then have "unat c \<le> 2 ^ k" by (simp only: word_le_nat_alt unat_two_power_u32)
      also have "\<dots> \<le> 2 ^ 31" using 2 by (intro power_increasing) auto
      finally show ?thesis .
    qed simp
    with c show False by simp
  qed
  with c show ?thesis by simp
qed

lemma NewShardedLockManager_form:
  assumes "NewShardedLockManager count = Some m"
  shows "\<exists>j<32. m = \<lparr>heap = [], shards = replicate (2 ^ j) \<lparr>locks = [], pool = []\<rparr>,
            shardCount = 2 ^ j, shardMask = 2 ^ j - 1, stopped = False\<rparr>"
  using assms pow2_loop_spec [of "ucast (if sint count \<le> 0 then DefaultShardCount else count)"]
  by (auto simp: NewShardedLockManager_def Let_def unat_two_power_u32 split: if_splits)

text \<open>
  C37: the number of shards. For a request (32 when it is not positive, converted to
  \<open>uint32\<close>) of at most \<open>2 ^ 31\<close> shards the constructor returns, with the least power of two
  that is not below the request, and the index of every key is its hash modulo the number of
  shards, below that number. For a larger request the doubling loop never ends: the \<open>uint32\<close>
  counter wraps to 0.
\<close>
theorem NewShardedLockManager_shards:
  "let req = (if sint count \<le> 0 then 32 else sint count) mod 2 ^ 32 in
   if req \<le> 2 ^ 31
   then (\<exists>m j. NewShardedLockManager count = Some m \<and> unat (shardCount m) = 2 ^ j \<and> req \<le> 2 ^ j \<and>
           (j = 0 \<or> 2 ^ (j - 1) < req) \<and> length (shards m) = 2 ^ j \<and>
           (\<forall>key. getShard m key = unat (fnv32a key) mod 2 ^ j \<and> getShard m key < length (shards m) \<and>
                  unat (getShardIndex m key) = getShard m key))
   else NewShardedLockManager count = None" (is "let req = ?r in ?P req")
proof -
  define c :: u32 where "c = ucast (if sint count \<le> 0 then DefaultShardCount else count)"
  define req where "req = (if sint count \<le> 0 then 32 else sint count) mod 2 ^ 32"
  have req: "int (unat c) = req"
    using uint_ucast_count [of count] uint_ucast_count [of DefaultShardCount]
    by (auto simp: c_def req_def DefaultShardCount_def)
  have small: "unat c \<le> 2 ^ 31 \<longleftrightarrow> req \<le> 2 ^ 31"
    using of_nat_le_iff [of "unat c" "2 ^ 31", where 'a = int] by (simp add: req [symmetric])
  have "?P req"
  proof (cases "req \<le> 2 ^ 31")
    case True
    with pow2_loop_spec [of c] small obtain j where
      j: "j < 32" "pow2_loop c 1 = Some (2 ^ j)" "unat c \<le> 2 ^ j" "j = 0 \<or> 2 ^ (j - 1) < unat c"
      by auto
    have "req \<le> 2 ^ j" "j = 0 \<or> 2 ^ (j - 1) < req"
      using of_nat_le_iff [of "unat c" "2 ^ j", where 'a = int] j(3,4)
        of_nat_less_iff [of "2 ^ (j - 1)" "unat c", where 'a = int]
      by (simp_all only: req of_nat_power of_nat_numeral)
    then show ?thesis
      using True j(1,2) by (auto simp: NewShardedLockManager_def Let_def c_def [symmetric] getShard_def
          getShardIndex_def and_mask_u32 unat_two_power_u32 intro!: exI [of _ j])
  next
    case False
    with pow2_loop_spec [of c] small have "pow2_loop c 1 = None" by simp
    then show ?thesis
      using False by (simp add: NewShardedLockManager_def Let_def c_def [symmetric])
  qed
  then show ?thesis by (simp only: Let_def req_def)
qed

section \<open>The invariant of the manager\<close>

text \<open>
  \<open>lookup\<close> is the abstract view of the manager: a map from keys to objects. \<open>wf_shard\<close> and
  \<open>wf_mgr\<close> say that the view and the fields of the objects agree: an object is registered under
  its own key, in the shard of that key, and exactly then its \<open>shard\<close> field is set; pooled
  objects are registered nowhere and pooled once.
\<close>

definition lookup :: "'d manager \<Rightarrow> string \<Rightarrow> nat option" where
  "lookup m key = map_of (locks (shards m ! getShard m key)) key"

definition wf_shape :: "'d manager \<Rightarrow> bool" where
  "wf_shape m \<longleftrightarrow> (\<exists>k<32. shardMask m = 2 ^ k - 1 \<and> shardCount m = 2 ^ k \<and> length (shards m) = 2 ^ k)"

definition wf_shard :: "'d manager \<Rightarrow> nat \<Rightarrow> LockShard \<Rightarrow> bool" where
  "wf_shard m i sh \<longleftrightarrow> wf_map (locks sh) \<and> distinct (pool sh) \<and>
     (\<forall>p\<in>set (pool sh). p < length (heap m) \<and> sl_shard (heap m ! p) = None) \<and>
     (\<forall>key p. map_of (locks sh) key = Some p \<longrightarrow>
        p < length (heap m) \<and> sl_key (heap m ! p) = key \<and> sl_shard (heap m ! p) = Some i \<and>
        getShard m key = i)"

definition wf_mgr :: "'d manager \<Rightarrow> bool" where
  "wf_mgr m \<longleftrightarrow> wf_shape m \<and> (\<forall>i<length (shards m). wf_shard m i (shards m ! i)) \<and>
     (\<forall>p<length (heap m). \<forall>i. sl_shard (heap m ! p) = Some i \<longrightarrow>
        i < length (shards m) \<and> map_of (locks (shards m ! i)) (sl_key (heap m ! p)) = Some p) \<and>
     (\<forall>i<length (shards m). \<forall>j<length (shards m). i \<noteq> j \<longrightarrow>
        set (pool (shards m ! i)) \<inter> set (pool (shards m ! j)) = {})"

lemma getShard_less: "wf_shape m \<Longrightarrow> getShard m key < length (shards m)"
  by (auto simp: wf_shape_def getShard_def Let_def and_mask_u32)

lemma wf_mgr_shape: "wf_mgr m \<Longrightarrow> wf_shape m"
  by (simp add: wf_mgr_def)

lemma getShard_cong: "shardMask m' = shardMask m \<Longrightarrow> getShard m' key = getShard m key"
  by (simp add: getShard_def)

lemma wf_shape_cong:
  "shardMask m' = shardMask m \<Longrightarrow> shardCount m' = shardCount m \<Longrightarrow>
   length (shards m') = length (shards m) \<Longrightarrow> wf_shape m' = wf_shape m"
  by (simp add: wf_shape_def)

lemma wf_mgrD:
  assumes "wf_mgr m"
  shows wf_mgr_registered: "i < length (shards m) \<Longrightarrow> map_of (locks (shards m ! i)) key = Some p \<Longrightarrow>
      p < length (heap m) \<and> sl_key (heap m ! p) = key \<and> sl_shard (heap m ! p) = Some i \<and> getShard m key = i"
    and wf_mgr_pooled: "i < length (shards m) \<Longrightarrow> p \<in> set (pool (shards m ! i)) \<Longrightarrow>
      p < length (heap m) \<and> sl_shard (heap m ! p) = None"
    and wf_mgr_object: "p < length (heap m) \<Longrightarrow> sl_shard (heap m ! p) = Some i \<Longrightarrow>
      i < length (shards m) \<and> map_of (locks (shards m ! i)) (sl_key (heap m ! p)) = Some p"
    and wf_mgr_wf_map: "i < length (shards m) \<Longrightarrow> wf_map (locks (shards m ! i))"
    and wf_mgr_distinct: "i < length (shards m) \<Longrightarrow> distinct (pool (shards m ! i))"
    and wf_mgr_disjoint: "i < length (shards m) \<Longrightarrow> j < length (shards m) \<Longrightarrow>
      p \<in> set (pool (shards m ! i)) \<Longrightarrow> p \<in> set (pool (shards m ! j)) \<Longrightarrow> i = j"
  using assms unfolding wf_mgr_def wf_shard_def by blast+

lemma wf_mgrI:
  assumes "wf_shape m"
    and "\<And>i key p. i < length (shards m) \<Longrightarrow> map_of (locks (shards m ! i)) key = Some p \<Longrightarrow>
      p < length (heap m) \<and> sl_key (heap m ! p) = key \<and> sl_shard (heap m ! p) = Some i \<and> getShard m key = i"
    and "\<And>i p. i < length (shards m) \<Longrightarrow> p \<in> set (pool (shards m ! i)) \<Longrightarrow>
      p < length (heap m) \<and> sl_shard (heap m ! p) = None"
    and "\<And>p i. p < length (heap m) \<Longrightarrow> sl_shard (heap m ! p) = Some i \<Longrightarrow>
      i < length (shards m) \<and> map_of (locks (shards m ! i)) (sl_key (heap m ! p)) = Some p"
    and "\<And>i. i < length (shards m) \<Longrightarrow> wf_map (locks (shards m ! i)) \<and> distinct (pool (shards m ! i))"
    and "\<And>i j p. i < length (shards m) \<Longrightarrow> j < length (shards m) \<Longrightarrow>
      p \<in> set (pool (shards m ! i)) \<Longrightarrow> p \<in> set (pool (shards m ! j)) \<Longrightarrow> i = j"
  shows "wf_mgr m"
  using assms unfolding wf_mgr_def wf_shard_def by blast

lemma wf_mgr_new:
  assumes "NewShardedLockManager count = Some m"
  shows "wf_mgr m"
  using NewShardedLockManager_form [OF assms]
  by (auto simp: wf_mgr_def wf_shape_def wf_shard_def)

text \<open>Operations that do not touch the identity of an object.\<close>

definition keeps_identity :: "('d ShardedLock \<Rightarrow> 'd ShardedLock) \<Rightarrow> bool" where
  "keeps_identity f \<longleftrightarrow> (\<forall>l. sl_key (f l) = sl_key l \<and> sl_shard (f l) = sl_shard l)"

lemma wf_mgr_upd_lock:
  assumes "wf_mgr m" and "keeps_identity f"
  shows "wf_mgr (upd_lock p f m)"
proof -
  have id: "sl_key (heap (upd_lock p f m) ! q) = sl_key (heap m ! q)"
    "sl_shard (heap (upd_lock p f m) ! q) = sl_shard (heap m ! q)" if "q < length (heap m)" for q
    using assms(2) that by (cases "p = q"; simp add: upd_lock_def keeps_identity_def)+
  have eqs: "shards (upd_lock p f m) = shards m" "length (heap (upd_lock p f m)) = length (heap m)"
    "wf_shape (upd_lock p f m) = wf_shape m" "getShard (upd_lock p f m) = getShard m"
    by (auto simp: upd_lock_def wf_shape_def getShard_def fun_eq_iff)
  note m = assms(1)
  show ?thesis
  proof (rule wf_mgrI; unfold eqs)
    show "wf_shape m" by (rule wf_mgr_shape [OF m])
    show "q < length (heap m) \<and> sl_key (heap (upd_lock p f m) ! q) = key \<and>
        sl_shard (heap (upd_lock p f m) ! q) = Some i \<and> getShard m key = i"
      if "i < length (shards m)" "map_of (locks (shards m ! i)) key = Some q" for i key q
      using wf_mgr_registered [OF m that] id by simp
    show "q < length (heap m) \<and> sl_shard (heap (upd_lock p f m) ! q) = None"
      if "i < length (shards m)" "q \<in> set (pool (shards m ! i))" for i q
      using wf_mgr_pooled [OF m that] id by simp
    show "i < length (shards m) \<and>
        map_of (locks (shards m ! i)) (sl_key (heap (upd_lock p f m) ! q)) = Some q"
      if "q < length (heap m)" "sl_shard (heap (upd_lock p f m) ! q) = Some i" for q i
      using wf_mgr_object [OF m that(1)] that id by simp
  qed (use m in \<open>auto intro: wf_mgr_wf_map wf_mgr_distinct dest: wf_mgr_disjoint\<close>)
qed

text \<open>Drawing an object from the pool, registering it, and removing it again.\<close>

definition fresh_object :: "nat \<Rightarrow> 'd manager \<Rightarrow> bool" where
  "fresh_object p m \<longleftrightarrow> p < length (heap m) \<and> sl_shard (heap m ! p) = None \<and>
     (\<forall>sh\<in>set (shards m). p \<notin> set (pool sh))"

lemma fresh_object_pool: "fresh_object p m \<Longrightarrow> i < length (shards m) \<Longrightarrow> p \<notin> set (pool (shards m ! i))"
  by (simp add: fresh_object_def)

lemma distinct_remove_nth:
  assumes "distinct xs" and "j < length xs"
  shows "distinct (take j xs @ drop (Suc j) xs)" and "set (take j xs @ drop (Suc j) xs) = set xs - {xs ! j}"
proof -
  have xs: "xs = take j xs @ xs ! j # drop (Suc j) xs" by (rule id_take_nth_drop) (rule assms)
  have d: "distinct (take j xs @ xs ! j # drop (Suc j) xs)" using assms(1) xs by simp
  then show "distinct (take j xs @ drop (Suc j) xs)" by simp
  have "set xs = set (take j xs @ xs ! j # drop (Suc j) xs)" using xs by simp
  with d show "set (take j xs @ drop (Suc j) xs) = set xs - {xs ! j}" by auto
qed

lemma wf_mgr_new_object:
  assumes "wf_mgr m" and "m' = m\<lparr>heap := heap m @ [new_object factory]\<rparr>"
  shows "wf_mgr m' \<and> fresh_object (length (heap m)) m'"
proof -
  note m = assms(1)
  have eqs: "shards m' = shards m" "length (heap m @ [new_object factory]) = Suc (length (heap m))"
    "wf_shape m' = wf_shape m" "getShard m' = getShard m" "heap m' = heap m @ [new_object factory]"
    by (simp_all add: assms(2) wf_shape_def getShard_def fun_eq_iff)
  have "wf_mgr m'"
  proof (rule wf_mgrI; unfold eqs)
    show "wf_shape m" by (rule wf_mgr_shape [OF m])
    show "q < Suc (length (heap m)) \<and> sl_key ((heap m @ [new_object factory]) ! q) = key \<and>
        sl_shard ((heap m @ [new_object factory]) ! q) = Some i \<and> getShard m key = i"
      if "i < length (shards m)" "map_of (locks (shards m ! i)) key = Some q" for i key q
      using wf_mgr_registered [OF m that] by (simp add: nth_append)
    show "q < Suc (length (heap m)) \<and> sl_shard ((heap m @ [new_object factory]) ! q) = None"
      if "i < length (shards m)" "q \<in> set (pool (shards m ! i))" for i q
      using wf_mgr_pooled [OF m that] by (simp add: nth_append)
    show "i < length (shards m) \<and>
        map_of (locks (shards m ! i)) (sl_key ((heap m @ [new_object factory]) ! q)) = Some q"
      if "q < Suc (length (heap m))" "sl_shard ((heap m @ [new_object factory]) ! q) = Some i" for q i
      using wf_mgr_object [OF m, of q i] that
      by (simp add: nth_append new_object_def split: if_splits)
  qed (use m in \<open>auto intro: wf_mgr_wf_map wf_mgr_distinct dest: wf_mgr_disjoint\<close>)
  moreover have "length (heap m) \<notin> set (pool sh)" if sh: "sh \<in> set (shards m)" for sh
  proof -
    obtain i where "i < length (shards m)" "shards m ! i = sh" using sh by (auto simp: in_set_conv_nth)
    then show ?thesis using wf_mgr_pooled [OF m] by blast
  qed
  ultimately show ?thesis by (simp add: fresh_object_def eqs new_object_def)
qed

lemma wf_mgr_take_pooled:
  assumes "wf_mgr m" and "i < length (shards m)" and "j < length (pool (shards m ! i))"
    and "m' = upd_shard i (\<lambda>sh. sh\<lparr>pool := take j (pool sh) @ drop (Suc j) (pool sh)\<rparr>) m"
  shows "wf_mgr m' \<and> fresh_object (pool (shards m ! i) ! j) m'"
proof -
  note m = assms(1)
  let ?pl = "pool (shards m ! i)"
  have eqs: "heap m' = heap m" "wf_shape m' = wf_shape m" "getShard m' = getShard m"
    "length (shards m') = length (shards m)"
    by (simp_all add: assms(4) upd_shard_def wf_shape_def getShard_def fun_eq_iff)
  have sh: "locks (shards m' ! k) = locks (shards m ! k)"
    "pool (shards m' ! k) = (if k = i then take j ?pl @ drop (Suc j) ?pl else pool (shards m ! k))" 
    if "k < length (shards m)" for k
    using that assms(2) by (simp_all add: assms(4) upd_shard_def nth_list_update)
  note rem = distinct_remove_nth [OF wf_mgr_distinct [OF m assms(2)] assms(3)]
  have pl: "p \<in> set (pool (shards m ! k)) \<and> p \<noteq> ?pl ! j"
    if "k < length (shards m)" "p \<in> set (pool (shards m' ! k))" for k p
    using that sh(2) rem(2) wf_mgr_disjoint [OF m that(1) assms(2), of p] assms(3)
    by (auto split: if_splits)
  have "wf_mgr m'"
  proof (rule wf_mgrI; unfold eqs)
    show "wf_shape m" by (rule wf_mgr_shape [OF m])
    show "wf_map (locks (shards m' ! k)) \<and> distinct (pool (shards m' ! k))" if "k < length (shards m)" for k
      using sh [OF that] rem(1) wf_mgr_wf_map [OF m that] wf_mgr_distinct [OF m that] by simp
  qed (use m sh(1) pl in \<open>auto dest: wf_mgr_registered wf_mgr_pooled wf_mgr_object wf_mgr_disjoint\<close>)
  moreover have "?pl ! j \<notin> set (pool sh)" if sh: "sh \<in> set (shards m')" for sh
  proof -
    obtain k where "k < length (shards m)" "shards m' ! k = sh"
      using sh eqs(4) by (auto simp: in_set_conv_nth)
    with pl show ?thesis by blast
  qed
  ultimately show ?thesis
    using wf_mgr_pooled [OF m assms(2) nth_mem [OF assms(3)]] by (simp add: fresh_object_def eqs)
qed


definition register :: "nat \<Rightarrow> string \<Rightarrow> nat \<Rightarrow> 'd manager \<Rightarrow> 'd manager" where
  "register i key p m = upd_shard i (\<lambda>sh. sh\<lparr>locks := AList.update key p (locks sh)\<rparr>)
     (upd_lock p (\<lambda>l. l\<lparr>sl_key := key, unlocked := True, refCount := 1, sl_shard := Some i\<rparr>) m)"

lemma wf_mgr_register:
  assumes "wf_mgr m" and "fresh_object p m" and "lookup m key = None"
  shows "wf_mgr (register (getShard m key) key p m)"
proof -
  note m = assms(1)
  define m' where "m' = register (getShard m key) key p m"
  let ?i = "getShard m key"
  have i: "?i < length (shards m)" by (rule getShard_less [OF wf_mgr_shape [OF m]])
  have p: "p < length (heap m)" "sl_shard (heap m ! p) = None" using assms(2) by (simp_all add: fresh_object_def)
  have eqs: "wf_shape m' = wf_shape m" "getShard m' = getShard m"
    "length (heap m') = length (heap m)" "length (shards m') = length (shards m)"
    by (auto simp: m'_def register_def heap_defs wf_shape_def getShard_def fun_eq_iff)
  have sh: "locks (shards m' ! k) = (if k = ?i then AList.update key p (locks (shards m ! k)) else locks (shards m ! k))"
    "pool (shards m' ! k) = pool (shards m ! k)" if "k < length (shards m)" for k
    using that i by (auto simp: m'_def register_def heap_defs nth_list_update)
  have hp: "sl_key (heap m' ! q) = (if q = p then key else sl_key (heap m ! q))"
    "sl_shard (heap m' ! q) = (if q = p then Some ?i else sl_shard (heap m ! q))"
    if "q < length (heap m)" for q
    using that p(1) by (auto simp: m'_def register_def heap_defs nth_list_update)
  have none: "map_of (locks (shards m ! ?i)) key = None" using assms(3) by (simp add: lookup_def)
  have "wf_mgr m'"
  proof (rule wf_mgrI; unfold eqs)
    show "wf_shape m" by (rule wf_mgr_shape [OF m])
    show "q < length (heap m) \<and> sl_key (heap m' ! q) = k \<and> sl_shard (heap m' ! q) = Some j \<and> getShard m k = j"
      if "j < length (shards m)" "map_of (locks (shards m' ! j)) k = Some q" for j k q
      using that(2) wf_mgr_registered [OF m that(1), of k q] p
      by (auto simp: sh [OF that(1)] hp split: if_splits)
    show "q < length (heap m) \<and> sl_shard (heap m' ! q) = None"
      if "j < length (shards m)" "q \<in> set (pool (shards m' ! j))" for j q
      using that(2) wf_mgr_pooled [OF m that(1), of q] fresh_object_pool [OF assms(2) that(1)]
      by (auto simp: sh [OF that(1)] hp)
    show "j < length (shards m) \<and> map_of (locks (shards m' ! j)) (sl_key (heap m' ! q)) = Some q"
      if "q < length (heap m)" "sl_shard (heap m' ! q) = Some j" for q j
      using that(2) wf_mgr_object [OF m that(1), of j] i none
      by (auto simp: sh hp [OF that(1)] split: if_splits)
    show "wf_map (locks (shards m' ! k)) \<and> distinct (pool (shards m' ! k))" if "k < length (shards m)" for k
      using wf_mgr_wf_map [OF m that] wf_mgr_distinct [OF m that] by (auto simp: sh [OF that])
  qed (use m sh in \<open>auto dest: wf_mgr_disjoint\<close>)
  then show ?thesis by (simp add: m'_def)
qed

lemma wf_mgr_unregister:
  assumes "wf_mgr m" and "p < length (heap m)" and "sl_shard (heap m ! p) = Some i"
  shows "wf_mgr (unregister i p m)"
proof -
  note m = assms(1)
  define m' where "m' = unregister i p m"
  define ky where "ky = sl_key (heap m ! p)"
  have i: "i < length (shards m)" and p: "map_of (locks (shards m ! i)) ky = Some p"
    using wf_mgr_object [OF m assms(2,3)] by (auto simp: ky_def)
  have np: "p \<notin> set (pool (shards m ! k))" if "k < length (shards m)" for k
    using wf_mgr_pooled [OF m that, of p] assms(3) by auto
  have eqs: "wf_shape m' = wf_shape m" "getShard m' = getShard m"
    "length (heap m') = length (heap m)" "length (shards m') = length (shards m)"
    by (auto simp: m'_def ky_def unregister_def heap_defs wf_shape_def getShard_def fun_eq_iff)
  have sh: "locks (shards m' ! k) = (if k = i then AList.delete ky (locks (shards m ! k)) else locks (shards m ! k))"
    "pool (shards m' ! k) = pool (shards m ! k) @ (if k = i then [p] else [])" if "k < length (shards m)" for k
    using that i by (auto simp: m'_def ky_def unregister_def heap_defs nth_list_update)
  have hp: "sl_key (heap m' ! q) = (if q = p then [] else sl_key (heap m ! q))"
    "sl_shard (heap m' ! q) = (if q = p then None else sl_shard (heap m ! q))"
    if "q < length (heap m)" for q
    using that assms(2) by (auto simp: m'_def ky_def unregister_def reset_object_def heap_defs nth_list_update)
  have owner: "q = p \<Longrightarrow> j = i \<and> k = ky"
    if "j < length (shards m)" "map_of (locks (shards m ! j)) k = Some q" for j k q
    using wf_mgr_registered [OF m that] assms(3) by (auto simp: ky_def)
  have "wf_mgr m'"
  proof (rule wf_mgrI; unfold eqs)
    show "wf_shape m" by (rule wf_mgr_shape [OF m])
    show "q < length (heap m) \<and> sl_key (heap m' ! q) = k \<and> sl_shard (heap m' ! q) = Some j \<and> getShard m k = j"
      if "j < length (shards m)" "map_of (locks (shards m' ! j)) k = Some q" for j k q
    proof -
      have *: "map_of (locks (shards m ! j)) k = Some q" "\<not> (j = i \<and> k = ky)"
        using that(2) by (auto simp: sh [OF that(1)] split: if_splits)
      with owner [OF that(1) *(1)] have "q \<noteq> p" by blast
      with wf_mgr_registered [OF m that(1) *(1)] show ?thesis by (simp add: hp)
    qed
    show "q < length (heap m) \<and> sl_shard (heap m' ! q) = None"
      if "j < length (shards m)" "q \<in> set (pool (shards m' ! j))" for j q
      using that(2) wf_mgr_pooled [OF m that(1), of q] assms(2)
      by (auto simp: sh [OF that(1)] hp split: if_splits)
    show "j < length (shards m) \<and> map_of (locks (shards m' ! j)) (sl_key (heap m' ! q)) = Some q"
      if "q < length (heap m)" "sl_shard (heap m' ! q) = Some j" for q j
      using that(2) wf_mgr_object [OF m that(1), of j] p
      by (auto simp: sh hp [OF that(1)] split: if_splits)
    show "wf_map (locks (shards m' ! k)) \<and> distinct (pool (shards m' ! k))" if "k < length (shards m)" for k
      using wf_mgr_wf_map [OF m that] wf_mgr_distinct [OF m that] np [OF that] by (auto simp: sh [OF that])
    show "j = k" if "j < length (shards m)" "k < length (shards m)" "q \<in> set (pool (shards m' ! j))"
        "q \<in> set (pool (shards m' ! k))" for j k q
      using that(3,4) wf_mgr_disjoint [OF m that(1,2), of q] np [OF that(1)] np [OF that(2)]
      by (auto simp: sh [OF that(1)] sh [OF that(2)] split: if_splits)
  qed
  then show ?thesis by (simp add: m'_def)
qed


lemma GetLock_registered:
  "lookup m key = Some p \<Longrightarrow>
     GetLock factory pick key m = (p, upd_lock p (\<lambda>l. l\<lparr>refCount := refCount l + 1\<rparr>) m)"
  by (simp add: GetLock_def lookup_def)

lemma GetLock_unregistered:
  assumes "wf_mgr m" and "lookup m key = None"
  obtains p m1 where "GetLock factory pick key m = (p, register (getShard m key) key p m1)"
    and "wf_mgr m1" and "fresh_object p m1" and "getShard m1 = getShard m" and "lookup m1 = lookup m"
proof -
  let ?i = "getShard m key"
  have i: "?i < length (shards m)" by (rule getShard_less [OF wf_mgr_shape [OF assms(1)]])
  obtain p m1 where g: "pool_get factory pick ?i m = (p, m1)" by fastforce
  then have eq: "GetLock factory pick key m = (p, register ?i key p m1)"
    using assms(2) by (simp add: GetLock_def lookup_def register_def Let_def)
  have same: "getShard m1 = getShard m" "lookup m1 = lookup m"
    using g i by (auto simp: pool_get_def heap_defs getShard_def lookup_def fun_eq_iff nth_list_update
        split: option.splits if_splits)
  have "wf_mgr m1 \<and> fresh_object p m1"
  proof (cases "\<exists>j. pick = Some j \<and> j < length (pool (shards m ! ?i))")
    case True
    then show ?thesis using g wf_mgr_take_pooled [OF assms(1) i] by (auto simp: pool_get_def)
  next
    case False
    then have "p = length (heap m)" "m1 = m\<lparr>heap := heap m @ [new_object factory]\<rparr>"
      using g by (auto simp: pool_get_def split: option.splits if_splits)
    then show ?thesis using wf_mgr_new_object [OF assms(1)] by simp
  qed
  with that [OF eq] same show ?thesis by blast
qed

lemma keeps_refCount: "keeps_identity (\<lambda>l. l\<lparr>refCount := f l\<rparr>)"
  by (simp add: keeps_identity_def)

lemma wf_mgr_GetLock:
  assumes "wf_mgr m"
  shows "wf_mgr (snd (GetLock factory pick key m))"
proof (cases "lookup m key")
  case None
  from GetLock_unregistered [OF assms None] show ?thesis
    by (metis None snd_conv wf_mgr_register)
next
  case (Some p)
  then show ?thesis by (simp add: GetLock_registered wf_mgr_upd_lock [OF assms keeps_refCount])
qed

lemma lookup_register:
  assumes "wf_mgr m" and "fresh_object p m"
  shows "lookup (register (getShard m key) key p m) = (lookup m)(key \<mapsto> p)"
proof
  fix k
  have "getShard m key < length (shards m)" by (rule getShard_less [OF wf_mgr_shape [OF assms(1)]])
  then show "lookup (register (getShard m key) key p m) k = ((lookup m)(key \<mapsto> p)) k"
    by (auto simp: lookup_def register_def heap_defs getShard_def nth_list_update)
qed

lemma lookup_upd_lock [simp]: "lookup (upd_lock p f m) = lookup m"
  by (simp add: fun_eq_iff lookup_def upd_lock_def getShard_def)

text \<open>After \<open>GetLock\<close> the key is bound to the returned object, and no other binding changes.\<close>

lemma lookup_GetLock:
  assumes "wf_mgr m"
  shows "lookup (snd (GetLock factory pick key m)) = (lookup m)(key \<mapsto> fst (GetLock factory pick key m))"
proof (cases "lookup m key")
  case None
  from GetLock_unregistered [OF assms None, of factory pick] show ?thesis
    by (metis fst_conv lookup_register snd_conv)
next
  case (Some p)
  then show ?thesis by (simp add: GetLock_registered fun_upd_idem)
qed

lemma lookup_inject:
  assumes "wf_mgr m" and "lookup m k1 = Some p" and "lookup m k2 = Some p"
  shows "k1 = k2"
  using assms wf_mgr_registered [OF assms(1) getShard_less [OF wf_mgr_shape [OF assms(1)]]]
  by (metis lookup_def)

lemma wf_mgr_cleanupLock:
  assumes "wf_mgr m" and "p < length (heap m)"
  shows "wf_mgr (cleanupLock p m)"
  using assms by (simp add: cleanupLock_def cleanup_locked_def wf_mgr_unregister split: option.split)

lemma wf_mgr_ReleaseLock:
  assumes "wf_mgr m" and "p < length (heap m)"
  shows "wf_mgr (ReleaseLock p m)"
  using assms wf_mgr_upd_lock [OF assms(1) keeps_refCount]
  by (auto simp: ReleaseLock_def Let_def decRef_def upd_lock_def intro!: wf_mgr_cleanupLock)

lemma wf_mgr_unregister_all:
  assumes "wf_mgr m" and "distinct ps"
    and "\<And>p. p \<in> set ps \<Longrightarrow> p < length (heap m) \<and> sl_shard (heap m ! p) = Some i"
  shows "wf_mgr (foldl (\<lambda>m p. unregister i p m) m ps)"
  using assms
proof (induction ps arbitrary: m)
  case (Cons p ps)
  have "wf_mgr (unregister i p m)" using Cons.prems by (simp add: wf_mgr_unregister)
  moreover have "q < length (heap (unregister i p m)) \<and> sl_shard (heap (unregister i p m) ! q) = Some i"
    if "q \<in> set ps" for q
    using that Cons.prems by (auto simp: unregister_def heap_defs nth_list_update)
  ultimately show ?case using Cons.IH Cons.prems(2) by simp
qed simp

lemma wf_mgr_values:
  assumes "wf_mgr m" and "i < length (shards m)"
  shows "distinct (map snd (locks (shards m ! i)))"
proof -
  let ?l = "locks (shards m ! i)"
  have d: "distinct (map fst ?l)" using wf_mgr_wf_map [OF assms] by (simp add: wf_map_def)
  have "inj_on snd (set ?l)"
  proof (rule inj_onI)
    fix x y assume *: "x \<in> set ?l" "y \<in> set ?l" "snd x = snd y"
    have "map_of ?l (fst x) = Some (snd x)" "map_of ?l (fst y) = Some (snd y)"
      using d *(1,2) by (simp_all add: map_of_eq_Some_iff)
    then have "map_of ?l (fst x) = Some (snd x)" "map_of ?l (fst y) = Some (snd x)"
      using *(3) by simp_all
    then have "fst x = fst y" using wf_mgr_registered [OF assms] by metis
    with *(3) show "x = y" by (simp add: prod_eq_iff)
  qed
  with d show ?thesis by (simp add: distinct_map)
qed

lemma evictable_registered:
  assumes "wf_mgr m" and "i < length (shards m)"
    and "p \<in> set (filter (\<lambda>p. evictable now (heap m ! p)) (map snd (locks (shards m ! i))))"
  shows "p < length (heap m) \<and> sl_shard (heap m ! p) = Some i"
proof -
  obtain key where "(key, p) \<in> set (locks (shards m ! i))" using assms(3) by auto
  then have "map_of (locks (shards m ! i)) key = Some p"
    using wf_mgr_wf_map [OF assms(1,2)] by (simp add: wf_map_def)
  from wf_mgr_registered [OF assms(1,2) this] show ?thesis by blast
qed

lemma wf_mgr_cleanupShard:
  assumes "wf_mgr m" and "i < length (shards m)"
  shows "wf_mgr (cleanupShard now i m)"
  unfolding cleanupShard_def Let_def
  by (rule wf_mgr_unregister_all [OF assms(1) distinct_filter [OF wf_mgr_values [OF assms]]
      evictable_registered [OF assms]])

text \<open>
  What a sweep keeps: a binding disappears exactly when its object is evictable. Unregistering
  an object changes no other object.
\<close>

lemma lookup_unregister:
  assumes "wf_mgr m" and "p < length (heap m)" and "sl_shard (heap m ! p) = Some i"
  shows "lookup (unregister i p m) = (\<lambda>k. if lookup m k = Some p then None else lookup m k)"
proof
  fix k
  have reg: "i < length (shards m)" "map_of (locks (shards m ! i)) (sl_key (heap m ! p)) = Some p"
    using wf_mgr_object [OF assms] by auto
  have k: "getShard m k < length (shards m)" by (rule getShard_less [OF wf_mgr_shape [OF assms(1)]])
  have gs: "getShard (unregister i p m) = getShard m"
    by (simp add: unregister_def heap_defs getShard_def fun_eq_iff)
  have "lookup m k = Some p \<longleftrightarrow> getShard m k = i \<and> k = sl_key (heap m ! p)"
    using wf_mgr_registered [OF assms(1) k, of k p] wf_mgr_registered [OF assms(1) reg] reg
    by (auto simp: lookup_def assms(3))
  then show "lookup (unregister i p m) k = (if lookup m k = Some p then None else lookup m k)"
    using reg(1) k by (auto simp: lookup_def gs) (auto simp: unregister_def heap_defs nth_list_update)
qed

lemma unregister_frame:
  "length (heap (unregister i p m)) = length (heap m)" "length (shards (unregister i p m)) = length (shards m)"
  "q \<noteq> p \<Longrightarrow> heap (unregister i p m) ! q = heap m ! q"
  "getShard (unregister i p m) = getShard m"
  by (simp_all add: unregister_def heap_defs getShard_def fun_eq_iff)

lemma lookup_unregister_all:
  assumes "wf_mgr m" and "distinct ps"
    and "\<And>p. p \<in> set ps \<Longrightarrow> p < length (heap m) \<and> sl_shard (heap m ! p) = Some i"
  shows "lookup (foldl (\<lambda>m p. unregister i p m) m ps) k =
      (case lookup m k of None \<Rightarrow> None | Some p \<Rightarrow> if p \<in> set ps then None else Some p) \<and>
    (\<forall>q. q \<notin> set ps \<longrightarrow> heap (foldl (\<lambda>m p. unregister i p m) m ps) ! q = heap m ! q) \<and>
    getShard (foldl (\<lambda>m p. unregister i p m) m ps) = getShard m \<and>
    length (shards (foldl (\<lambda>m p. unregister i p m) m ps)) = length (shards m)"
  using assms
proof (induction ps arbitrary: m)
  case (Cons p ps)
  have "wf_mgr (unregister i p m)" using Cons.prems by (simp add: wf_mgr_unregister)
  moreover have "q < length (heap (unregister i p m)) \<and> sl_shard (heap (unregister i p m) ! q) = Some i"
    if "q \<in> set ps" for q
    using that Cons.prems unregister_frame(3) [of q p i m] by (cases "q = p") (auto simp: unregister_frame(1))
  ultimately show ?case using Cons.IH [of "unregister i p m"] Cons.prems
    by (auto simp: lookup_unregister unregister_frame split: option.splits)
qed (simp split: option.split)

lemma cleanupShard_lookup:
  assumes "wf_mgr m" and "i < length (shards m)"
  shows "lookup (cleanupShard now i m) k = (case lookup m k of
      None \<Rightarrow> None | Some p \<Rightarrow> if getShard m k = i \<and> evictable now (heap m ! p) then None else Some p)"
    and "lookup m k = Some p \<Longrightarrow> getShard m k \<noteq> i \<or> \<not> evictable now (heap m ! p) \<Longrightarrow>
      heap (cleanupShard now i m) ! p = heap m ! p"
    and "getShard (cleanupShard now i m) = getShard m"
    and "length (shards (cleanupShard now i m)) = length (shards m)"
proof -
  let ?ps = "filter (\<lambda>p. evictable now (heap m ! p)) (map snd (locks (shards m ! i)))"
  have all: "lookup (foldl (\<lambda>m p. unregister i p m) m ?ps) k =
      (case lookup m k of None \<Rightarrow> None | Some p \<Rightarrow> if p \<in> set ?ps then None else Some p) \<and>
    (\<forall>q. q \<notin> set ?ps \<longrightarrow> heap (foldl (\<lambda>m p. unregister i p m) m ?ps) ! q = heap m ! q) \<and>
    getShard (foldl (\<lambda>m p. unregister i p m) m ?ps) = getShard m \<and>
    length (shards (foldl (\<lambda>m p. unregister i p m) m ?ps)) = length (shards m)" for k
    by (rule lookup_unregister_all [OF assms(1) distinct_filter [OF wf_mgr_values [OF assms]]
        evictable_registered [OF assms]])
  have mem: "p \<in> set ?ps \<longleftrightarrow> getShard m k = i \<and> evictable now (heap m ! p)" if "lookup m k = Some p" for k p
  proof -
    have *: "getShard m k < length (shards m)" by (rule getShard_less [OF wf_mgr_shape [OF assms(1)]])
    have reg: "sl_shard (heap m ! p) = Some (getShard m k)"
      using wf_mgr_registered [OF assms(1) * that [unfolded lookup_def]] by blast
    have kp: "(k, p) \<in> set (locks (shards m ! getShard m k))"
      using that by (simp add: lookup_def map_of_SomeD)
    show ?thesis
    proof
      assume p: "p \<in> set ?ps"
      show "getShard m k = i \<and> evictable now (heap m ! p)"
        using evictable_registered [OF assms p] reg p by simp
    next
      assume "getShard m k = i \<and> evictable now (heap m ! p)"
      then show "p \<in> set ?ps" using kp image_eqI [of p snd "(k, p)"] by simp
    qed
  qed
  show "lookup (cleanupShard now i m) k = (case lookup m k of
      None \<Rightarrow> None | Some p \<Rightarrow> if getShard m k = i \<and> evictable now (heap m ! p) then None else Some p)"
    using all [of k] mem [of k] unfolding cleanupShard_def Let_def by (simp split: option.split)
  show "heap (cleanupShard now i m) ! p = heap m ! p"
    if "lookup m k = Some p" "getShard m k \<noteq> i \<or> \<not> evictable now (heap m ! p)"
    using all [of k] mem [OF that(1)] that(2) unfolding cleanupShard_def Let_def by blast
  show "getShard (cleanupShard now i m) = getShard m"
    "length (shards (cleanupShard now i m)) = length (shards m)"
    using all unfolding cleanupShard_def Let_def by blast+
qed


lemma sweep_prefix:
  fixes now :: gotime
  assumes "wf_mgr m" and "j \<le> length (shards m)"
  defines "m' \<equiv> foldl (\<lambda>m i. cleanupShard now i m) m [0..<j]"
  shows "wf_mgr m' \<and> getShard m' = getShard m \<and> length (shards m') = length (shards m) \<and>
    (\<forall>k. lookup m' k = (case lookup m k of None \<Rightarrow> None
       | Some p \<Rightarrow> if getShard m k < j \<and> evictable now (heap m ! p) then None else Some p)) \<and>
    (\<forall>k p. lookup m' k = Some p \<longrightarrow> heap m' ! p = heap m ! p)"
  using assms(2) unfolding m'_def
proof (induction j)
  case (Suc j)
  define a where "a = foldl (\<lambda>m i. cleanupShard now i m) m [0..<j]"
  have IH: "wf_mgr a" "getShard a = getShard m" "length (shards a) = length (shards m)"
    "\<And>k. lookup a k = (case lookup m k of None \<Rightarrow> None
       | Some p \<Rightarrow> if getShard m k < j \<and> evictable now (heap m ! p) then None else Some p)"
    "\<And>k p. lookup a k = Some p \<Longrightarrow> heap a ! p = heap m ! p"
    using Suc unfolding a_def by auto
  have j: "j < length (shards a)" using Suc.prems IH(3) by simp
  note cl = cleanupShard_lookup [OF IH(1) j]
  have "lookup (cleanupShard now j a) k = (case lookup m k of None \<Rightarrow> None
       | Some p \<Rightarrow> if getShard m k < Suc j \<and> evictable now (heap m ! p) then None else Some p)" for k
    using IH(4) [of k] IH(5) [of k] unfolding cl(1) IH(2)
    by (auto split: option.splits if_splits simp: less_Suc_eq)
  moreover have "heap (cleanupShard now j a) ! p = heap m ! p"
    if "lookup (cleanupShard now j a) k = Some p" for k p
  proof -
    have *: "lookup a k = Some p" "getShard a k \<noteq> j \<or> \<not> evictable now (heap a ! p)"
      using that unfolding cl(1) by (auto split: option.splits if_splits)
    show ?thesis using cl(2) [OF *] IH(5) [OF *(1)] by simp
  qed
  ultimately show ?case
    using wf_mgr_cleanupShard [OF IH(1) j] cl(3,4) IH(2,3) by (simp add: a_def [symmetric])
qed (use assms(1) in \<open>simp split: option.split\<close>)

lemma unregister_all_frame:
  "length (heap (foldl (\<lambda>m p. unregister i p m) m ps)) = length (heap m) \<and>
   (unlocked (heap m ! q) \<longrightarrow> unlocked (heap (foldl (\<lambda>m p. unregister i p m) m ps) ! q))"
proof (induction ps arbitrary: m)
  case (Cons p ps)
  have "unlocked (heap m ! q) \<Longrightarrow> unlocked (heap (unregister i p m) ! q)"
    by (cases "p < length (heap m)")
       (auto simp: unregister_def reset_object_def heap_defs nth_list_update not_less list_update_beyond)
  with Cons.IH [of "unregister i p m"] show ?case by (simp add: unregister_frame)
qed simp

lemma performCleanup_frame:
  "length (heap (performCleanup now m)) = length (heap m) \<and>
   (unlocked (heap m ! q) \<longrightarrow> unlocked (heap (performCleanup now m) ! q))"
proof -
  have "length (heap (foldl (\<lambda>m i. cleanupShard now i m) m js)) = length (heap m) \<and>
     (unlocked (heap m ! q) \<longrightarrow> unlocked (heap (foldl (\<lambda>m i. cleanupShard now i m) m js) ! q))" for js
    by (induction js arbitrary: m) (auto simp: cleanupShard_def unregister_all_frame)
  then show ?thesis by (simp add: performCleanup_def)
qed

lemma performCleanup_wf:
  assumes "wf_mgr m"
  shows "wf_mgr (performCleanup now m)"
  using sweep_prefix [OF assms order.refl] by (simp add: performCleanup_def)

section \<open>Reachable managers\<close>

text \<open>
  The atomic steps of the goroutines that share one manager. A state is the manager, the goroutines in
  \<open>ReleaseLock\<close> that have counted the object \<open>p\<close> down to 0 - \<open>(p, None)\<close> before they have read \<open>lock.shard\<close> (line
  140), \<open>(p, Some i)\<close> when they have read the shard \<open>i\<close> and wait for its mutex (line 147) - and the
  objects the sweep has found evictable and not removed yet. Between two steps of one goroutine the others
  do theirs; a method of a lock object changes neither the key nor the shard of the object. The sweep
  holds the mutex of its shard from the test of an object to its removal, so the object is still registered there.
\<close>

type_synonym releasing = "(nat \<times> nat option) list"
type_synonym 'd mgr_state = "'d manager \<times> releasing \<times> nat list"

datatype 'd mgr_label = MGet 'd "nat option" string | MDec nat | MRead nat | MCleanup nat nat | MMark gotime nat
  | MEvict nat | MObject nat "'d ShardedLock \<Rightarrow> 'd ShardedLock" | MClose

inductive mgr_step :: "'d mgr_label \<Rightarrow> 'd mgr_state \<Rightarrow> 'd mgr_state \<Rightarrow> bool" where
  step_get: "mgr_step (MGet factory pick key) (m, w, ms) (snd (GetLock factory pick key m), w, ms)"
| step_dec: "p < length (heap m) \<Longrightarrow> mgr_step (MDec p) (m, w, ms)
    (decRef p m, if sint (refCount (heap (decRef p m) ! p)) \<le> 0 then (p, None) # w else w, ms)"
| step_read_nil: "(p, None) \<in> set w \<Longrightarrow> sl_shard (heap m ! p) = None \<Longrightarrow>
    mgr_step (MRead p) (m, w, ms) (m, remove1 (p, None) w, ms)"
| step_read: "(p, None) \<in> set w \<Longrightarrow> sl_shard (heap m ! p) = Some i \<Longrightarrow>
    mgr_step (MRead p) (m, w, ms) (m, (p, Some i) # remove1 (p, None) w, ms)"
| step_cleanup: "(p, Some i) \<in> set w \<Longrightarrow>
    mgr_step (MCleanup p i) (m, w, ms) (cleanup_locked i p m, remove1 (p, Some i) w, ms)"
| step_mark: "p < length (heap m) \<Longrightarrow> evictable now (heap m ! p) \<Longrightarrow> mgr_step (MMark now p) (m, w, ms) (m, w, p # ms)"
| step_evict: "p \<in> set ms \<Longrightarrow> p < length (heap m) \<Longrightarrow> sl_shard (heap m ! p) = Some i \<Longrightarrow>
    mgr_step (MEvict p) (m, w, ms) (unregister i p m, w, remove1 p ms)"
| step_object: "keeps_identity f \<Longrightarrow> mgr_step (MObject p f) (m, w, ms) (upd_lock p f m, w, ms)"
| step_close: "Manager_Close m = Some m' \<Longrightarrow> mgr_step MClose (m, w, ms) (m', w, ms)"

inductive_cases mgr_stepE: "mgr_step l s s'"

text \<open>
  No race in the window between lines 140 and 147: at most one goroutine per object is in it, and nobody else
  removes the object from the shard that was read there meanwhile. \<open>mgr_run ok\<close> are the interleavings without
  such a race whose steps are \<open>ok\<close> where they happen; what a race does is shown in
  \<open>racing_releases_pool_twice\<close> below.
\<close>

definition in_window :: "releasing \<Rightarrow> nat list" where
  "in_window w = map fst (filter (\<lambda>(p, x). x \<noteq> None) w)"

definition race_free :: "'d mgr_state \<Rightarrow> bool" where
  "race_free = (\<lambda>(m, w, ms). distinct (in_window w) \<and>
     list_all (\<lambda>(p, x). x = None \<or> p < length (heap m) \<and> sl_shard (heap m ! p) = x) w)"

inductive mgr_run :: "('d mgr_label \<Rightarrow> 'd mgr_state \<Rightarrow> bool) \<Rightarrow> 'd mgr_state \<Rightarrow> 'd mgr_state \<Rightarrow> bool"
  for ok where
  run_start: "mgr_run ok s s"
| run_more: "mgr_run ok s s1 \<Longrightarrow> ok l s1 \<Longrightarrow> mgr_step l s1 s2 \<Longrightarrow> race_free s2 \<Longrightarrow> mgr_run ok s s2"

inductive reached :: "'d mgr_state \<Rightarrow> bool" where
  reached_new: "NewShardedLockManager count = Some m \<Longrightarrow> reached (m, [], [])"
| reached_run: "reached s \<Longrightarrow> mgr_run (\<lambda>_ _. True) s s' \<Longrightarrow> reached s'"

definition reachable :: "'d manager \<Rightarrow> bool" where
  "reachable m \<longleftrightarrow> (\<exists>w ms. reached (m, w, ms))"

lemma wf_mgr_close:
  assumes "wf_mgr m" and "Manager_Close m = Some m'"
  shows "wf_mgr m'"
proof -
  have "m' = m\<lparr>stopped := True\<rparr>" using assms(2) by (simp add: Manager_Close_def split: if_splits)
  then have "wf_shape m' = wf_shape m" "wf_shard m' = wf_shard m" "shards m' = shards m" "heap m' = heap m"
    by (simp_all add: fun_eq_iff wf_shape_def wf_shard_def getShard_def)
  then have "wf_mgr m' = wf_mgr m" unfolding wf_mgr_def by (simp only:)
  with assms(1) show ?thesis by simp
qed

lemma wf_mgr_step:
  assumes "mgr_step l s s'" and "race_free s" and "wf_mgr (fst s)"
  shows "wf_mgr (fst s')"
  using assms
proof (cases rule: mgr_step.cases)
  case (step_cleanup p i w m ms)
  have "p < length (heap m)" "sl_shard (heap m ! p) = Some i"
    using assms(2) step_cleanup by (auto simp: race_free_def list_all_iff)
  with assms(3) step_cleanup show ?thesis by (simp add: cleanup_locked_def wf_mgr_unregister)
qed (auto simp: decRef_def intro: wf_mgr_GetLock wf_mgr_upd_lock wf_mgr_unregister wf_mgr_close keeps_refCount)

lemma wf_mgr_run: "mgr_run ok s s' \<Longrightarrow> race_free s \<Longrightarrow> wf_mgr (fst s) \<Longrightarrow> race_free s' \<and> wf_mgr (fst s')"
  by (induction rule: mgr_run.induct) (auto dest: wf_mgr_step)

lemma reached_wf: "reached s \<Longrightarrow> race_free s \<and> wf_mgr (fst s)"
  by (induction rule: reached.induct) (auto simp: race_free_def in_window_def wf_mgr_new dest: wf_mgr_run)

lemma reachable_wf: "reachable m \<Longrightarrow> wf_mgr m"
  using reached_wf by (fastforce simp: reachable_def)

text \<open>Acquiring a reference and using an object disturb nobody in the window.\<close>

lemma race_free_kept:
  assumes "race_free (m, w, ms)"
    and "\<And>p i. p < length (heap m) \<Longrightarrow> sl_shard (heap m ! p) = Some i \<Longrightarrow>
      p < length (heap m') \<and> sl_shard (heap m' ! p) = Some i"
  shows "race_free (m', w, ms')"
  using assms by (fastforce simp: race_free_def list_all_iff)

lemma GetLock_keeps_shard:
  assumes "wf_mgr m" and "p < length (heap m)" and "sl_shard (heap m ! p) = Some i"
  shows "p < length (heap (snd (GetLock factory pick key m))) \<and>
    sl_shard (heap (snd (GetLock factory pick key m)) ! p) = Some i"
proof (cases "lookup m key")
  case (Some q)
  with assms(2,3) show ?thesis by (cases "q = p") (simp_all add: GetLock_registered upd_lock_def)
next
  case None
  let ?i = "getShard m key"
  have "?i < length (shards m)" by (rule getShard_less [OF wf_mgr_shape [OF assms(1)]])
  then have "p \<notin> set (pool (shards m ! ?i))" using wf_mgr_pooled [OF assms(1)] assms(3) by fastforce
  then have "\<And>j. j < length (pool (shards m ! ?i)) \<Longrightarrow> pool (shards m ! ?i) ! j \<noteq> p" by (metis nth_mem)
  with None assms(2,3) show ?thesis
    by (auto simp: GetLock_def lookup_def pool_get_def Let_def heap_defs nth_append nth_list_update
        split: option.split)
qed

lemma reachable_step:
  assumes "reachable m" and "\<And>w ms. mgr_step l (m, w, ms) (m', w, ms)"
    and "\<And>p i. wf_mgr m \<Longrightarrow> p < length (heap m) \<Longrightarrow> sl_shard (heap m ! p) = Some i \<Longrightarrow>
      p < length (heap m') \<and> sl_shard (heap m' ! p) = Some i"
  shows "reachable m'"
proof -
  obtain w ms where r: "reached (m, w, ms)" using assms(1) by (auto simp: reachable_def)
  from reached_wf [OF r] have "race_free (m, w, ms)" "wf_mgr m" by simp_all
  from race_free_kept [OF this(1) assms(3) [OF this(2)]] have "race_free (m', w, ms)" by blast
  with reached_run [OF r run_more [OF run_start _ assms(2)]] show ?thesis by (auto simp: reachable_def)
qed

lemma reachable_GetLock: "reachable m \<Longrightarrow> reachable (snd (GetLock factory pick key m))"
  by (rule reachable_step [OF _ step_get GetLock_keeps_shard])

lemma reachable_object:
  assumes "reachable m" and "keeps_identity f"
  shows "reachable (upd_lock p f m)"
proof (rule reachable_step [OF assms(1) step_object [OF assms(2)]])
  fix q i assume "q < length (heap m)" "sl_shard (heap m ! q) = Some i"
  with assms(2) show "q < length (heap (upd_lock p f m)) \<and> sl_shard (heap (upd_lock p f m) ! q) = Some i"
    by (cases "q = p") (simp_all add: upd_lock_def keeps_identity_def)
qed

lemma reachable_new: "NewShardedLockManager count = Some m \<Longrightarrow> reachable m"
  using reached_new by (auto simp: reachable_def)

text \<open>With nobody in \<open>ReleaseLock\<close> there is no race.\<close>

lemma quiet_reached_step:
  assumes "reached (m, [], [])" and "mgr_step l (m, [], []) (m', [], [])"
  shows "reached (m', [], [])"
  by (rule reached_run [OF assms(1) run_more [OF run_start _ assms(2)]]) (simp_all add: race_free_def in_window_def)

lemma quiet_reachable: "reached (m, [], []) \<Longrightarrow> reachable m"
  by (auto simp: reachable_def)

lemma object_methods_keep_identity:
  "keeps_identity (\<lambda>l. snd (SL_TryLock opts uv t1 t2 l))"
  "keeps_identity (\<lambda>l. snd (SL_Unlock t l))" "keeps_identity (\<lambda>l. snd (SL_Extend ttl t l))"
  "keeps_identity (\<lambda>l. snd (SL_IsLocked t l))" "keeps_identity (\<lambda>l. snd (SL_GetTTL t1 t2 l))"
  by (auto simp: keeps_identity_def sl_defs Let_def)


lemma lookup_object:
  assumes "wf_mgr m" and "lookup m key = Some p"
  shows "p < length (heap m)" and "sl_key (heap m ! p) = key"
    and "sl_shard (heap m ! p) = Some (getShard m key)"
  using wf_mgr_registered [OF assms(1) getShard_less [OF wf_mgr_shape [OF assms(1)]]
      assms(2) [unfolded lookup_def]] by blast+

lemma foldl_add_length: "foldl (\<lambda>n x. n + f x) a xs = a + sum_list (map f xs)" for a :: nat
  by (induction xs arbitrary: a) simp_all

lemma card_dom_lookup:
  assumes "wf_mgr m"
  shows "card (dom (lookup m)) = sum_list (map (\<lambda>sh. length (locks sh)) (shards m))"
proof -
  let ?D = "\<lambda>i. dom (map_of (locks (shards m ! i)))"
  have dom: "dom (lookup m) = (\<Union>i<length (shards m). ?D i)"
    using getShard_less [OF wf_mgr_shape [OF assms]] wf_mgr_registered [OF assms]
    unfolding lookup_def dom_def by auto
  have "card (\<Union>i<length (shards m). ?D i) = (\<Sum>i<length (shards m). card (?D i))"
  proof (rule card_UN_disjoint)
    show "\<forall>i\<in>{..<length (shards m)}. \<forall>j\<in>{..<length (shards m)}. i \<noteq> j \<longrightarrow> ?D i \<inter> ?D j = {}"
    proof (intro ballI impI Int_emptyI)
      fix i j k assume "i \<in> {..<length (shards m)}" "j \<in> {..<length (shards m)}" "i \<noteq> j"
        and "k \<in> ?D i" "k \<in> ?D j"
      then have "getShard m k = i" "getShard m k = j" using wf_mgr_registered [OF assms] by auto
      with \<open>i \<noteq> j\<close> show False by simp
    qed
  qed (auto simp: finite_dom_map_of)
  also have "\<dots> = (\<Sum>i<length (shards m). length (locks (shards m ! i)))"
  proof (rule sum.cong)
    fix i assume "i \<in> {..<length (shards m)}"
    then have "distinct (map fst (locks (shards m ! i)))"
      using wf_mgr_wf_map [OF assms] by (simp add: wf_map_def)
    then show "card (?D i) = length (locks (shards m ! i))"
      by (metis card_distinct distinct_card dom_map_of_conv_image_fst length_map list.set_map set_map)
  qed simp
  finally show ?thesis unfolding dom by (simp add: sum_list_sum_nth atLeast0LessThan)
qed

lemma GetLock_from_pool:
  assumes "map_of (locks (shards m ! getShard m k)) k = None"
    and "j < length (pool (shards m ! getShard m k))" and "getShard m k < length (shards m)"
  obtains m' where "GetLock factory (Some j) k m = (pool (shards m ! getShard m k) ! j, m')"
    and "getShard m' = getShard m"
    and "pool (shards m' ! getShard m k) =
      take j (pool (shards m ! getShard m k)) @ drop (Suc j) (pool (shards m ! getShard m k))"
    and "map_of (locks (shards m' ! getShard m k)) =
      (map_of (locks (shards m ! getShard m k)))(k \<mapsto> pool (shards m ! getShard m k) ! j)"
    and "length (shards m') = length (shards m)"
proof -
  let ?i = "getShard m k" and ?p = "pool (shards m ! getShard m k) ! j"
  define m1 where "m1 = upd_shard ?i (\<lambda>sh. sh\<lparr>pool := take j (pool sh) @ drop (Suc j) (pool sh)\<rparr>) m"
  have "GetLock factory (Some j) k m = (?p, register ?i k ?p m1)"
    using assms by (simp add: GetLock_def pool_get_def m1_def register_def Let_def)
  moreover have "getShard (register ?i k ?p m1) = getShard m"
    by (simp add: register_def m1_def heap_defs getShard_def fun_eq_iff)
  moreover have "pool (shards (register ?i k ?p m1) ! ?i) = take j (pool (shards m ! ?i)) @ drop (Suc j) (pool (shards m ! ?i))"
      "map_of (locks (shards (register ?i k ?p m1) ! ?i)) = (map_of (locks (shards m ! ?i)))(k \<mapsto> ?p)"
      "length (shards (register ?i k ?p m1)) = length (shards m)"
    using assms(3) by (simp_all add: register_def m1_def heap_defs)
  ultimately show thesis using that by blast
qed

lemma GetLock_pair:
  assumes "wf_mgr m" and "GetLock factory pick k1 m = (p1, m1)"
    and "GetLock factory' pick' k2 m1 = (p2, m2)"
  shows "(p1 = p2 \<longleftrightarrow> k1 = k2) \<and> lookup m2 = (lookup m)(k1 \<mapsto> p1, k2 \<mapsto> p2) \<and>
    sl_key (heap m2 ! p1) = k1 \<and> sl_key (heap m2 ! p2) = k2"
proof -
  have m: "wf_mgr m" "wf_mgr m1" "wf_mgr m2"
    using wf_mgr_GetLock assms by (metis snd_conv)+
  have l1: "lookup m1 = (lookup m)(k1 \<mapsto> p1)"
    using lookup_GetLock [OF m(1), of factory pick k1] assms(2) by simp
  have l2: "lookup m2 = (lookup m1)(k2 \<mapsto> p2)"
    using lookup_GetLock [OF m(2), of factory' pick' k2] assms(3) by simp
  have same: "p2 = p1" if "k1 = k2"
    using assms(3) l1 that GetLock_registered [of m1 k2 p1] by simp
  then have "lookup m2 k1 = Some p1" using l1 l2 by simp
  moreover have "lookup m2 k2 = Some p2" using l2 by simp
  ultimately have "p1 = p2 \<longleftrightarrow> k1 = k2" "sl_key (heap m2 ! p1) = k1" "sl_key (heap m2 ! p2) = k2"
    using same lookup_inject [OF m(3), of k1 p1 k2] lookup_object(2) [OF m(3)] by metis+
  with l1 l2 show ?thesis by simp
qed

text \<open>A manager with one shard, for the concrete instances.\<close>

definition one_shard :: "'d manager" where
  "one_shard = \<lparr>heap = [], shards = [\<lparr>locks = [], pool = []\<rparr>], shardCount = 1, shardMask = 0, stopped = False\<rparr>"

lemma reached_one_shard: "reached (one_shard, [], [])"
proof (rule reached_new)
  have "pow2_loop 1 1 = Some 1" by (subst pow2_loop.simps) simp
  then show "NewShardedLockManager 1 = Some one_shard"
    by (simp add: NewShardedLockManager_def one_shard_def)
qed

lemma reachable_one_shard: "reachable one_shard"
  by (rule quiet_reachable [OF reached_one_shard])

definition one_lock :: "'d \<Rightarrow> 'd manager" where
  "one_lock d = \<lparr>heap = [new_object d\<lparr>sl_key := ''a'', refCount := 1, sl_shard := Some 0\<rparr>],
     shards = [\<lparr>locks = [(''a'', 0)], pool = []\<rparr>], shardCount = 1, shardMask = 0, stopped = False\<rparr>"

lemma GetLock_one_shard: "GetLock d None ''a'' one_shard = (0, one_lock d)"
  by (simp add: GetLock_def pool_get_def one_shard_def one_lock_def heap_defs getShard_def new_object_def Let_def)

lemma reached_one_lock: "reached (one_lock d, [], [])"
  using quiet_reached_step [OF reached_one_shard step_get [of d None "''a''"]] by (simp add: GetLock_one_shard)

lemma reachable_one_lock: "reachable (one_lock d)"
  using reachable_GetLock [OF reachable_one_shard, of d None "''a''"] by (simp add: GetLock_one_shard)

lemma one_lock_simps [simp]:
  "lookup (one_lock d) = [''a'' \<mapsto> 0]" "getShard (one_lock d) k = 0"
  "shards (one_lock d) ! 0 = \<lparr>locks = [(''a'', 0)], pool = []\<rparr>"
  "heap (one_lock d) ! 0 = new_object d\<lparr>sl_key := ''a'', refCount := 1, sl_shard := Some 0\<rparr>"
  by (auto simp: lookup_def one_lock_def getShard_def)

section \<open>Properties\<close>

text \<open>
  C24: one object per key. Take any manager that goroutines have brought about by interleaving \<open>GetLock\<close>, the
  three steps of \<open>ReleaseLock\<close> (decrement, read of \<open>lock.shard\<close>, cleanup under the mutex), the tests and removals
  of the sweep, methods of the objects and \<open>Close\<close>, provided that no two goroutines were between the read of
  \<open>lock.shard\<close> and the mutex for one object at the same time and that no sweep removed the object of a goroutine
  there (what happens otherwise is C28). Then two calls of \<open>GetLock\<close>, one right after the other, return the same
  object exactly when their keys are equal; the object carries its key, each key is bound to
  the object returned for it, and no other binding changes.
\<close>
theorem GetLock_one_object_per_key:
  assumes "reachable m" and "GetLock factory pick k1 m = (p1, m1)"
    and "GetLock factory' pick' k2 m1 = (p2, m2)"
  shows "(p1 = p2 \<longleftrightarrow> k1 = k2) \<and> lookup m2 = (lookup m)(k1 \<mapsto> p1, k2 \<mapsto> p2) \<and>
    sl_key (heap m2 ! p1) = k1 \<and> sl_key (heap m2 ! p2) = k2"
  by (rule GetLock_pair [OF reachable_wf [OF assms(1)] assms(2,3)])

theorem GetLock_one_object_per_key_witness:
  "fst (GetLock () None ''b'' (one_lock ())) \<noteq> 0"
  using GetLock_one_object_per_key [OF reachable_one_shard GetLock_one_shard
      surjective_pairing [of "GetLock () None ''b'' (one_lock ())"]] by auto

text \<open>
  C25: the background sweep. On a manager brought about as in C24, in particular without the race of C28,
  \<open>performCleanup\<close>, when no other goroutine interferes while it runs, unbinds exactly the keys whose object is free or
  expired and has at most one reference, and leaves every object that stays bound as it was.
\<close>
theorem performCleanup_exact:
  assumes "reachable m"
  shows "lookup (performCleanup now m) = (\<lambda>k. case lookup m k of None \<Rightarrow> None
      | Some p \<Rightarrow>
          if (unlocked (heap m ! p) \<or> expireAt (heap m ! p) < now) \<and> sint (refCount (heap m ! p)) \<le> 1
          then None else Some p) \<and>
    (\<forall>p\<in>ran (lookup (performCleanup now m)). heap (performCleanup now m) ! p = heap m ! p)"
proof -
  note m = reachable_wf [OF assms]
  note sw = sweep_prefix [OF m order.refl, of now, folded performCleanup_def]
  have "getShard m k < length (shards m)" for k by (rule getShard_less [OF wf_mgr_shape [OF m]])
  then have "lookup (performCleanup now m) k = (case lookup m k of None \<Rightarrow> None
      | Some p \<Rightarrow>
          if (unlocked (heap m ! p) \<or> expireAt (heap m ! p) < now) \<and> sint (refCount (heap m ! p)) \<le> 1
          then None else Some p)" for k
    using sw by (simp add: evictable_def time_after_def split: option.split)
  with sw show ?thesis unfolding ran_def by blast
qed

theorem performCleanup_exact_witness: "lookup (performCleanup 5 (one_lock ())) = Map.empty"
  using performCleanup_exact [OF reachable_one_lock, of 5 "()"]
  by (simp add: new_object_def fun_eq_iff)

text \<open>
  the statistics. In a reachable manager \<open>GetStats\<close> reports the number of shards, the
  number of bound keys as \<open>TotalLocks\<close>, and per-shard counts that add up to it.
\<close>
theorem GetStats_counts_keys:
  assumes "reachable m"
  shows "stats_TotalLocks (Manager_GetStats m) = card (dom (lookup m)) \<and>
    sum_list (stats_Shards (Manager_GetStats m)) = stats_TotalLocks (Manager_GetStats m) \<and>
    length (stats_Shards (Manager_GetStats m)) = stats_ShardCount (Manager_GetStats m)"
  using card_dom_lookup [OF reachable_wf [OF assms]] wf_mgr_shape [OF reachable_wf [OF assms]]
  by (auto simp: Manager_GetStats_def foldl_add_length wf_shape_def unat_two_power_u32)


theorem GetStats_counts_keys_witness: "stats_TotalLocks (Manager_GetStats (one_lock ())) = 1"
  using GetStats_counts_keys [OF reachable_one_lock, of "()"] by simp

lemma ReleaseLock_last:
  assumes "wf_mgr m" and "lookup m k = Some p" and "refCount (heap m ! p) = 1"
  shows "ReleaseLock p m = unregister (getShard m k) p (decRef p m)"
    and "lookup (ReleaseLock p m) k = None" and "unlocked (heap (ReleaseLock p m) ! p)"
    and "length (heap (ReleaseLock p m)) = length (heap m)"
proof -
  note obj = lookup_object [OF assms(1,2)]
  have wf: "wf_mgr (decRef p m)"
    unfolding decRef_def by (rule wf_mgr_upd_lock [OF assms(1) keeps_refCount])
  show r: "ReleaseLock p m = unregister (getShard m k) p (decRef p m)"
    using obj assms(3) by (simp add: ReleaseLock_def decRef_def cleanupLock_def cleanup_locked_def upd_lock_def)
  show "lookup (ReleaseLock p m) k = None"
    unfolding r using obj lookup_unregister [OF wf, of p "getShard m k"] assms(2)
    by (simp add: decRef_def) (simp add: upd_lock_def)
  show "unlocked (heap (ReleaseLock p m) ! p)" "length (heap (ReleaseLock p m)) = length (heap m)"
    unfolding r using obj by (simp_all add: unregister_def decRef_def reset_object_def heap_defs)
qed

lemma last_release_pools_object:
  assumes "wf_mgr m" and "lookup m k1 = Some p" and "refCount (heap m ! p) = 1"
    and "lookup m k2 = None" and "getShard m k2 = getShard m k1"
  shows "\<exists>m'. GetLock factory (Some (length (pool (shards m ! getShard m k1)))) k2 (ReleaseLock p m) = (p, m') \<and>
    sl_key (heap m' ! p) = k2 \<and> unlocked (heap m' ! p) \<and> sl_data (heap m' ! p) = sl_data (heap m ! p)"
proof -
  note obj = lookup_object [OF assms(1,2)]
  let ?i = "getShard m k1"
  have i: "?i < length (shards m)" by (rule getShard_less [OF wf_mgr_shape [OF assms(1)]])
  note r = ReleaseLock_last(1) [OF assms(1-3)]
  have "map_of (locks (shards m ! ?i)) k2 = None" using assms(4,5) by (simp add: lookup_def)
  then show ?thesis
    using i obj assms(5) unfolding r
    by (simp add: GetLock_def pool_get_def unregister_def decRef_def reset_object_def heap_defs
        getShard_def Let_def)
qed

text \<open>
  objects keep their data through the pool. When the last reference to the object of \<open>k1\<close>
  is released and \<open>sync.Pool\<close> hands the object out again for a key \<open>k2\<close> of the same shard, the
  new key starts with the data of the old one (its reader count, its waiting queue), not with
  what the factory returns.
\<close>
theorem pooled_object_keeps_data:
  assumes "reachable m" and "lookup m k1 = Some p" and "refCount (heap m ! p) = 1"
    and "lookup m k2 = None" and "getShard m k2 = getShard m k1"
  shows "\<exists>m'. GetLock factory (Some (length (pool (shards m ! getShard m k1)))) k2 (ReleaseLock p m) = (p, m') \<and>
    sl_key (heap m' ! p) = k2 \<and> unlocked (heap m' ! p) \<and> sl_data (heap m' ! p) = sl_data (heap m ! p)"
  by (rule last_release_pools_object [OF reachable_wf [OF assms(1)] assms(2-)])

theorem pooled_object_keeps_data_witness:
  "\<exists>m'. GetLock 0 (Some 0) ''b'' (ReleaseLock 0 (one_lock (7 :: int))) = (0, m') \<and> sl_data (heap m' ! 0) = 7"
  using pooled_object_keeps_data [OF reachable_one_lock, of "7 :: int" "''a''" 0 "''b''" 0]
  by (auto simp: new_object_def)

text \<open>
  C28: a release that races with another release. Two goroutines use one key; the first
  decrements the count to 0 and reads \<open>lock.shard\<close>; the second acquires a reference and releases
  it, and reads the same shard; then both run the cleanup. The object is pooled twice, so
  two different keys can be given the same object.
\<close>
theorem racing_releases_pool_twice:
  assumes "reachable m" and "lookup m k = Some p" and "refCount (heap m ! p) = 1"
    and "m1 = decRef p (snd (GetLock factory pick k (decRef p m)))"
    and "m2 = cleanup_locked (getShard m k) p (cleanup_locked (getShard m k) p m1)"
    and "getShard m k1 = getShard m k" and "getShard m k2 = getShard m k" and "k1 \<noteq> k2"
    and "lookup m k1 = None" and "lookup m k2 = None"
    and "n = Some (length (pool (shards m ! getShard m k)))"
  shows "fst (GetLock factory pick k (decRef p m)) = p \<and> fst (GetLock factory n k1 m2) = p \<and>
    fst (GetLock factory n k2 (snd (GetLock factory n k1 m2))) = p"
proof -
  note wf = reachable_wf [OF assms(1)]
  note obj = lookup_object [OF wf assms(2)]
  let ?i = "getShard m k"
  have i: "?i < length (shards m)" by (rule getShard_less [OF wf_mgr_shape [OF wf]])
  have get: "GetLock factory pick k (decRef p m) = (p, upd_lock p (\<lambda>l. l\<lparr>refCount := refCount l + 1\<rparr>) (decRef p m))"
    by (rule GetLock_registered) (simp add: decRef_def assms(2))
  have m1: "m1 = decRef p m"
    using obj(1) unfolding assms(4) get by (simp add: decRef_def upd_lock_def)
  have m2: "m2 = unregister ?i p (unregister ?i p (decRef p m))"
    using obj(1) assms(3) unfolding assms(5) m1
    by (simp add: cleanup_locked_def decRef_def unregister_def reset_object_def heap_defs)
  define ky where "ky = sl_key (heap m ! p)"
  have sh: "pool (shards m2 ! ?i) = pool (shards m ! ?i) @ [p, p]"
    "locks (shards m2 ! ?i) = AList.delete [] (AList.delete ky (locks (shards m ! ?i)))"
    using obj(1) i unfolding m2
    by (simp_all add: ky_def decRef_def unregister_def reset_object_def heap_defs)
  have len: "getShard m2 = getShard m" "length (shards m2) = length (shards m)"
    unfolding m2 unregister_frame by (simp_all add: decRef_def upd_lock_def getShard_def fun_eq_iff)
  have none: "map_of (locks (shards m ! ?i)) k1 = None" "map_of (locks (shards m ! ?i)) k2 = None"
    using assms(6,7,9,10) by (simp_all add: lookup_def)
  have g1: "map_of (locks (shards m2 ! getShard m2 k1)) k1 = None"
    "length (pool (shards m ! ?i)) < length (pool (shards m2 ! getShard m2 k1))"
    "getShard m2 k1 < length (shards m2)"
    using none assms(6) i by (simp_all add: sh len)
  obtain m3 where "GetLock factory n k1 m2 = (pool (shards m2 ! getShard m2 k1) ! length (pool (shards m ! ?i)), m3)"
    "getShard m3 = getShard m2"
    "pool (shards m3 ! getShard m2 k1) = take (length (pool (shards m ! ?i))) (pool (shards m2 ! getShard m2 k1)) @
       drop (Suc (length (pool (shards m ! ?i)))) (pool (shards m2 ! getShard m2 k1))"
    "map_of (locks (shards m3 ! getShard m2 k1)) = (map_of (locks (shards m2 ! getShard m2 k1)))
       (k1 \<mapsto> pool (shards m2 ! getShard m2 k1) ! length (pool (shards m ! ?i)))"
    "length (shards m3) = length (shards m2)"
    unfolding assms(11) by (rule GetLock_from_pool [OF g1])
  then have m3: "GetLock factory n k1 m2 = (p, m3)" "getShard m3 = getShard m"
    "pool (shards m3 ! ?i) = pool (shards m ! ?i) @ [p]" "map_of (locks (shards m3 ! ?i)) k2 = None"
    "length (shards m3) = length (shards m)"
    using none assms(6,8) by (simp_all add: sh len)
  have g2: "map_of (locks (shards m3 ! getShard m3 k2)) k2 = None"
    "length (pool (shards m ! ?i)) < length (pool (shards m3 ! getShard m3 k2))"
    "getShard m3 k2 < length (shards m3)"
    using m3 assms(7) i by simp_all
  obtain m4 where "GetLock factory n k2 m3 = (pool (shards m3 ! getShard m3 k2) ! length (pool (shards m ! ?i)), m4)"
    unfolding assms(11) by (rule GetLock_from_pool [OF g2])
  with get m3 assms(7) show ?thesis by simp
qed


theorem racing_releases_pool_twice_witness:
  "fst (GetLock () (Some 0) ''b'' (cleanup_locked 0 0 (cleanup_locked 0 0
     (decRef 0 (snd (GetLock () None ''a'' (decRef 0 (one_lock ())))))))) = 0"
  using racing_releases_pool_twice [OF reachable_one_lock, of "()" "''a''" 0, OF _ _ refl refl, of "''b''" "''c''", OF _ _ _ _ _ _ _ refl]
  by (simp add: new_object_def)

end
