(* ===== verification/LocalLocks.thy ===== *)
theory LocalLocks
  imports ShardedManager
begin

text \<open>
  \<open>src/local_simple.go\<close>, \<open>src/local_rw.go\<close>, \<open>src/local_fair.go\<close>: the lock handles of the
  local backend. A handle holds its key and the address of the object \<open>GetLock\<close> returned; its
  methods work on that address, whatever the manager has done with the object since. The
  blocking methods run in a world that holds the manager, which \<open>get\<close> reads and \<open>put\<close> writes.
\<close>

section \<open>Handles\<close>

record handle =
  h_key :: string
  h_lock :: nat

definition on_lock :: "nat \<Rightarrow> ('d ShardedLock \<Rightarrow> 'r \<times> 'd ShardedLock) \<Rightarrow> 'd manager \<Rightarrow> 'r \<times> 'd manager" where
  "on_lock p f m = (case f (heap m ! p) of (r, l) \<Rightarrow> (r, upd_lock p (\<lambda>_. l) m))"

definition newLocalLock :: "'d \<Rightarrow> nat option \<Rightarrow> string \<Rightarrow> 'd manager \<Rightarrow> handle \<times> 'd manager" where
  "newLocalLock factory pick key m =
     (case GetLock factory pick key m of (p, m') \<Rightarrow> (\<lparr>h_key = key, h_lock = p\<rparr>, m'))"

text \<open>
  The three constructors, on the process-wide managers of a backend with \<open>count\<close> shards;
  \<open>None\<close> when initialising the managers does not return.
\<close>

definition newLocalSimpleLock :: "i64 \<Rightarrow> nat option \<Rightarrow> string \<Rightarrow> globals \<Rightarrow> (handle \<times> globals) option" where
  "newLocalSimpleLock count pick key g =
     map_option (\<lambda>(m, g'). case newLocalLock () pick key m of
         (h, m') \<Rightarrow> (h, g'\<lparr>managers := map_option (\<lambda>(_, r, f). (m', r, f)) (managers g')\<rparr>))
       (GetGlobalSimpleLockManager count g)"

definition newLocalRWLock :: "i64 \<Rightarrow> nat option \<Rightarrow> string \<Rightarrow> globals \<Rightarrow> (handle \<times> globals) option" where
  "newLocalRWLock count pick key g =
     map_option (\<lambda>(m, g'). case newLocalLock \<lparr>readers = 0\<rparr> pick key m of
         (h, m') \<Rightarrow> (h, g'\<lparr>managers := map_option (\<lambda>(s, _, f). (s, m', f)) (managers g')\<rparr>))
       (GetGlobalRWLockManager count g)"

definition newLocalFairLock :: "i64 \<Rightarrow> nat option \<Rightarrow> string \<Rightarrow> globals \<Rightarrow> (handle \<times> globals) option" where
  "newLocalFairLock count pick key g =
     map_option (\<lambda>(m, g'). case newLocalLock \<lparr>queue = []\<rparr> pick key m of
         (h, m') \<Rightarrow> (h, g'\<lparr>managers := map_option (\<lambda>(s, r, _). (s, r, m')) (managers g')\<rparr>))
       (GetGlobalFairLockManager count g)"

text \<open>The methods shared by the simple lock and the write side of the read-write lock.\<close>

definition Local_TryLock ::
    "handle \<Rightarrow> LockOption list \<Rightarrow> string \<Rightarrow> gotime \<Rightarrow> gotime \<Rightarrow> 'd manager \<Rightarrow> (bool \<times> err option) \<times> 'd manager" where
  "Local_TryLock h opts uv t1 t2 m = on_lock (h_lock h) (SL_TryLock opts uv t1 t2) m"

definition Local_Unlock :: "handle \<Rightarrow> gotime \<Rightarrow> 'd manager \<Rightarrow> err option \<times> 'd manager" where
  "Local_Unlock h t m =
     (case on_lock (h_lock h) (SL_Unlock t) m of
        (err, m1) \<Rightarrow> (err, if err = None then ReleaseLock (h_lock h) m1 else m1))"

definition Local_Extend ::
    "handle \<Rightarrow> duration \<Rightarrow> gotime \<Rightarrow> 'd manager \<Rightarrow> (bool \<times> err option) \<times> 'd manager" where
  "Local_Extend h ttl t m = on_lock (h_lock h) (SL_Extend ttl t) m"

definition Local_IsLocked :: "handle \<Rightarrow> gotime \<Rightarrow> 'd manager \<Rightarrow> (bool \<times> err option) \<times> 'd manager" where
  "Local_IsLocked h t m = on_lock (h_lock h) (SL_IsLocked t) m"

definition Local_GetTTL ::
    "handle \<Rightarrow> gotime \<Rightarrow> gotime \<Rightarrow> 'd manager \<Rightarrow> (duration \<times> err option) \<times> 'd manager" where
  "Local_GetTTL h t1 t2 m = on_lock (h_lock h) (SL_GetTTL t1 t2) m"

definition Local_GetKey :: "handle \<Rightarrow> string" where "Local_GetKey h = h_key h"

definition Local_GetValue :: "handle \<Rightarrow> 'd manager \<Rightarrow> string" where
  "Local_GetValue h m = SL_GetValue (heap m ! h_lock h)"

text \<open>The blocking \<open>Lock\<close>, in a world that holds the manager.\<close>

definition on_handle :: "('w \<Rightarrow> 'd manager) \<Rightarrow> handle \<Rightarrow> 'w \<Rightarrow> 'd ShardedLock" where
  "on_handle get h w = heap (get w) ! h_lock h"

definition set_handle ::
    "('w \<Rightarrow> 'd manager) \<Rightarrow> ('d manager \<Rightarrow> 'w \<Rightarrow> 'w) \<Rightarrow> handle \<Rightarrow> 'd ShardedLock \<Rightarrow> 'w \<Rightarrow> 'w" where
  "set_handle get put h l w = put (upd_lock (h_lock h) (\<lambda>_. l) (get w)) w"

definition Local_Lock ::
    "'w go_rt \<Rightarrow> ('w \<Rightarrow> 'd manager) \<Rightarrow> ('d manager \<Rightarrow> 'w \<Rightarrow> 'w) \<Rightarrow> handle
       \<Rightarrow> LockOption list \<Rightarrow> 'w \<Rightarrow> (err option \<times> 'w) option" where
  "Local_Lock rt get put h opts = SL_Lock rt (on_handle get h) (set_handle get put h) opts"

text \<open>The write side of the read-write lock: the same calls on the object and the manager.\<close>

definition LRW_Lock ::
    "'w go_rt \<Rightarrow> ('w \<Rightarrow> RWLockData manager) \<Rightarrow> (RWLockData manager \<Rightarrow> 'w \<Rightarrow> 'w) \<Rightarrow> handle
       \<Rightarrow> LockOption list \<Rightarrow> 'w \<Rightarrow> (err option \<times> 'w) option" where
  "LRW_Lock rt get put h opts = SL_Lock rt (on_handle get h) (set_handle get put h) opts"

definition LRW_TryLock ::
    "handle \<Rightarrow> LockOption list \<Rightarrow> string \<Rightarrow> gotime \<Rightarrow> gotime \<Rightarrow> RWLockData manager
       \<Rightarrow> (bool \<times> err option) \<times> RWLockData manager" where
  "LRW_TryLock h opts uv t1 t2 m = on_lock (h_lock h) (SL_TryLock opts uv t1 t2) m"

definition LRW_Unlock :: "handle \<Rightarrow> gotime \<Rightarrow> RWLockData manager \<Rightarrow> err option \<times> RWLockData manager" where
  "LRW_Unlock h t m =
     (case on_lock (h_lock h) (SL_Unlock t) m of
        (err, m1) \<Rightarrow> (err, if err = None then ReleaseLock (h_lock h) m1 else m1))"

definition LRW_Extend ::
    "handle \<Rightarrow> duration \<Rightarrow> gotime \<Rightarrow> RWLockData manager \<Rightarrow> (bool \<times> err option) \<times> RWLockData manager" where
  "LRW_Extend h ttl t m = on_lock (h_lock h) (SL_Extend ttl t) m"

definition LRW_IsLocked :: "handle \<Rightarrow> gotime \<Rightarrow> RWLockData manager \<Rightarrow> (bool \<times> err option) \<times> RWLockData manager" where
  "LRW_IsLocked h t m = on_lock (h_lock h) (SL_IsLocked t) m"

definition LRW_GetTTL ::
    "handle \<Rightarrow> gotime \<Rightarrow> gotime \<Rightarrow> RWLockData manager \<Rightarrow> (duration \<times> err option) \<times> RWLockData manager" where
  "LRW_GetTTL h t1 t2 m = on_lock (h_lock h) (SL_GetTTL t1 t2) m"

definition LRW_GetKey :: "handle \<Rightarrow> string" where "LRW_GetKey h = h_key h"

definition LRW_GetValue :: "handle \<Rightarrow> RWLockData manager \<Rightarrow> string" where
  "LRW_GetValue h m = SL_GetValue (heap m ! h_lock h)"

definition LRW_WLock where "LRW_WLock = LRW_Lock"
definition LRW_TryWLock where "LRW_TryWLock = LRW_TryLock"
definition LRW_WUnlock where "LRW_WUnlock = LRW_Unlock"

text \<open>The read side of the read-write lock.\<close>

definition LRW_TryRLock ::
    "handle \<Rightarrow> gotime \<Rightarrow> RWLockData manager \<Rightarrow> (bool \<times> err option) \<times> RWLockData manager" where
  "LRW_TryRLock h t m = on_lock (h_lock h) (TryRLockRW t) m"

definition LRW_RUnlock :: "handle \<Rightarrow> RWLockData manager \<Rightarrow> err option \<times> RWLockData manager" where
  "LRW_RUnlock h m = on_lock (h_lock h) RUnlockRW m"

definition LRW_GetReadCount :: "handle \<Rightarrow> RWLockData manager \<Rightarrow> int \<times> err option" where
  "LRW_GetReadCount h m = GetReadCountRW (heap m ! h_lock h)"

definition LRW_IsWriteLocked ::
    "handle \<Rightarrow> gotime \<Rightarrow> RWLockData manager \<Rightarrow> (bool \<times> err option) \<times> RWLockData manager" where
  "LRW_IsWriteLocked h t m = LRW_IsLocked h t m"

text \<open>One attempt of \<open>RLock\<close> ignores its options; the retry loop takes its limits from them.\<close>

definition LRW_RLock ::
    "'w go_rt \<Rightarrow> ('w \<Rightarrow> RWLockData manager) \<Rightarrow> (RWLockData manager \<Rightarrow> 'w \<Rightarrow> 'w) \<Rightarrow> handle
       \<Rightarrow> LockOption list \<Rightarrow> 'w \<Rightarrow> (err option \<times> 'w) option" where
  "LRW_RLock rt get put h opts w =
     (case rt_unique rt w of (uv, w1) \<Rightarrow>
        RetryLockOperation rt (NewRetryConfigFromLockOptions (h_key h) opts uv)
          (\<lambda>w. case rt_now rt w of (t, w1) \<Rightarrow>
             (case LRW_TryRLock h t (get w1) of (r, m) \<Rightarrow> (r, put m w1))) w1)"

text \<open>The fair lock.\<close>

definition LF_TryLock ::
    "handle \<Rightarrow> LockOption list \<Rightarrow> string \<Rightarrow> gotime \<Rightarrow> gotime \<Rightarrow> FairLockData manager
       \<Rightarrow> (bool \<times> err option) \<times> FairLockData manager" where
  "LF_TryLock h opts uv t1 t2 m = on_lock (h_lock h) (TryFairLockFair opts uv t1 t2) m"

definition LF_Unlock :: "handle \<Rightarrow> gotime \<Rightarrow> FairLockData manager \<Rightarrow> err option \<times> FairLockData manager" where
  "LF_Unlock h t m =
     (case on_lock (h_lock h) (UnlockFairFair t) m of
        (err, m1) \<Rightarrow> (err, if err = None then ReleaseLock (h_lock h) m1 else m1))"

definition LF_IsLocked ::
    "handle \<Rightarrow> gotime \<Rightarrow> FairLockData manager \<Rightarrow> (bool \<times> err option) \<times> FairLockData manager" where
  "LF_IsLocked h t m = on_lock (h_lock h) (IsLockedFairFair t) m"

definition LF_GetTTL ::
    "handle \<Rightarrow> gotime \<Rightarrow> gotime \<Rightarrow> FairLockData manager \<Rightarrow> (duration \<times> err option) \<times> FairLockData manager" where
  "LF_GetTTL h t1 t2 m = on_lock (h_lock h) (GetTTLFairFair t1 t2) m"

definition LF_Lock ::
    "'w go_rt \<Rightarrow> ('w \<Rightarrow> FairLockData manager) \<Rightarrow> (FairLockData manager \<Rightarrow> 'w \<Rightarrow> 'w) \<Rightarrow> handle
       \<Rightarrow> LockOption list \<Rightarrow> 'w \<Rightarrow> (err option \<times> 'w) option" where
  "LF_Lock rt get put h opts = fair_Lock rt (on_handle get h) (set_handle get put h) (h_key h) opts"

definition LF_Extend ::
    "handle \<Rightarrow> duration \<Rightarrow> gotime \<Rightarrow> FairLockData manager \<Rightarrow> (bool \<times> err option) \<times> FairLockData manager" where
  "LF_Extend h ttl t m = on_lock (h_lock h) (SL_Extend ttl t) m"

definition LF_GetKey :: "handle \<Rightarrow> string" where "LF_GetKey h = h_key h"

definition LF_GetValue :: "handle \<Rightarrow> FairLockData manager \<Rightarrow> string" where
  "LF_GetValue h m = SL_GetValue (heap m ! h_lock h)"

fun index_of :: "int \<Rightarrow> string \<Rightarrow> string list \<Rightarrow> int option" where
  "index_of i value [] = None"
| "index_of i value (v # q) = (if v = value then Some (i + 1) else index_of (i + 1) value q)"

definition LF_GetQueuePosition :: "handle \<Rightarrow> gotime \<Rightarrow> FairLockData manager \<Rightarrow> int \<times> err option" where
  "LF_GetQueuePosition h t m =
     (let l = heap m ! h_lock h; value = SL_GetValue l
      in if \<not> unlocked l \<and> 0 < length (fqueue l) \<and> value = fqueue l ! 0 then (0, None)
         else (case index_of 0 value (fqueue l) of
                 Some i \<Rightarrow> (i, None)
               | None \<Rightarrow> (- 1, Some (NewLockNotFoundError (h_key h) t))))"

definition LF_GetQueueLength :: "handle \<Rightarrow> FairLockData manager \<Rightarrow> nat \<times> err option" where
  "LF_GetQueueLength h m = (length (fqueue (heap m ! h_lock h)), None)"

definition LF_GetQueueInfo :: "handle \<Rightarrow> FairLockData manager \<Rightarrow> string list \<times> err option" where
  "LF_GetQueueInfo h m = (fqueue (heap m ! h_lock h), None)"

lemmas local_defs = Local_TryLock_def Local_Unlock_def Local_IsLocked_def on_lock_def newLocalLock_def

lemma on_lock_result: "fst (on_lock p f m) = fst (f (heap m ! p))"
  by (simp add: on_lock_def split: prod.split)

lemma on_lock_object:
  "p < length (heap m) \<Longrightarrow> heap (snd (on_lock p f m)) ! p = snd (f (heap m ! p))"
  "q \<noteq> p \<Longrightarrow> heap (snd (on_lock p f m)) ! q = heap m ! q"
  "length (heap (snd (on_lock p f m))) = length (heap m)"
  "lookup (snd (on_lock p f m)) = lookup m" "getShard (snd (on_lock p f m)) = getShard m"
  "shards (snd (on_lock p f m)) = shards m"
  by (auto simp: on_lock_def upd_lock_def lookup_def getShard_def fun_eq_iff split: prod.split)

lemma on_lock_shard:
  assumes "keeps_identity (\<lambda>l. snd (f l))"
  shows "sl_shard (heap (snd (on_lock p f m)) ! q) = sl_shard (heap m ! q)"
  using assms by (cases "q = p"; cases "p < length (heap m)")
    (auto simp: on_lock_def upd_lock_def keeps_identity_def list_update_beyond not_less split: prod.splits dest: spec [of _ "heap m ! p"])

lemma wf_mgr_on_lock: "wf_mgr m \<Longrightarrow> keeps_identity (\<lambda>l. snd (f l)) \<Longrightarrow> wf_mgr (snd (on_lock p f m))"
proof -
  assume "wf_mgr m" and k: "keeps_identity (\<lambda>l. snd (f l))"
  have "snd (on_lock p f m) = upd_lock p (\<lambda>l. snd (f l)) m"
    by (simp add: on_lock_def upd_lock_def split: prod.split)
  with wf_mgr_upd_lock [OF \<open>wf_mgr m\<close> k] show "wf_mgr (snd (on_lock p f m))" by simp
qed

text \<open>
  A handle whose object the manager no longer knows: an acquisition through it and one through
  a handle made for the same key afterwards are both granted.
\<close>

lemma new_handle_object:
  assumes "wf_mgr m" and "lookup m k = None" and "newLocalLock factory pick k m = (h', m')"
  shows "unlocked (heap m' ! h_lock h') \<and> h_lock h' < length (heap m') \<and> length (heap m) \<le> length (heap m') \<and>
    (pick = None \<longrightarrow> h_lock h' = length (heap m))"
    and "q < length (heap m) \<Longrightarrow> q \<noteq> h_lock h' \<Longrightarrow> heap m' ! q = heap m ! q"
proof -
  let ?pl = "pool (shards m ! getShard m k)"
  have "\<forall>p\<in>set ?pl. p < length (heap m)"
    using wf_mgr_pooled [OF assms(1) getShard_less [OF wf_mgr_shape [OF assms(1)]]] by blast
  then have "\<And>j. j < length ?pl \<Longrightarrow> ?pl ! j < length (heap m)" by simp
  then show "unlocked (heap m' ! h_lock h') \<and> h_lock h' < length (heap m') \<and> length (heap m) \<le> length (heap m') \<and>
      (pick = None \<longrightarrow> h_lock h' = length (heap m))"
    and "q < length (heap m) \<Longrightarrow> q \<noteq> h_lock h' \<Longrightarrow> heap m' ! q = heap m ! q"
    using assms(2,3)
    by (auto simp: newLocalLock_def GetLock_def pool_get_def lookup_def heap_defs Let_def nth_append
        split: option.splits if_splits)
qed

lemma detached_handle_no_exclusion:
  assumes "wf_mgr m1" and "h_lock h < length (heap m1)" and "unlocked (heap m1 ! h_lock h)"
    and "lookup m1 k = None"
    and "Local_TryLock h opts1 uv1 t1 t1' m1 = (r1, m2)"
    and "newLocalLock factory pick k m2 = (h', m3)"
    and "Local_TryLock h' opts2 uv2 t2 t2' m3 = (r2, m4)"
  shows "r1 = (True, None) \<and> r2 = (True, None) \<and> (pick = None \<longrightarrow> h_lock h' \<noteq> h_lock h) \<and>
    (h_lock h' \<noteq> h_lock h \<longrightarrow> sl_lease (t, heap m4 ! h_lock h) =
      Some (Value (ApplyLockOptions opts1 uv1), t1' + sint (LockTTL (ApplyLockOptions opts1 uv1)))) \<and>
    sl_lease (t, heap m4 ! h_lock h') =
      Some (Value (ApplyLockOptions opts2 uv2), t2' + sint (LockTTL (ApplyLockOptions opts2 uv2)))"
proof -
  have r1: "r1 = fst (SL_TryLock opts1 uv1 t1 t1' (heap m1 ! h_lock h))"
    "heap m2 ! h_lock h = snd (SL_TryLock opts1 uv1 t1 t1' (heap m1 ! h_lock h))"
    "length (heap m2) = length (heap m1)" "lookup m2 k = None"
    using on_lock_result [of "h_lock h" "SL_TryLock opts1 uv1 t1 t1'" m1]
      on_lock_object [where m = m1 and f = "SL_TryLock opts1 uv1 t1 t1'" and p = "h_lock h"] assms(2,4,5)
    by (simp_all add: Local_TryLock_def)
  have wf2: "wf_mgr m2"
    using wf_mgr_on_lock [OF assms(1) object_methods_keep_identity(1)] assms(5) 
    by (metis Local_TryLock_def snd_conv)
  note h' = new_handle_object [OF wf2 r1(4) assms(6)]
  have r2: "r2 = fst (SL_TryLock opts2 uv2 t2 t2' (heap m3 ! h_lock h'))"
    "heap m4 ! h_lock h' = snd (SL_TryLock opts2 uv2 t2 t2' (heap m3 ! h_lock h'))"
    "q \<noteq> h_lock h' \<Longrightarrow> heap m4 ! q = heap m3 ! q" for q
    using on_lock_result [of "h_lock h'" "SL_TryLock opts2 uv2 t2 t2'" m3]
      on_lock_object [where m = m3 and f = "SL_TryLock opts2 uv2 t2 t2'" and p = "h_lock h'"]
      assms(7) h'(1)
    by (simp_all add: Local_TryLock_def)
  show ?thesis using assms(2,3) r1 h'(1) h'(2) [of "h_lock h"] r2(1,2) r2(3) [of "h_lock h"]
    by (auto simp: SL_TryLock_def sl_lease_def time_add_def Let_def)
qed

lemma Local_Unlock_last:
  fixes t :: gotime
  assumes "wf_mgr m" and "lookup m k = Some (h_lock h)" and "refCount (heap m ! h_lock h) = 1"
    and "\<not> unlocked (heap m ! h_lock h)"
  defines "m0 \<equiv> snd (on_lock (h_lock h) (SL_Unlock t) m)"
  shows "Local_Unlock h t m = (None, ReleaseLock (h_lock h) m0)"
    and "wf_mgr m0" and "lookup m0 = lookup m" and "refCount (heap m0 ! h_lock h) = 1"
    and "unlocked (heap m0 ! h_lock h)" and "h_lock h < length (heap m0)"
proof -
  note p = lookup_object(1) [OF assms(1,2)]
  show "Local_Unlock h t m = (None, ReleaseLock (h_lock h) m0)"
    using assms(4) by (simp add: Local_Unlock_def m0_def on_lock_def SL_Unlock_def split: prod.split)
  show "wf_mgr m0" unfolding m0_def
    by (rule wf_mgr_on_lock [OF assms(1) object_methods_keep_identity(2)])
  show "lookup m0 = lookup m" "refCount (heap m0 ! h_lock h) = 1" "unlocked (heap m0 ! h_lock h)"
    "h_lock h < length (heap m0)"
    using p assms(3,4) by (simp_all add: m0_def on_lock_object SL_Unlock_def)
qed


lemma reachable_on_lock:
  assumes "reachable m" and "keeps_identity (\<lambda>l. snd (f l))"
  shows "reachable (snd (on_lock p f m))"
proof -
  have "snd (on_lock p f m) = upd_lock p (\<lambda>l. snd (f l)) m"
    by (simp add: on_lock_def upd_lock_def split: prod.split)
  with reachable_object [OF assms] show ?thesis by simp
qed

text \<open>For the concrete instances: the only object of a manager, locked from instant 0 on.\<close>

abbreviation the_handle :: handle where
  "the_handle \<equiv> \<lparr>h_key = ''a'', h_lock = 0\<rparr>"

definition held_lock :: "'d \<Rightarrow> 'd manager" where
  "held_lock d = snd (on_lock 0 (SL_TryLock [] ''x'' 0 0) (one_lock d))"

lemma held_lock_facts:
  "reachable (held_lock d)" "lookup (held_lock d) ''a'' = Some 0" "lookup (held_lock d) ''b'' = None"
  "refCount (heap (held_lock d) ! 0) = 1" "\<not> unlocked (heap (held_lock d) ! 0)"
  "getShard (held_lock d) k = 0" "sl_data (heap (held_lock d) ! 0) = d"
  unfolding held_lock_def
  by (rule reachable_on_lock [OF reachable_one_lock object_methods_keep_identity(1)])
     (simp_all add: on_lock_def upd_lock_def SL_TryLock_def one_lock_def new_object_def lookup_def
        getShard_def Let_def)

section \<open>A held lock among all other goroutines\<close>

text \<open>
  What the other goroutines must not do to the object \<open>p\<close> while it is leased up to \<open>E\<close>: a method of the object may not
  unlock it or shorten the lease (\<open>keeps_lease\<close>; of the methods only \<open>Unlock\<close>, and \<open>Extend\<close> to an
  earlier instant, do), the reference count may not be found at 0, and the sweep has no reason to look at it
  after \<open>E\<close>. Everything else is allowed, on this object and on all others.
\<close>

definition keeps_lease :: "gotime \<Rightarrow> ('d ShardedLock \<Rightarrow> 'd ShardedLock) \<Rightarrow> bool" where
  "keeps_lease E f \<longleftrightarrow> (\<forall>l. \<not> unlocked l \<and> E \<le> expireAt l \<longrightarrow>
     \<not> unlocked (f l) \<and> E \<le> expireAt (f l) \<and> sl_value (f l) = sl_value l)"

lemma methods_keep_lease:
  "t1 \<le> E \<Longrightarrow> keeps_lease E (\<lambda>l. snd (SL_TryLock opts uv t1 t2 l))"
  "t \<le> E \<Longrightarrow> keeps_lease E (\<lambda>l. snd (SL_IsLocked t l))"
  "t1 \<le> E \<Longrightarrow> keeps_lease E (\<lambda>l. snd (SL_GetTTL t1 t2 l))"
  "E \<le> t + sint ttl \<Longrightarrow> keeps_lease E (\<lambda>l. snd (SL_Extend ttl t l))"
  by (auto simp: keeps_lease_def sl_defs Let_def time_after_def time_add_def)

fun spares :: "nat \<Rightarrow> gotime \<Rightarrow> 'd mgr_label \<Rightarrow> 'd mgr_state \<Rightarrow> bool" where
  "spares p E (MObject q f) (m, w, ms) = (q = p \<longrightarrow> keeps_lease E f)"
| "spares p E (MCleanup q i) (m, w, ms) = (q = p \<longrightarrow> 0 < sint (refCount (heap m ! p)))"
| "spares p E (MMark now q) (m, w, ms) = (q = p \<longrightarrow> now \<le> E)"
| "spares p E l s = True"

fun leased_at :: "string \<Rightarrow> nat \<Rightarrow> string \<Rightarrow> gotime \<Rightarrow> 'd mgr_state \<Rightarrow> bool" where
  "leased_at k p v E (m, w, ms) = (lookup m k = Some p \<and> \<not> unlocked (heap m ! p) \<and> E \<le> expireAt (heap m ! p) \<and>
     sl_value (heap m ! p) = v \<and> p \<notin> set ms)"

lemma GetLock_keeps_object:
  assumes "wf_mgr m" and "lookup m k = Some p"
  shows "lookup (snd (GetLock factory pick key m)) k = Some p"
    and "unlocked (heap (snd (GetLock factory pick key m)) ! p) = unlocked (heap m ! p) \<and>
      expireAt (heap (snd (GetLock factory pick key m)) ! p) = expireAt (heap m ! p) \<and>
      sl_value (heap (snd (GetLock factory pick key m)) ! p) = sl_value (heap m ! p)"
proof -
  note p = lookup_object [OF assms]
  show "lookup (snd (GetLock factory pick key m)) k = Some p"
    using lookup_GetLock [OF assms(1), of factory pick key] GetLock_registered [OF assms(2), of factory pick] assms(2)
    by (cases "k = key") simp_all
  show "unlocked (heap (snd (GetLock factory pick key m)) ! p) = unlocked (heap m ! p) \<and>
      expireAt (heap (snd (GetLock factory pick key m)) ! p) = expireAt (heap m ! p) \<and>
      sl_value (heap (snd (GetLock factory pick key m)) ! p) = sl_value (heap m ! p)"
  proof (cases "lookup m key")
    case (Some q)
    with p(1) show ?thesis by (cases "q = p") (simp_all add: GetLock_registered upd_lock_def)
  next
    case None
    have "p \<notin> set (pool (shards m ! getShard m key))"
      using wf_mgr_pooled [OF assms(1) getShard_less [OF wf_mgr_shape [OF assms(1)]]] p(3) by fastforce
    then have "\<And>j. j < length (pool (shards m ! getShard m key)) \<Longrightarrow> pool (shards m ! getShard m key) ! j \<noteq> p"
      by (metis nth_mem)
    with None p(1) show ?thesis
      by (auto simp: GetLock_def lookup_def pool_get_def Let_def heap_defs nth_append nth_list_update
          split: option.split)
  qed
qed

lemma unregister_other:
  assumes "wf_mgr m" and "lookup m k = Some p" and "q < length (heap m)" and "sl_shard (heap m ! q) = Some i" and "q \<noteq> p"
  shows "lookup (unregister i q m) k = Some p" and "heap (unregister i q m) ! p = heap m ! p"
  using assms by (simp_all add: lookup_unregister unregister_frame)

lemma leased_step:
  assumes "mgr_step l s s'" and "race_free s" and "wf_mgr (fst s)" and "spares p E l s" and "leased_at k p v E s"
  shows "leased_at k p v E s'"
  using assms(1)
proof cases
  case (step_get factory pick key m w ms)
  with assms(3,5) GetLock_keeps_object [of m k p factory pick key] show ?thesis by simp
next
  case (step_cleanup q i w m ms)
  have "q < length (heap m)" "sl_shard (heap m ! q) = Some i"
    using assms(2) step_cleanup by (auto simp: race_free_def list_all_iff)
  with assms(3-5) step_cleanup unregister_other [of m k p q i] show ?thesis
    by (cases "q = p") (auto simp: cleanup_locked_def)
next
  case (step_mark q m now w ms)
  with assms(4,5) show ?thesis by (auto simp: evictable_def time_after_def)
next
  case (step_evict q ms m i w)
  with assms(5) have "q \<noteq> p" by auto
  with assms(3,5) step_evict unregister_other [of m k p q i] show ?thesis by auto
next
  case (step_object f q m w ms)
  with assms(3-5) lookup_object(1) [of m k p] show ?thesis
    by (cases "q = p") (auto simp: upd_lock_def keeps_lease_def lookup_def getShard_def)
next
  case (step_close m m' w ms)
  with assms(5) show ?thesis by (auto simp: Manager_Close_def lookup_def getShard_def split: if_splits)
qed (use assms(3,5) in \<open>auto simp: decRef_def upd_lock_def lookup_def getShard_def nth_list_update split: if_splits\<close>)

lemma granted_run:
  assumes "reached (m, w, ms)" and "lookup m k = Some (h_lock h)" and "h_lock h \<notin> set ms"
    and "Local_TryLock h opts uv t1 t1' m = ((True, None), m1)"
    and "E = t1' + sint (LockTTL (ApplyLockOptions opts uv))"
    and "mgr_run (spares (h_lock h) E) (m1, w, ms) (m2, w2, ms2)"
  shows "wf_mgr m2 \<and> leased_at k (h_lock h) (Value (ApplyLockOptions opts uv)) E (m2, w2, ms2)"
proof -
  let ?f = "SL_TryLock opts uv t1 t1'"
  have m1: "m1 = snd (on_lock (h_lock h) ?f m)" "fst (?f (heap m ! h_lock h)) = (True, None)"
    using assms(4) on_lock_result [of "h_lock h" ?f m] by (simp_all add: Local_TryLock_def)
  have "mgr_step (MObject (h_lock h) (\<lambda>l. snd (?f l))) (m, w, ms) (upd_lock (h_lock h) (\<lambda>l. snd (?f l)) m, w, ms)"
    by (rule step_object) (rule object_methods_keep_identity)
  moreover have "upd_lock (h_lock h) (\<lambda>l. snd (?f l)) m = m1"
    by (simp add: m1(1) on_lock_def upd_lock_def split: prod.split)
  ultimately have wf1: "wf_mgr m1" and rf1: "race_free (m1, w, ms)"
    using reached_wf [OF assms(1)] by (auto simp: m1(1) race_free_def list_all_iff on_lock_shard on_lock_object(3) wf_mgr_on_lock object_methods_keep_identity)
  have p: "h_lock h < length (heap m)" using lookup_object(1) [OF _ assms(2)] reached_wf [OF assms(1)] by simp
  have start: "leased_at k (h_lock h) (Value (ApplyLockOptions opts uv)) E (m1, w, ms)"
    using m1(2) p assms(2,3,5) by (auto simp: m1(1) on_lock_object SL_TryLock_def Let_def time_add_def split: if_splits)
  have "race_free s' \<and> wf_mgr (fst s') \<and> leased_at k p v E s'"
    if "mgr_run (spares p E) s s'" "race_free s" "wf_mgr (fst s)" "leased_at k p v E s" for p v and s s' :: "'a mgr_state"
    using that by (induction rule: mgr_run.induct) (auto dest: wf_mgr_step leased_step)
  from this [OF assms(6) rf1 _ start] wf1 show ?thesis by simp
qed

lemma two_handles:
  assumes "reachable m" and "newLocalLock factory pick k1 m = (h1, m1)"
    and "newLocalLock factory' pick' k2 m1 = (h2, m2)"
    and "Local_TryLock h1 opts1 uv1 t1 t1' m2 = ((True, None), m3)"
    and "t2 \<le> t1' + sint (LockTTL (ApplyLockOptions opts1 uv1))"
  shows "fst (Local_TryLock h2 opts2 uv2 t2 t2' m3) =
    (if k1 = k2 then (False, None) else fst (Local_TryLock h2 opts2 uv2 t2 t2' m2))"
proof -
  note wf = reachable_wf [OF assms(1)]
  have get: "GetLock factory pick k1 m = (h_lock h1, m1)" "GetLock factory' pick' k2 m1 = (h_lock h2, m2)"
    using assms(2,3) by (auto simp: newLocalLock_def split: prod.splits)
  note pair = GetLock_pair [OF wf get]
  have wf2: "wf_mgr m2" using wf_mgr_GetLock [OF wf_mgr_GetLock [OF wf]] get by (metis snd_conv)
  have p1: "h_lock h1 < length (heap m2)"
    using pair lookup_object(1) [OF wf2, of k1] by (cases "k1 = k2") auto
  have g: "fst (SL_TryLock opts1 uv1 t1 t1' (heap m2 ! h_lock h1)) = (True, None)"
    "m3 = snd (on_lock (h_lock h1) (SL_TryLock opts1 uv1 t1 t1') m2)"
    using assms(4) on_lock_result [of "h_lock h1" "SL_TryLock opts1 uv1 t1 t1'" m2]
    by (simp_all add: Local_TryLock_def)
  show ?thesis
  proof (cases "k1 = k2")
    case True
    with pair g p1 assms(5) show ?thesis
      by (auto simp: Local_TryLock_def on_lock_result on_lock_object SL_TryLock_def Let_def
          time_after_def time_add_def split: if_splits)
  next
    case False
    with pair g(2) show ?thesis by (simp add: Local_TryLock_def on_lock_result on_lock_object)
  qed
qed

section \<open>Properties\<close>

text \<open>
  C4: handles. Take any manager brought about by interleaved goroutines as in C24 and a handle of the key \<open>k\<close> whose
  object is the one registered under \<open>k\<close> and is not just being swept. Once \<open>TryLock\<close> through it has been granted
  until \<open>E\<close>, let any goroutines go on in any interleaving (again without the race of C28): creating and
  releasing handles, using any object, sweeping. As long as no method unlocks the object of \<open>k\<close> or renews it to an
  earlier instant, no cleanup finds its count at 0 and \<open>E\<close> has not passed, the grant stands, and any handle \<open>h2\<close> whose
  object is registered under its key \<open>k2\<close> shares the object exactly when \<open>k2 = k\<close>: then \<open>TryLock\<close> through it is refused,
  and otherwise the answer is the same whatever is done to the object of \<open>k\<close>.
\<close>
theorem handles_exclude_or_are_independent:
  assumes "reached (m, w, ms)" and "lookup m k = Some (h_lock h)" and "h_lock h \<notin> set ms"
    and "Local_TryLock h opts uv t1 t1' m = ((True, None), m1)"
    and "E = t1' + sint (LockTTL (ApplyLockOptions opts uv))"
    and "mgr_run (spares (h_lock h) E) (m1, w, ms) (m2, w2, ms2)"
    and "lookup m2 k2 = Some (h_lock h2)" and "t2 \<le> E"
  shows "\<not> unlocked (heap m2 ! h_lock h) \<and> sl_value (heap m2 ! h_lock h) = Value (ApplyLockOptions opts uv) \<and>
    E \<le> expireAt (heap m2 ! h_lock h) \<and> (h_lock h2 = h_lock h \<longleftrightarrow> k2 = k) \<and>
    fst (Local_TryLock h2 opts2 uv2 t2 t2' m2) =
      (if k2 = k then (False, None) else fst (Local_TryLock h2 opts2 uv2 t2 t2' (upd_lock (h_lock h) f m2)))"
proof -
  note run = granted_run [OF assms(1-6)]
  have "h_lock h2 = h_lock h \<longleftrightarrow> k2 = k"
    using run assms(7) lookup_inject [of m2 k2 "h_lock h" k] by auto
  with run assms(8) show ?thesis
    by (auto simp: Local_TryLock_def on_lock_result SL_TryLock_def time_after_def Let_def upd_lock_def)
qed

theorem handles_exclude_or_are_independent_witness:
  "fst (Local_TryLock the_handle [] ''y'' 5 5 (snd (GetLock () None ''a''
     (snd (Local_TryLock the_handle [] ''x'' 0 0 (one_lock ())))))) = (False, None)"
proof -
  let ?m1 = "snd (Local_TryLock the_handle [] ''x'' 0 0 (one_lock ()))" and ?E = "0 + sint (LockTTL (ApplyLockOptions [] ''x''))"
  have len: "length (heap (one_lock ())) = 1" by (simp add: one_lock_def)
  have g: "Local_TryLock the_handle [] ''x'' 0 0 (one_lock ()) = ((True, None), ?m1)"
    by (simp add: Local_TryLock_def on_lock_def SL_TryLock_def Let_def new_object_def)
  have l1: "lookup ?m1 ''a'' = Some 0" by (simp add: Local_TryLock_def on_lock_object)
  have "mgr_run (spares 0 ?E) (?m1, [], []) (snd (GetLock () None ''a'' ?m1), [], [])"
    by (rule run_more [OF run_start _ step_get]) (simp_all add: race_free_def in_window_def)
  from handles_exclude_or_are_independent [OF reached_one_lock _ _ g refl, of "''a''" "snd (GetLock () None ''a'' ?m1)" "[]" "[]"
      "''a''" the_handle 5] this l1
  show ?thesis by (simp add: Apply_LockTTL default_config_def GetLock_registered)
qed

text \<open>
  C26: \<open>Unlock\<close> detaches its handle. If a handle is the only reference to its object, \<open>Unlock\<close> (with nobody
  in between) puts the object into the pool of its shard and the key is forgotten; a handle that is used
  again afterwards is granted the lock of an object that is registered under no key. Then a new handle of the same key
  is granted the lock too, whatever object \<open>sync.Pool\<close> picks for it. If that is another object, for instance
  a new one, both goroutines hold the lock at the same time, with their own values, for their own leases;
  if it is the object just put back, the second grant overwrites the first while it still runs.
\<close>
theorem unlock_detaches_handle:
  assumes "reachable m" and "lookup m k = Some (h_lock h)" and "refCount (heap m ! h_lock h) = 1"
    and "\<not> unlocked (heap m ! h_lock h)"
    and "Local_Unlock h t0 m = (r0, m1)"
    and "Local_TryLock h opts1 uv1 t1 t1' m1 = (r1, m2)"
    and "newLocalLock factory pick k m2 = (h', m3)"
    and "Local_TryLock h' opts2 uv2 t2 t2' m3 = (r2, m4)"
  shows "r0 = None \<and> lookup m1 k = None \<and> h_lock h \<in> set (pool (shards m1 ! getShard m1 k)) \<and>
    h_lock h \<notin> ran (lookup m2) \<and> r1 = (True, None) \<and> r2 = (True, None) \<and>
    (pick = None \<longrightarrow> h_lock h' \<noteq> h_lock h) \<and>
    sl_lease (t, heap m4 ! h_lock h') =
      Some (Value (ApplyLockOptions opts2 uv2), t2' + sint (LockTTL (ApplyLockOptions opts2 uv2))) \<and>
    (h_lock h' \<noteq> h_lock h \<longrightarrow> sl_lease (t, heap m4 ! h_lock h) =
      Some (Value (ApplyLockOptions opts1 uv1), t1' + sint (LockTTL (ApplyLockOptions opts1 uv1))))"
proof -
  note u = Local_Unlock_last [OF reachable_wf [OF assms(1)] assms(2-4), of t0]
  define m0 where "m0 = snd (on_lock (h_lock h) (SL_Unlock t0) m)"
  note u = u [folded m0_def]
  have m1: "r0 = None" "m1 = ReleaseLock (h_lock h) m0" using u(1) assms(5) by simp_all
  have look: "lookup m0 k = Some (h_lock h)" using u(3) assms(2) by simp
  note last = ReleaseLock_last [OF u(2) look u(4)]
  have wf1: "wf_mgr m1" and free: "h_lock h < length (heap m1)" "unlocked (heap m1 ! h_lock h)" "lookup m1 k = None"
    unfolding m1(2) using last u(6) wf_mgr_ReleaseLock [OF u(2,6)] by simp_all
  have pooled: "h_lock h \<in> set (pool (shards m1 ! getShard m1 k))" "sl_shard (heap m1 ! h_lock h) = None"
    unfolding m1(2) last(1) using u(6) getShard_less [OF wf_mgr_shape [OF u(2)], of k]
    by (simp_all add: unregister_def reset_object_def decRef_def heap_defs getShard_def)
  have "lookup m1 key \<noteq> Some (h_lock h)" for key
    using lookup_object(3) [OF wf1, of key "h_lock h"] pooled(2) by auto
  moreover have "lookup m2 = lookup m1" using assms(6) on_lock_object(4) by (metis Local_TryLock_def snd_conv)
  ultimately have "h_lock h \<notin> ran (lookup m2)" by (auto simp: ran_def)
  with detached_handle_no_exclusion [OF wf1 free assms(6-8)] m1(1) pooled free(3) show ?thesis by blast
qed

theorem unlock_detaches_handle_witness:
  "fst (Local_Unlock the_handle 1 (held_lock ())) = None"
  using unlock_detaches_handle [of "held_lock ()" "''a''" the_handle 1, OF _ _ _ _
      surjective_pairing surjective_pairing surjective_pairing surjective_pairing]
  by (simp add: held_lock_facts)

text \<open>
  the background sweep detaches idle handles. A handle that exists but does not hold the
  lock, and is the only reference to its object, does not protect it from \<open>performCleanup\<close> (the
  sweep asks for at most one reference, not for none). After a sweep, the handle and a new handle
  of the same key can both hold the lock.
\<close>
theorem sweep_detaches_idle_handle:
  assumes "reachable m" and "lookup m k = Some (h_lock h)" and "refCount (heap m ! h_lock h) = 1"
    and "unlocked (heap m ! h_lock h)"
    and "m1 = performCleanup now m"
    and "Local_TryLock h opts1 uv1 t1 t1' m1 = (r1, m2)"
    and "newLocalLock factory None k m2 = (h', m3)"
    and "Local_TryLock h' opts2 uv2 t2 t2' m3 = (r2, m4)"
  shows "r1 = (True, None) \<and> r2 = (True, None) \<and> h_lock h' \<noteq> h_lock h \<and>
    sl_lease (t, heap m4 ! h_lock h) =
      Some (Value (ApplyLockOptions opts1 uv1), t1' + sint (LockTTL (ApplyLockOptions opts1 uv1))) \<and>
    sl_lease (t, heap m4 ! h_lock h') =
      Some (Value (ApplyLockOptions opts2 uv2), t2' + sint (LockTTL (ApplyLockOptions opts2 uv2)))"
proof -
  note wf = reachable_wf [OF assms(1)]
  have sw: "wf_mgr m1" "\<forall>k. lookup m1 k = (case lookup m k of None \<Rightarrow> None
       | Some p \<Rightarrow> if getShard m k < length (shards m) \<and> evictable now (heap m ! p) then None else Some p)"
    using sweep_prefix [OF wf order.refl, of now] by (simp_all add: assms(5) performCleanup_def)
  have "lookup m1 k = None"
    using sw(2) assms(2-4) getShard_less [OF wf_mgr_shape [OF wf]] by (simp add: evictable_def)
  moreover have "h_lock h < length (heap m1)" "unlocked (heap m1 ! h_lock h)"
    using performCleanup_frame [of now m "h_lock h"] lookup_object(1) [OF wf assms(2)] assms(4,5) by simp_all
  ultimately show ?thesis
    using detached_handle_no_exclusion [OF sw(1) _ _ _ assms(6-8)] by blast
qed


theorem sweep_detaches_idle_handle_witness:
  "fst (Local_TryLock the_handle [] ''x'' 2 2 (performCleanup 1 (one_lock ()))) = (True, None)"
  using sweep_detaches_idle_handle [of "one_lock ()" "''a''" the_handle, OF _ _ _ _ refl
      surjective_pairing surjective_pairing surjective_pairing]
  by (simp add: reachable_one_lock new_object_def)

text \<open>
  C27: a recycled object has two owners. After the \<open>Unlock\<close> of C26, \<open>sync.Pool\<close> may give the
  same object to a key \<open>k2\<close> of the same shard. The old handle of \<open>k1\<close> then still works on it:
  its \<open>Unlock\<close> releases the lock that the handle of \<open>k2\<close> has just been granted, without error.
\<close>
theorem recycled_object_aliases_keys:
  assumes "reachable m" and "lookup m k1 = Some (h_lock h1)" and "refCount (heap m ! h_lock h1) = 1"
    and "\<not> unlocked (heap m ! h_lock h1)" and "lookup m k2 = None" and "getShard m k2 = getShard m k1"
  shows "\<exists>pick h2 m2. newLocalLock factory pick k2 (snd (Local_Unlock h1 t0 m)) = (h2, m2) \<and>
    h_key h2 = k2 \<and> h_lock h2 = h_lock h1 \<and>
    fst (Local_TryLock h2 opts uv t1 t1' m2) = (True, None) \<and>
    fst (Local_Unlock h1 t2 (snd (Local_TryLock h2 opts uv t1 t1' m2))) = None \<and>
    fst (Local_IsLocked h2 t3 (snd (Local_Unlock h1 t2 (snd (Local_TryLock h2 opts uv t1 t1' m2))))) = (False, None)"
proof -
  note u = Local_Unlock_last [OF reachable_wf [OF assms(1)] assms(2-4), of t0]
  define m0 where "m0 = snd (on_lock (h_lock h1) (SL_Unlock t0) m)"
  note u = u [folded m0_def]
  let ?p = "h_lock h1"
  have look: "lookup m0 k1 = Some ?p" "lookup m0 k2 = None" "getShard m0 k2 = getShard m0 k1"
    using u(3) assms(2,5,6) by (simp_all add: m0_def on_lock_object)
  from last_release_pools_object [OF u(2) look(1) u(4) look(2,3), of factory] obtain pick m2 where
    m2: "GetLock factory pick k2 (ReleaseLock ?p m0) = (?p, m2)" "unlocked (heap m2 ! ?p)" by blast
  have wf2: "wf_mgr m2"
    using wf_mgr_GetLock [OF wf_mgr_ReleaseLock [OF u(2,6)], of factory pick k2] m2(1) by simp
  have look2: "lookup m2 k2 = Some ?p"
    using lookup_GetLock [OF wf_mgr_ReleaseLock [OF u(2,6)], of factory pick k2] m2(1) by simp
  have p2: "?p < length (heap m2)" by (rule lookup_object(1) [OF wf2 look2])
  define m3 where "m3 = snd (on_lock ?p (SL_TryLock opts uv t1 t1') m2)"
  have m3: "\<not> unlocked (heap m3 ! ?p)" "length (heap m3) = length (heap m2)"
    "fst (on_lock ?p (SL_TryLock opts uv t1 t1') m2) = (True, None)"
    using m2(2) p2 by (simp_all add: m3_def on_lock_object on_lock_result SL_TryLock_def Let_def)
  define m4 where "m4 = snd (on_lock ?p (SL_Unlock t2) m3)"
  have m4: "fst (on_lock ?p (SL_Unlock t2) m3) = None" "unlocked (heap m4 ! ?p)"
    "length (heap m4) = length (heap m3)"
    using m3 p2 by (simp_all add: m4_def on_lock_object on_lock_result SL_Unlock_def)
  have rel: "unlocked (heap (ReleaseLock ?p m4) ! ?p)"
    using m4 m3 p2 by (auto simp: ReleaseLock_def decRef_def cleanupLock_def cleanup_locked_def
        unregister_def reset_object_def heap_defs Let_def split: option.splits)
  have unl: "Local_Unlock h1 t2 m3 = (None, ReleaseLock ?p m4)"
    using m4(1) by (simp add: Local_Unlock_def m4_def case_prod_beta)
  have "fst (Local_IsLocked h t3 (ReleaseLock ?p m4)) = (False, None)" if "h_lock h = ?p" for h
    using rel that by (simp add: Local_IsLocked_def on_lock_result SL_IsLocked_def)
  then show ?thesis
    using m2(1) m3(3) u(1) unl
    by (intro exI [of _ pick] exI [of _ "\<lparr>h_key = k2, h_lock = ?p\<rparr>"] exI [of _ m2])
       (simp add: newLocalLock_def Local_TryLock_def m3_def)
qed

theorem recycled_object_aliases_keys_witness:
  "\<exists>pick h2 m2. newLocalLock () pick ''b'' (snd (Local_Unlock the_handle 1 (held_lock ()))) = (h2, m2) \<and>
    h_lock h2 = 0"
proof -
  have "lookup (held_lock ()) ''a'' = Some (h_lock the_handle)"
    "refCount (heap (held_lock ()) ! h_lock the_handle) = 1"
    "\<not> unlocked (heap (held_lock ()) ! h_lock the_handle)"
    "getShard (held_lock ()) ''b'' = getShard (held_lock ()) ''a''"
    by (simp_all add: held_lock_facts)
  from recycled_object_aliases_keys [OF held_lock_facts(1) this(1-3) held_lock_facts(3) this(4), of "()" 1]
  show ?thesis unfolding handle.select_convs by blast
qed


lemma LF_Unlock_last:
  fixes t :: gotime
  assumes "wf_mgr m" and "lookup m k = Some (h_lock h)" and "refCount (heap m ! h_lock h) = 1"
    and "\<not> unlocked (heap m ! h_lock h)"
  defines "m0 \<equiv> snd (on_lock (h_lock h) (UnlockFairFair t) m)"
  shows "LF_Unlock h t m = (None, ReleaseLock (h_lock h) m0)"
    and "wf_mgr m0" and "lookup m0 = lookup m" and "refCount (heap m0 ! h_lock h) = 1"
    and "fqueue (heap m0 ! h_lock h) = tl (fqueue (heap m ! h_lock h))"
proof -
  note p = lookup_object(1) [OF assms(1,2)]
  show "LF_Unlock h t m = (None, ReleaseLock (h_lock h) m0)"
    using assms(4) by (simp add: LF_Unlock_def m0_def on_lock_def UnlockFairFair_def split: prod.split)
  show "wf_mgr m0" unfolding m0_def
    by (rule wf_mgr_on_lock [OF assms(1)]) (simp add: keeps_identity_def UnlockFairFair_def drop_head_def)
  show "lookup m0 = lookup m" "refCount (heap m0 ! h_lock h) = 1"
    "fqueue (heap m0 ! h_lock h) = tl (fqueue (heap m ! h_lock h))"
    using p assms(3,4) by (simp_all add: m0_def on_lock_object UnlockFairFair_def drop_head_def)
qed

text \<open>
  a recycled fair lock starts with somebody else's queue. If the holder of the fair lock of
  \<open>k1\<close> unlocks it with the last reference while refused requests (of callers that have
  given up) are still queued, the object may be given to a key \<open>k2\<close> of the same shard with
  that queue, and then no sequence of operations on the new lock ever acquires it, unless a
  request uses the value that happens to be at the head.
\<close>
theorem recycled_queue_blocks_new_key:
  assumes "reachable m" and "lookup m k1 = Some (h_lock h1)" and "refCount (heap m ! h_lock h1) = 1"
    and "\<not> unlocked (heap m ! h_lock h1)" and "fqueue (heap m ! h_lock h1) = v # u # us"
    and "lookup m k2 = None" and "getShard m k2 = getShard m k1"
    and "\<forall>e\<in>set es. requests e \<noteq> Some u"
  shows "\<exists>pick h2 m2. newLocalLock \<lparr>queue = []\<rparr> pick k2 (snd (LF_Unlock h1 t m)) = (h2, m2) \<and>
    h_key h2 = k2 \<and> fqueue (heap m2 ! h_lock h2) = u # us \<and>
    (\<forall>(e, r) \<in> set (zip es (fst (run fair_step es (now, heap m2 ! h_lock h2)))). \<not> sl_granted e r)"
proof -
  note un = LF_Unlock_last [OF reachable_wf [OF assms(1)] assms(2-4), of t]
  define m0 where "m0 = snd (on_lock (h_lock h1) (UnlockFairFair t) m)"
  note un = un [folded m0_def]
  have look: "lookup m0 k1 = Some (h_lock h1)" "lookup m0 k2 = None" "getShard m0 k2 = getShard m0 k1"
    using un(3) assms(2,6,7) by (simp_all add: m0_def on_lock_object)
  from last_release_pools_object [OF un(2) look(1) un(4) look(2,3), of "\<lparr>queue = []\<rparr>"]
  obtain pick m2 where m2: "GetLock \<lparr>queue = []\<rparr> pick k2 (ReleaseLock (h_lock h1) m0) = (h_lock h1, m2)"
    "unlocked (heap m2 ! h_lock h1)" "fqueue (heap m2 ! h_lock h1) = u # us"
    using un(5) assms(5) by auto
  then have "stuck u (snd (now, heap m2 ! h_lock h1))" by (simp add: stuck_def)
  from stuck_run [OF this assms(8)] m2 un(1) show ?thesis
    by (intro exI [of _ pick] exI [of _ "\<lparr>h_key = k2, h_lock = h_lock h1\<rparr>"] exI [of _ m2])
       (simp add: newLocalLock_def)
qed

theorem recycled_queue_blocks_new_key_witness:
  "\<exists>pick h2 m2. newLocalLock \<lparr>queue = []\<rparr> pick ''b'' (snd (LF_Unlock the_handle 9 (held_lock \<lparr>queue = [''x'', ''y'']\<rparr>))) = (h2, m2) \<and>
    fqueue (heap m2 ! h_lock h2) = [''y'']"
proof -
  let ?m = "held_lock \<lparr>queue = [''x'', ''y'']\<rparr>"
  have "lookup ?m ''a'' = Some (h_lock the_handle)" "refCount (heap ?m ! h_lock the_handle) = 1"
    "\<not> unlocked (heap ?m ! h_lock the_handle)" "fqueue (heap ?m ! h_lock the_handle) = [''x'', ''y'']"
    "getShard ?m ''b'' = getShard ?m ''a''"
    "\<forall>e\<in>set [(1, 0, TryLockOp [WithValue ''z''] ''z'')]. requests e \<noteq> Some ''y''"
    by (simp_all add: held_lock_facts WithValue_def ApplyLockOptions_def default_config_def)
  from recycled_queue_blocks_new_key [OF held_lock_facts(1) this(1-4) held_lock_facts(3) this(5,6), of 9]
  show ?thesis by blast
qed

text \<open>
  \<open>GetQueuePosition\<close> looks up the value stored in the shared object, which is the holder's,
  not the caller's: while the fair lock is held, every handle of the key is told 0, the position
  of the holder, a waiter that has just been refused and queued last included.
\<close>
theorem GetQueuePosition_is_the_holders:
  assumes "h_lock h < length (heap m)" and "h_lock h' = h_lock h"
    and "LF_TryLock h opts uv t1 t1' m = ((True, None), m1)"
    and "LF_TryLock h' opts' uv' t2 t2' m1 = (r, m2)"
    and "t2 \<le> t1' + sint (LockTTL (ApplyLockOptions opts uv))"
  shows "r = (False, None) \<and> LF_GetQueuePosition h' t m2 = (0, None) \<and>
    1 < length (fst (LF_GetQueueInfo h' m2)) \<and>
    last (fst (LF_GetQueueInfo h' m2)) = Value (ApplyLockOptions opts' uv')"
proof -
  let ?l = "heap m ! h_lock h" and ?f1 = "TryFairLockFair opts uv t1 t1'" and ?f2 = "TryFairLockFair opts' uv' t2 t2'"
  have m1: "m1 = snd (on_lock (h_lock h) ?f1 m)" "fst (?f1 ?l) = (True, None)"
    using assms(3) on_lock_result [of "h_lock h" ?f1 m] by (simp_all add: LF_TryLock_def)
  have m2: "m2 = snd (on_lock (h_lock h) ?f2 m1)" "fst (?f2 (heap m1 ! h_lock h)) = r"
    using assms(2,4) on_lock_result [of "h_lock h" ?f2 m1] by (simp_all add: LF_TryLock_def)
  have l1: "heap m1 ! h_lock h = snd (?f1 ?l)" "length (heap m1) = length (heap m)"
    using assms(1) by (simp_all add: m1(1) on_lock_object)
  have l2: "heap m2 ! h_lock h' = snd (?f2 (snd (?f1 ?l)))"
    using assms(1,2) l1 by (simp add: m2(1) on_lock_object)
  have held: "\<not> unlocked (snd (?f1 ?l))" "fqueue (snd (?f1 ?l)) \<noteq> []"
    "hd (fqueue (snd (?f1 ?l))) = sl_value (snd (?f1 ?l))"
    "expireAt (snd (?f1 ?l)) = t1' + sint (LockTTL (ApplyLockOptions opts uv))"
    using m1(2) by (auto simp: TryFairLockFair_def Let_def drop_head_def time_add_def split: if_splits)
  have f2: "?f2 l = ((False, None), set_queue (fqueue l @ [Value (ApplyLockOptions opts' uv')]) l)"
    if "\<not> unlocked l" "t2 \<le> expireAt l" for l
    using that by (simp add: TryFairLockFair_def time_after_def Let_def)
  have "?f2 (snd (?f1 ?l)) = ((False, None),
      set_queue (fqueue (snd (?f1 ?l)) @ [Value (ApplyLockOptions opts' uv')]) (snd (?f1 ?l)))"
    by (rule f2) (use held assms(5) in simp_all)
  then show ?thesis using held l1 l2 m2(2)
    by (simp add: LF_GetQueuePosition_def LF_GetQueueInfo_def SL_GetValue_def Let_def nth_append hd_conv_nth)
qed


theorem GetQueuePosition_is_the_holders_witness:
  "LF_GetQueuePosition the_handle 7 (snd (LF_TryLock the_handle [] ''y'' 5 5
     (snd (LF_TryLock the_handle [] ''x'' 0 0 (one_lock \<lparr>queue = []\<rparr>))))) = (0, None)"
proof -
  have g: "LF_TryLock the_handle [] ''x'' 0 0 (one_lock \<lparr>queue = []\<rparr>) =
      ((True, None), snd (LF_TryLock the_handle [] ''x'' 0 0 (one_lock \<lparr>queue = []\<rparr>)))"
    by (simp add: LF_TryLock_def on_lock_def TryFairLockFair_def new_object_def Let_def)
  have "h_lock the_handle < length (heap (one_lock \<lparr>queue = []\<rparr>))" by (simp add: one_lock_def)
  from GetQueuePosition_is_the_holders [OF this refl g surjective_pairing] show ?thesis
    by (simp add: Apply_LockTTL default_config_def)
qed

end
