(* ===== verification/RedisServer.thy ===== *)
theory RedisServer
  imports Retry Lease
begin

text \<open>
  The third-party side of the distributed locks, as parameters. The server is a function
  \<open>exec\<close> that runs one command (its words) on a server state; \<open>fmt\<close> is the client library's
  rendering of \<open>d.Seconds()\<close>, a \<open>float64\<close>, as an argument. What the locks rely on is stated
  in the locales \<open>redis_server\<close> and \<open>redis_client\<close>: the documented replies and effects of the
  commands the scripts use, over a view \<open>db\<close> of the state (a key's value and the millisecond at
  which it expires, if any), and that time passes. A reference server interprets them.
\<close>

section \<open>Replies, the Lua side of a script, and the client\<close>

datatype reply = RInt int | RStr string | ROk | RNil | RList "reply list" | RErr string

datatype rval = VStr string | VList "string list"

type_synonym 's server = "string list \<Rightarrow> 's \<Rightarrow> reply \<times> 's"

text \<open>
  \<open>redis.call\<close> in a script: an error reply aborts the script (what it has done stays done), any
  other reply is passed on. A nil reply is Lua's \<open>false\<close>.
\<close>

definition redis_call ::
    "'s server \<Rightarrow> string list \<Rightarrow> (reply \<Rightarrow> 's \<Rightarrow> reply \<times> 's) \<Rightarrow> 's \<Rightarrow> reply \<times> 's" where
  "redis_call exec cmd cont s =
     (case exec cmd s of (r, s') \<Rightarrow> (case r of RErr e \<Rightarrow> (RErr e, s') | _ \<Rightarrow> cont r s'))"

definition lua_return :: "reply \<Rightarrow> 's \<Rightarrow> reply \<times> 's" where
  "lua_return r s = (r, s)"

definition truthy :: "reply \<Rightarrow> bool" where
  "truthy r \<longleftrightarrow> r \<noteq> RNil"

text \<open>
  One round trip of the client: the request may not reach the server, or its reply may be lost
  after the server has run it. Nil is an error of the client library.

  go-redis repeats a request whose round trip failed with a network error (\<open>MaxRetries\<close>, three times unless
  configured otherwise). \<open>client_eval\<close> is one attempt, the last, whose fate the caller sees. The earlier ones did
  not reach the server or lost their reply: along a run of steps each of those is a request event
  of its own, \<open>ReplyLost\<close>, with the same script and the same arguments, before the last; in the blocking
  methods the function \<open>send\<close>, which yields the fate of the last attempt, may have changed the
  world, and with it the server, as earlier attempts do.
\<close>

datatype net = Delivered | NotSent string | ReplyLost string

definition client_eval :: "net \<Rightarrow> ('s \<Rightarrow> reply \<times> 's) \<Rightarrow> 's \<Rightarrow> (err + reply) \<times> 's" where
  "client_eval net script s =
     (case net of
        NotSent e \<Rightarrow> (Inl (PlainErr e), s)
      | ReplyLost e \<Rightarrow> (Inl (PlainErr e), snd (script s))
      | Delivered \<Rightarrow>
          (case script s of
             (RErr e, s') \<Rightarrow> (Inl (PlainErr e), s')
           | (RNil, s') \<Rightarrow> (Inl (PlainErr ''redis: nil''), s')
           | (r, s') \<Rightarrow> (Inr r, s')))"

text \<open>The result conversions \<open>Int()\<close> and \<open>Slice()\<close>.\<close>

definition as_int :: "err + reply \<Rightarrow> err + int" where
  "as_int x = (case x of
       Inl e \<Rightarrow> Inl e
     | Inr (RInt n) \<Rightarrow> Inr n
     | Inr (RStr w) \<Rightarrow> (case parse_int w of Some n \<Rightarrow> Inr n | None \<Rightarrow> Inl (PlainErr ''invalid syntax''))
     | Inr r \<Rightarrow> Inl (PlainErr ''redis: unexpected type''))"

definition as_slice :: "err + reply \<Rightarrow> err + reply list" where
  "as_slice x = (case x of
       Inl e \<Rightarrow> Inl e
     | Inr (RList rs) \<Rightarrow> Inr rs
     | Inr r \<Rightarrow> Inl (PlainErr ''redis: unexpected type''))"

definition as_strings :: "err + reply \<Rightarrow> err + string list" where
  "as_strings x = (case as_slice x of
       Inl e \<Rightarrow> Inl e
     | Inr rs \<Rightarrow> Inr (map (\<lambda>r. case r of RStr w \<Rightarrow> w | _ \<Rightarrow> '''') rs))"

lemma client_eval_Delivered:
  "client_eval Delivered script s =
     ((case fst (script s) of RErr e \<Rightarrow> Inl (PlainErr e) | RNil \<Rightarrow> Inl (PlainErr ''redis: nil'') | r \<Rightarrow> Inr r),
      snd (script s))"
  by (cases "script s"; cases "fst (script s)") (auto simp: client_eval_def)

lemma client_eval_state:
  "snd (client_eval net script s) = (case net of NotSent e \<Rightarrow> s | _ \<Rightarrow> snd (script s))"
  by (auto simp: client_eval_Delivered split: net.split) (auto simp: client_eval_def)

lemma redis_call_ok:
  "(\<And>e. fst (exec cmd s) \<noteq> RErr e) \<Longrightarrow> redis_call exec cmd cont s = cont (fst (exec cmd s)) (snd (exec cmd s))"
  by (cases "exec cmd s"; cases "fst (exec cmd s)") (auto simp: redis_call_def)

lemma redis_call_err:
  "fst (exec cmd s) = RErr e \<Longrightarrow> redis_call exec cmd cont s = (RErr e, snd (exec cmd s))"
  by (cases "exec cmd s") (auto simp: redis_call_def)

section \<open>What the documentation of Redis says\<close>

definition is_err :: "reply \<Rightarrow> bool" where
  "is_err r \<longleftrightarrow> (\<exists>e. r = RErr e)"

lemma is_err_simps [simp]: "is_err (RErr e)" "\<not> is_err (RInt n)" "\<not> is_err (RStr w)" "\<not> is_err ROk"
  "\<not> is_err RNil" "\<not> is_err (RList rs)"
  by (auto simp: is_err_def)

text \<open>A positive decimal integer, in the range of the expiry times that a \<open>time.Duration\<close> gives.\<close>

definition expiry :: "string \<Rightarrow> int option" where
  "expiry w = (case parse_int w of Some n \<Rightarrow> if 0 < n \<and> n < 2 ^ 60 then Some n else None | None \<Rightarrow> None)"

definition bad_expiry :: "string \<Rightarrow> bool" where
  "bad_expiry w \<longleftrightarrow> (case parse_int w of Some n \<Rightarrow> n \<le> 0 | None \<Rightarrow> True)"

type_synonym keyspace = "string \<Rightarrow> (rval \<times> int option) option"

text \<open>Commands that read or write the one key they name.\<close>

definition key_commands :: "string list" where
  "key_commands = [''EXISTS'', ''GET'', ''SET'', ''DEL'', ''EXPIRE'', ''PEXPIRE'', ''TTL'', ''PTTL'', ''INCR'', ''DECR'',
     ''RPUSH'', ''LPOP'', ''LINDEX'', ''LREM'', ''LLEN'', ''LRANGE'']"

lemma key_commands_mem [simp]:
  "''EXISTS'' \<in> set key_commands"
  "''GET'' \<in> set key_commands"
  "''SET'' \<in> set key_commands"
  "''DEL'' \<in> set key_commands"
  "''EXPIRE'' \<in> set key_commands"
  "''PEXPIRE'' \<in> set key_commands"
  "''TTL'' \<in> set key_commands"
  "''PTTL'' \<in> set key_commands"
  "''INCR'' \<in> set key_commands"
  "''DECR'' \<in> set key_commands"
  "''RPUSH'' \<in> set key_commands"
  "''LPOP'' \<in> set key_commands"
  "''LINDEX'' \<in> set key_commands"
  "''LREM'' \<in> set key_commands"
  "''LLEN'' \<in> set key_commands"
  "''LRANGE'' \<in> set key_commands"
  by (simp_all add: key_commands_def)

locale redis_server =
  fixes exec :: "'s server" and db :: "'s \<Rightarrow> keyspace" and now_ms :: "'s \<Rightarrow> int"
    and elapse :: "nat \<Rightarrow> 's \<Rightarrow> 's"
  assumes now_exec [simp]: "now_ms (snd (exec cmd s)) = now_ms s"
    and now_elapse [simp]: "now_ms (elapse d s) = now_ms s + int d"
    and alive: "db s k = Some (x, Some E) \<Longrightarrow> now_ms s < E"
    and db_elapse: "db (elapse d s) k = (case db s k of
        Some (x, Some E) \<Rightarrow> if E \<le> now_ms s + int d then None else Some (x, Some E) | y \<Rightarrow> y)"
    and db_frame: "c \<in> set key_commands \<Longrightarrow> j \<noteq> k \<Longrightarrow> db (snd (exec (c # k # args) s)) j = db s j"
    and exec_EXISTS: "fst (exec [''EXISTS'', k] s) = RInt (if db s k = None then 0 else 1)"
    and db_EXISTS [simp]: "db (snd (exec [''EXISTS'', k] s)) = db s"
    and exec_GET: "fst (exec [''GET'', k] s) = (case db s k of
        Some (VStr v, E) \<Rightarrow> RStr v | None \<Rightarrow> RNil | Some (VList q, E) \<Rightarrow> RErr ''WRONGTYPE'')"
    and db_GET [simp]: "db (snd (exec [''GET'', k] s)) = db s"
    and exec_SET_NX: "expiry w = Some n \<Longrightarrow>
        fst (exec [''SET'', k, v, ''NX'', ''EX'', w] s) = (if db s k = None then ROk else RNil)"
    and db_SET_NX: "expiry w = Some n \<Longrightarrow> db (snd (exec [''SET'', k, v, ''NX'', ''EX'', w] s)) =
        (if db s k = None then (db s)(k \<mapsto> (VStr v, Some (now_ms s + 1000 * n))) else db s)"
    and exec_SET: "expiry w = Some n \<Longrightarrow> fst (exec [''SET'', k, v, ''EX'', w] s) = ROk"
    and db_SET: "expiry w = Some n \<Longrightarrow> db (snd (exec [''SET'', k, v, ''EX'', w] s)) =
        (db s)(k \<mapsto> (VStr v, Some (now_ms s + 1000 * n)))"
    and exec_SET_err: "bad_expiry w \<Longrightarrow> is_err (fst (exec [''SET'', k, v, ''EX'', w] s)) \<and>
        is_err (fst (exec [''SET'', k, v, ''NX'', ''EX'', w] s))"
    and db_SET_err: "bad_expiry w \<Longrightarrow> db (snd (exec [''SET'', k, v, ''EX'', w] s)) = db s \<and>
        db (snd (exec [''SET'', k, v, ''NX'', ''EX'', w] s)) = db s"
    and exec_DEL: "fst (exec [''DEL'', k] s) = RInt (if db s k = None then 0 else 1)"
    and db_DEL [simp]: "db (snd (exec [''DEL'', k] s)) = (db s)(k := None)"
    and exec_EXPIRE: "expiry w = Some n \<Longrightarrow>
        fst (exec [''EXPIRE'', k, w] s) = RInt (if db s k = None then 0 else 1)"
    and db_EXPIRE: "expiry w = Some n \<Longrightarrow> db (snd (exec [''EXPIRE'', k, w] s)) =
        (db s)(k := map_option (\<lambda>(x, E). (x, Some (now_ms s + 1000 * n))) (db s k))"
    and exec_EXPIRE_err: "parse_int w = None \<Longrightarrow> is_err (fst (exec [''EXPIRE'', k, w] s))"
    and db_EXPIRE_err: "parse_int w = None \<Longrightarrow> db (snd (exec [''EXPIRE'', k, w] s)) = db s"
    and exec_EXPIRE_past: "parse_int w = Some n \<Longrightarrow> n \<le> 0 \<Longrightarrow>
        fst (exec [''EXPIRE'', k, w] s) = RInt (if db s k = None then 0 else 1)"
    and db_EXPIRE_past: "parse_int w = Some n \<Longrightarrow> n \<le> 0 \<Longrightarrow>
        db (snd (exec [''EXPIRE'', k, w] s)) = (db s)(k := None)"
    and exec_PEXPIRE: "expiry w = Some n \<Longrightarrow>
        fst (exec [''PEXPIRE'', k, w] s) = RInt (if db s k = None then 0 else 1)"
    and db_PEXPIRE: "expiry w = Some n \<Longrightarrow> db (snd (exec [''PEXPIRE'', k, w] s)) =
        (db s)(k := map_option (\<lambda>(x, E). (x, Some (now_ms s + n))) (db s k))"
    and exec_PEXPIRE_past: "parse_int w = Some n \<Longrightarrow> n \<le> 0 \<Longrightarrow>
        fst (exec [''PEXPIRE'', k, w] s) = RInt (if db s k = None then 0 else 1)"
    and db_PEXPIRE_past: "parse_int w = Some n \<Longrightarrow> n \<le> 0 \<Longrightarrow>
        db (snd (exec [''PEXPIRE'', k, w] s)) = (db s)(k := None)"
    and exec_TTL: "fst (exec [''TTL'', k] s) = RInt (case db s k of None \<Rightarrow> - 2
        | Some (x, None) \<Rightarrow> - 1 | Some (x, Some E) \<Rightarrow> (E - now_ms s + 500) div 1000)"
    and db_TTL [simp]: "db (snd (exec [''TTL'', k] s)) = db s"
    and exec_PTTL: "fst (exec [''PTTL'', k] s) = RInt (case db s k of None \<Rightarrow> - 2
        | Some (x, None) \<Rightarrow> - 1 | Some (x, Some E) \<Rightarrow> E - now_ms s)"
    and db_PTTL [simp]: "db (snd (exec [''PTTL'', k] s)) = db s"
    and exec_INCR: "db s k = None \<Longrightarrow> fst (exec [''INCR'', k] s) = RInt 1"
      "db s k = Some (VStr (dec i), eo) \<Longrightarrow> - (2 ^ 63) \<le> i \<Longrightarrow> i < 2 ^ 63 - 1 \<Longrightarrow> fst (exec [''INCR'', k] s) = RInt (i + 1)"
    and db_INCR: "db s k = None \<Longrightarrow> db (snd (exec [''INCR'', k] s)) = (db s)(k \<mapsto> (VStr (dec 1), None))"
      "db s k = Some (VStr (dec i), eo) \<Longrightarrow> - (2 ^ 63) \<le> i \<Longrightarrow> i < 2 ^ 63 - 1 \<Longrightarrow>
         db (snd (exec [''INCR'', k] s)) = (db s)(k \<mapsto> (VStr (dec (i + 1)), eo))"
    and exec_DECR: "db s k = Some (VStr (dec i), eo) \<Longrightarrow> - (2 ^ 63) < i \<Longrightarrow> i < 2 ^ 63 \<Longrightarrow>
         fst (exec [''DECR'', k] s) = RInt (i - 1)"
    and db_DECR: "db s k = Some (VStr (dec i), eo) \<Longrightarrow> - (2 ^ 63) < i \<Longrightarrow> i < 2 ^ 63 \<Longrightarrow>
         db (snd (exec [''DECR'', k] s)) = (db s)(k \<mapsto> (VStr (dec (i - 1)), eo))"
begin

text \<open>Programs (scripts and their parts) that leave a key alone.\<close>

definition leaves :: "string \<Rightarrow> ('s \<Rightarrow> reply \<times> 's) \<Rightarrow> bool" where
  "leaves j prog \<longleftrightarrow> (\<forall>s. db (snd (prog s)) j = db s j)"

lemma leaves_return: "leaves j (lua_return r)"
  by (simp add: leaves_def lua_return_def)

lemma leaves_call:
  assumes "c \<in> set key_commands" and "j \<noteq> k" and "\<And>r. leaves j (cont r)"
  shows "leaves j (redis_call exec (c # k # args) cont)"
  unfolding leaves_def
proof
  fix s
  show "db (snd (redis_call exec (c # k # args) cont s)) j = db s j"
  proof (cases "exec (c # k # args) s")
    case (Pair r s')
    then have "db s' j = db s j" using db_frame [OF assms(1,2), of args s] by simp
    with Pair assms(3) show ?thesis by (auto simp: leaves_def redis_call_def split: reply.split)
  qed
qed

lemma leaves_if: "(b \<Longrightarrow> leaves j p) \<Longrightarrow> (\<not> b \<Longrightarrow> leaves j q) \<Longrightarrow> leaves j (if b then p else q)"
  by simp

lemma leaves_option:
  "(x = None \<Longrightarrow> leaves j p) \<Longrightarrow> (\<And>y. x = Some y \<Longrightarrow> leaves j (q y)) \<Longrightarrow>
     leaves j (case x of None \<Rightarrow> p | Some y \<Rightarrow> q y)"
  by (cases x) simp_all

lemmas leaves_rules = leaves_return leaves_call leaves_if leaves_option

lemma leavesD: "leaves j prog \<Longrightarrow> db (snd (prog s)) j = db s j"
  by (simp add: leaves_def)

lemma call_EXISTS: "redis_call exec [''EXISTS'', k] cont s =
    cont (RInt (if db s k = None then 0 else 1)) (snd (exec [''EXISTS'', k] s))"
  by (simp add: redis_call_ok exec_EXISTS)

lemma call_DEL: "redis_call exec [''DEL'', k] cont s =
    cont (RInt (if db s k = None then 0 else 1)) (snd (exec [''DEL'', k] s))"
  by (simp add: redis_call_ok exec_DEL)

end

text \<open>The commands on lists, which the fair lock uses.\<close>

locale redis_lists = redis_server exec db now_ms elapse
  for exec :: "'s server" and db :: "'s \<Rightarrow> keyspace" and now_ms :: "'s \<Rightarrow> int"
    and elapse :: "nat \<Rightarrow> 's \<Rightarrow> 's" +
  assumes nonempty: "db s k \<noteq> Some (VList [], E)"
    and exec_RPUSH: "db s k = None \<Longrightarrow> fst (exec [''RPUSH'', k, v] s) = RInt 1"
      "db s k = Some (VList q, E) \<Longrightarrow> fst (exec [''RPUSH'', k, v] s) = RInt (int (length q) + 1)"
    and db_RPUSH: "db s k = None \<Longrightarrow> db (snd (exec [''RPUSH'', k, v] s)) = (db s)(k \<mapsto> (VList [v], None))"
      "db s k = Some (VList q, E) \<Longrightarrow>
         db (snd (exec [''RPUSH'', k, v] s)) = (db s)(k \<mapsto> (VList (q @ [v]), E))"
    and exec_LINDEX: "db s k = None \<Longrightarrow> fst (exec [''LINDEX'', k, ''0''] s) = RNil"
      "db s k = Some (VList (v # q), E) \<Longrightarrow> fst (exec [''LINDEX'', k, ''0''] s) = RStr v"
    and db_LINDEX [simp]: "db (snd (exec [''LINDEX'', k, ''0''] s)) = db s"
    and exec_LPOP: "db s k = Some (VList (v # q), E) \<Longrightarrow> fst (exec [''LPOP'', k] s) = RStr v"
    and db_LPOP: "db s k = Some (VList (v # q), E) \<Longrightarrow> db (snd (exec [''LPOP'', k] s)) =
        (db s)(k := if q = [] then None else Some (VList q, E))"
    and exec_LREM: "db s k = None \<Longrightarrow> fst (exec [''LREM'', k, ''0'', v] s) = RInt 0"
      "db s k = Some (VList q, E) \<Longrightarrow>
         fst (exec [''LREM'', k, ''0'', v] s) = RInt (int (length (filter (\<lambda>x. x = v) q)))"
    and db_LREM: "db s k = None \<Longrightarrow> db (snd (exec [''LREM'', k, ''0'', v] s)) = db s"
      "db s k = Some (VList q, E) \<Longrightarrow> db (snd (exec [''LREM'', k, ''0'', v] s)) =
        (db s)(k := (let q' = removeAll v q in if q' = [] then None else Some (VList q', E)))"
    and exec_LLEN: "db s k = None \<Longrightarrow> fst (exec [''LLEN'', k] s) = RInt 0"
      "db s k = Some (VList q, E) \<Longrightarrow> fst (exec [''LLEN'', k] s) = RInt (int (length q))"
    and db_LLEN [simp]: "db (snd (exec [''LLEN'', k] s)) = db s"
    and exec_LRANGE: "db s k = None \<Longrightarrow> fst (exec [''LRANGE'', k, ''0'', ''-1''] s) = RList []"
      "db s k = Some (VList q, E) \<Longrightarrow> fst (exec [''LRANGE'', k, ''0'', ''-1''] s) = RList (map RStr q)"
    and db_LRANGE [simp]: "db (snd (exec [''LRANGE'', k, ''0'', ''-1''] s)) = db s"

text \<open>
  The client renders \<open>d.Seconds()\<close> as \<open>strconv\<close> formats a \<open>float64\<close>: a whole number of seconds
  without a decimal point, anything else with one, so not as an integer. \<open>Seconds()\<close> rounds to the
  nearest \<open>float64\<close>: from \<open>2 ^ 24\<close> seconds on (194 days) a part of a second of less than a
  microsecond may be lost, and the rendering is then that of the whole number next to it.
\<close>

definition seconds_format :: "(duration \<Rightarrow> string) \<Rightarrow> bool" where
  "seconds_format fmt \<longleftrightarrow> (\<forall>d. if sint d mod 1000000000 = 0 then fmt d = dec (sint d div 1000000000)
     else parse_int (fmt d) = None \<or>
       2 ^ 24 * 1000000000 \<le> \<bar>sint d\<bar> \<and> (\<exists>n. \<bar>1000000000 * n - sint d\<bar> < 1000 \<and> fmt d = dec n))"

lemma seconds_formatD:
  assumes "seconds_format fmt"
  shows "if sint d mod 1000000000 = 0 then fmt d = dec (sint d div 1000000000)
    else parse_int (fmt d) = None \<or>
      2 ^ 24 * 1000000000 \<le> \<bar>sint d\<bar> \<and> (\<exists>n. \<bar>1000000000 * n - sint d\<bar> < 1000 \<and> fmt d = dec n)"
  using assms unfolding seconds_format_def by blast

lemma seconds_format_whole:
  assumes "seconds_format fmt" and "0 < sint d" and "sint d mod 1000000000 = 0"
  shows "expiry (fmt d) = Some (sint d div 1000000000)"
proof -
  define n where "n = sint d div 1000000000"
  have "sint d = 1000000000 * n" using mult_div_mod_eq [of 1000000000 "sint d"] assms(3) by (simp only: n_def add_0_right)
  then have "0 < n" "n < 2 ^ 60" using assms(2) sint_i64_bounds(2) [of d] by simp_all
  moreover have "fmt d = dec n" using seconds_formatD [OF assms(1), of d] assms(3) by (simp only: if_True n_def)
  ultimately show ?thesis unfolding n_def [symmetric] by (simp add: expiry_def)
qed

lemma seconds_format_fraction:
  assumes "seconds_format fmt" and "sint d mod 1000000000 \<noteq> 0" and "\<bar>sint d\<bar> < 2 ^ 24 * 1000000000"
  shows "parse_int (fmt d) = None"
  using seconds_formatD [OF assms(1), of d] assms(2,3) by auto

text \<open>
  The three kinds of rendering: a valid expiry, never shorter than the TTL in milliseconds; an
  integer that is not positive, for a TTL that is not; not an integer.
\<close>

lemma seconds_format_cases:
  assumes "seconds_format fmt"
  obtains (valid) n where "expiry (fmt d) = Some n" and "parse_int (fmt d) = Some n" and "0 < sint d"
      and "sint d div 1000000 \<le> 1000 * n"
  | (past) n where "parse_int (fmt d) = Some n" and "sint d \<le> 0" and "n \<le> 0" and "bad_expiry (fmt d)"
      and "expiry (fmt d) = None"
  | (fraction) "parse_int (fmt d) = None" and "bad_expiry (fmt d)" and "expiry (fmt d) = None"
proof -
  have small: "\<bar>1000000000 * n - sint d\<bar> < 1000 \<Longrightarrow> 0 < n \<Longrightarrow> n < 2 ^ 60" for n
    using sint_i64_bounds(2) [of d] by simp
  have int: thesis if n: "fmt d = dec n" "\<bar>1000000000 * n - sint d\<bar> < 1000" "0 < n \<longleftrightarrow> 0 < sint d" for n
  proof (cases "0 < n")
    case True
    have "sint d div 1000000 \<le> 1000 * n" using n(2) by linarith
    with True n small [OF n(2)] show thesis by (intro valid [of n]) (simp_all add: expiry_def)
  next
    case False
    with n show thesis by (intro past [of n]) (simp_all add: bad_expiry_def expiry_def)
  qed
  show thesis
  proof (cases "sint d mod 1000000000 = 0")
    case True
    have "1000000000 * (sint d div 1000000000) = sint d"
      using mult_div_mod_eq [of 1000000000 "sint d"] True by (simp only: add_0_right)
    moreover have "fmt d = dec (sint d div 1000000000)"
      using seconds_formatD [OF assms, of d] True by (simp only: if_True)
    ultimately show thesis by (intro int [of "sint d div 1000000000"]) linarith+
  next
    case False
    with seconds_formatD [OF assms, of d] have "parse_int (fmt d) = None \<or>
        2 ^ 24 * 1000000000 \<le> \<bar>sint d\<bar> \<and> (\<exists>n. \<bar>1000000000 * n - sint d\<bar> < 1000 \<and> fmt d = dec n)"
      by (simp only: if_False)
    then show thesis
    proof (elim disjE conjE exE)
      assume "parse_int (fmt d) = None"
      then show thesis by (intro fraction) (simp_all add: bad_expiry_def expiry_def)
    next
      fix n assume n: "2 ^ 24 * 1000000000 \<le> \<bar>sint d\<bar>" "\<bar>1000000000 * n - sint d\<bar> < 1000" "fmt d = dec n"
      then have "0 < n \<longleftrightarrow> 0 < sint d" by simp linarith
      with n show thesis by (intro int [of n])
    qed
  qed
qed

text \<open>A granted expiry covers the TTL.\<close>

lemma seconds_format_expiry:
  assumes "seconds_format fmt" and "expiry (fmt d) = Some n"
  shows "0 < sint d" and "sint d div 1000000 \<le> 1000 * n"
  using assms(2) by (cases rule: seconds_format_cases [OF assms(1), where d = d]; simp)+

end
