(* ===== verification/RedisReference.thy ===== *)
theory RedisReference
  imports RedisServer
begin

text \<open>
  A reference server for the commands the locks use: it interprets the locales of
  \<open>RedisServer\<close> (so their laws can all hold together) and serves as the concrete server of the
  instances. \<open>ref_fmt\<close> renders a duration in seconds the way Go formats it, up to the digits of
  a fraction.
\<close>

record ref_state =
  rs_now :: int
  rs_keys :: keyspace

definition live :: "int \<Rightarrow> (rval \<times> int option) option \<Rightarrow> (rval \<times> int option) option" where
  "live now x = (case x of
       Some (VList [], eo) \<Rightarrow> None
     | Some (v, Some E) \<Rightarrow> if E \<le> now then None else Some (v, Some E)
     | y \<Rightarrow> y)"

definition ref_db :: "ref_state \<Rightarrow> keyspace" where
  "ref_db s k = live (rs_now s) (rs_keys s k)"

definition ref_put :: "string \<Rightarrow> (rval \<times> int option) option \<Rightarrow> ref_state \<Rightarrow> ref_state" where
  "ref_put k x s = s\<lparr>rs_keys := (ref_db s)(k := x)\<rparr>"

definition ref_elapse :: "nat \<Rightarrow> ref_state \<Rightarrow> ref_state" where
  "ref_elapse d s = s\<lparr>rs_now := rs_now s + int d, rs_keys := ref_db s\<rparr>"

definition wrongtype :: reply where "wrongtype = RErr ''WRONGTYPE''"
definition notint :: reply where "notint = RErr ''ERR value is not an integer or out of range''"

definition ref_key_cmd :: "string \<Rightarrow> string \<Rightarrow> ref_state \<Rightarrow> reply \<times> ref_state" where
  "ref_key_cmd c k s =
     (let x = ref_db s k; n = RInt (if x = None then 0 else 1) in
      if c = ''EXISTS'' then (n, s)
      else if c = ''DEL'' then (n, ref_put k None s)
      else if c = ''GET'' then
        (case x of None \<Rightarrow> RNil | Some (VStr v, eo) \<Rightarrow> RStr v | Some (VList q, eo) \<Rightarrow> wrongtype, s)
      else if c = ''TTL'' then
        (RInt (case x of None \<Rightarrow> - 2 | Some (v, None) \<Rightarrow> - 1 | Some (v, Some E) \<Rightarrow> (E - rs_now s + 500) div 1000), s)
      else if c = ''PTTL'' then
        (RInt (case x of None \<Rightarrow> - 2 | Some (v, None) \<Rightarrow> - 1 | Some (v, Some E) \<Rightarrow> E - rs_now s), s)
      else if c = ''INCR'' \<or> c = ''DECR'' then
        (let d = (if c = ''INCR'' then 1 else - 1) in
         case x of
           None \<Rightarrow> (RInt d, ref_put k (Some (VStr (dec d), None)) s)
         | Some (VStr v, eo) \<Rightarrow>
             (case parse_int v of
                Some i \<Rightarrow> if i + d < - (2 ^ 63) \<or> 2 ^ 63 \<le> i + d then (notint, s)
                  else (RInt (i + d), ref_put k (Some (VStr (dec (i + d)), eo)) s)
              | None \<Rightarrow> (notint, s))
         | Some (VList q, eo) \<Rightarrow> (wrongtype, s))
      else if c = ''LLEN'' then
        (case x of None \<Rightarrow> RInt 0 | Some (VStr v, eo) \<Rightarrow> wrongtype | Some (VList q, eo) \<Rightarrow> RInt (int (length q)), s)
      else if c = ''LPOP'' then
        (case x of None \<Rightarrow> (RNil, s) | Some (VStr v, eo) \<Rightarrow> (wrongtype, s)
         | Some (VList q, eo) \<Rightarrow> (RStr (hd q), ref_put k (if tl q = [] then None else Some (VList (tl q), eo)) s))
      else (RErr ''ERR unknown command'', s))"

definition ref_exec :: "ref_state server" where
  "ref_exec cmd s = (case cmd of
       [c, k] \<Rightarrow> ref_key_cmd c k s
     | [c, k, a] \<Rightarrow>
         (let x = ref_db s k in
          if c = ''RPUSH'' then
            (case x of None \<Rightarrow> (RInt 1, ref_put k (Some (VList [a], None)) s)
             | Some (VStr v, eo) \<Rightarrow> (wrongtype, s)
             | Some (VList q, eo) \<Rightarrow> (RInt (int (length q) + 1), ref_put k (Some (VList (q @ [a]), eo)) s))
          else if c = ''LINDEX'' then
            (case x of None \<Rightarrow> RNil | Some (VStr v, eo) \<Rightarrow> wrongtype
             | Some (VList q, eo) \<Rightarrow> (if a = ''0'' then RStr (hd q) else RNil), s)
          else if c = ''EXPIRE'' \<or> c = ''PEXPIRE'' then
            (let u = (if c = ''EXPIRE'' then 1000 else 1) in
             case parse_int a of
               None \<Rightarrow> (notint, s)
             | Some n \<Rightarrow>
                 (case x of None \<Rightarrow> (RInt 0, s)
                  | Some (v, eo) \<Rightarrow>
                      (RInt 1, ref_put k (if n \<le> 0 then None else Some (v, Some (rs_now s + u * n))) s)))
          else (RErr ''ERR unknown command'', s))
     | [c, k, a, b] \<Rightarrow>
         (let x = ref_db s k in
          if c = ''LREM'' then
            (case x of None \<Rightarrow> (RInt 0, s) | Some (VStr v, eo) \<Rightarrow> (wrongtype, s)
             | Some (VList q, eo) \<Rightarrow> (RInt (int (length (filter (\<lambda>y. y = b) q))),
                 ref_put k (let q' = removeAll b q in if q' = [] then None else Some (VList q', eo)) s))
          else if c = ''LRANGE'' then
            (case x of None \<Rightarrow> RList [] | Some (VStr v, eo) \<Rightarrow> wrongtype
             | Some (VList q, eo) \<Rightarrow> RList (map RStr q), s)
          else (RErr ''ERR unknown command'', s))
     | [c, k, v, ex, w] \<Rightarrow>
         (case parse_int w of
            None \<Rightarrow> (notint, s)
          | Some n \<Rightarrow> if n \<le> 0 then (RErr ''ERR invalid expire time in set'', s)
              else (ROk, ref_put k (Some (VStr v, Some (rs_now s + 1000 * n))) s))
     | [c, k, v, nx, ex, w] \<Rightarrow>
         (case parse_int w of
            None \<Rightarrow> (notint, s)
          | Some n \<Rightarrow> if n \<le> 0 then (RErr ''ERR invalid expire time in set'', s)
              else if ref_db s k = None then (ROk, ref_put k (Some (VStr v, Some (rs_now s + 1000 * n))) s)
              else (RNil, s))
     | _ \<Rightarrow> (RErr ''ERR unknown command'', s))"

definition ref_fmt :: "duration \<Rightarrow> string" where
  "ref_fmt d = (if sint d mod 1000000000 = 0 then dec (sint d div 1000000000)
     else dec (sint d div 1000000000) @ ''.'' @ dec (sint d mod 1000000000))"

lemma live_alive: "live now x = Some (v, Some E) \<Longrightarrow> now < E"
  by (auto simp: live_def split: option.splits prod.splits rval.splits list.splits if_splits)

lemma live_nonempty: "live now x \<noteq> Some (VList [], eo)"
  by (auto simp: live_def split: option.splits prod.splits rval.splits list.splits if_splits)

lemma live_same:
  assumes "\<And>y E. x = Some (y, Some E) \<Longrightarrow> now < E" and "\<And>eo. x \<noteq> Some (VList [], eo)"
  shows "live now x = x"
proof (cases x)
  case (Some p)
  obtain v eo where "x = Some (v, eo)" using Some by (cases p) auto
  with assms show ?thesis
    by (cases eo; cases v) (auto simp: live_def split: list.split)
qed (simp add: live_def)

lemma ref_db_alive: "ref_db s k = Some (v, Some E) \<Longrightarrow> rs_now s < E"
  unfolding ref_db_def by (rule live_alive)

lemma ref_db_nonempty: "ref_db s k \<noteq> Some (VList [], eo)"
  unfolding ref_db_def by (rule live_nonempty)

lemma live_ref_db [simp]: "live (rs_now s) (ref_db s k) = ref_db s k"
  by (rule live_same) (auto dest: ref_db_alive simp: ref_db_nonempty)

lemma rs_now_put [simp]: "rs_now (ref_put k x s) = rs_now s"
  by (simp add: ref_put_def)

lemma rs_keys_put: "rs_keys (ref_put k x s) = (ref_db s)(k := x)"
  by (simp add: ref_put_def)

lemma ref_db_put:
  assumes "\<And>y E. x = Some (y, Some E) \<Longrightarrow> rs_now s < E" and "\<And>eo. x \<noteq> Some (VList [], eo)"
  shows "ref_db (ref_put k x s) = (ref_db s)(k := x)"
  by (auto simp: fun_eq_iff ref_db_def [of "ref_put k x s"] rs_keys_put live_same [OF assms])

lemma ref_db_elapse: "ref_db (ref_elapse d s) k = live (rs_now s + int d) (ref_db s k)"
  unfolding ref_db_def [of "ref_elapse d s"] by (simp add: ref_elapse_def)

lemma rs_now_key_cmd: "rs_now (snd (ref_key_cmd c k s)) = rs_now s"
  by (simp add: ref_key_cmd_def Let_def split: option.split rval.split prod.split)

lemma rs_now_exec: "rs_now (snd (ref_exec cmd s)) = rs_now s"
  by (simp add: ref_exec_def Let_def rs_now_key_cmd split: list.split option.split rval.split prod.split)

text \<open>A key written back with its old expiry is still alive.\<close>

lemma ref_db_put_keep:
  assumes "ref_db s k = Some (v, eo)" and "\<And>q. y = VList q \<Longrightarrow> q \<noteq> []"
  shows "ref_db (ref_put k (Some (y, eo)) s) = (ref_db s)(k \<mapsto> (y, eo))"
  using assms by (intro ref_db_put) (auto dest: ref_db_alive)

lemma ref_db_puts:
  "ref_db (ref_put k None s) = (ref_db s)(k := None)"
  "ref_db (ref_put k (Some (VStr v, None)) s) = (ref_db s)(k \<mapsto> (VStr v, None))"
  "q \<noteq> [] \<Longrightarrow> ref_db (ref_put k (Some (VList q, None)) s) = (ref_db s)(k \<mapsto> (VList q, None))"
  "rs_now s < E \<Longrightarrow> ref_db (ref_put k (Some (VStr v, Some E)) s) = (ref_db s)(k \<mapsto> (VStr v, Some E))"
  "ref_db s k = Some (x, eo) \<Longrightarrow> ref_db (ref_put k (Some (VStr v, eo)) s) = (ref_db s)(k \<mapsto> (VStr v, eo))"
  "ref_db s k = Some (x, eo) \<Longrightarrow> q \<noteq> [] \<Longrightarrow>
     ref_db (ref_put k (Some (VList q, eo)) s) = (ref_db s)(k \<mapsto> (VList q, eo))"
  "ref_db s k = Some (x, eo) \<Longrightarrow> rs_now s < E \<Longrightarrow>
     ref_db (ref_put k (Some (x, Some E)) s) = (ref_db s)(k \<mapsto> (x, Some E))"
  by (rule ref_db_put; auto dest: ref_db_alive simp: ref_db_nonempty)+

lemma expiry_parse: "expiry w = Some n \<Longrightarrow> parse_int w = Some n \<and> 0 < n"
  by (auto simp: expiry_def split: option.splits if_splits)

lemma ref_cmds:
  "ref_exec [''EXISTS'', k] s = (RInt (if ref_db s k = None then 0 else 1), s)"
  "ref_exec [''DEL'', k] s = (RInt (if ref_db s k = None then 0 else 1), ref_put k None s)"
  "ref_exec [''GET'', k] s = (case ref_db s k of None \<Rightarrow> RNil | Some (VStr v, eo) \<Rightarrow> RStr v
     | Some (VList q, eo) \<Rightarrow> wrongtype, s)"
  "ref_exec [''TTL'', k] s = (RInt (case ref_db s k of None \<Rightarrow> - 2 | Some (v, None) \<Rightarrow> - 1
     | Some (v, Some E) \<Rightarrow> (E - rs_now s + 500) div 1000), s)"
  "ref_exec [''PTTL'', k] s = (RInt (case ref_db s k of None \<Rightarrow> - 2 | Some (v, None) \<Rightarrow> - 1
     | Some (v, Some E) \<Rightarrow> E - rs_now s), s)"
  "ref_db s k = None \<Longrightarrow> ref_exec [''INCR'', k] s = (RInt 1, ref_put k (Some (VStr (dec 1), None)) s)"
  "ref_db s k = Some (VStr (dec i), eo) \<Longrightarrow> - (2 ^ 63) \<le> i \<Longrightarrow> i < 2 ^ 63 - 1 \<Longrightarrow> ref_exec [''INCR'', k] s =
     (RInt (i + 1), ref_put k (Some (VStr (dec (i + 1)), eo)) s)"
  "ref_db s k = Some (VStr (dec i), eo) \<Longrightarrow> - (2 ^ 63) < i \<Longrightarrow> i < 2 ^ 63 \<Longrightarrow> ref_exec [''DECR'', k] s =
     (RInt (i - 1), ref_put k (Some (VStr (dec (i - 1)), eo)) s)"
  "ref_exec [''EXPIRE'', k, w] s = (case parse_int w of None \<Rightarrow> (notint, s) | Some n \<Rightarrow>
     (case ref_db s k of None \<Rightarrow> (RInt 0, s) | Some (v, eo) \<Rightarrow>
        (RInt 1, ref_put k (if n \<le> 0 then None else Some (v, Some (rs_now s + 1000 * n))) s)))"
  "ref_exec [''PEXPIRE'', k, w] s = (case parse_int w of None \<Rightarrow> (notint, s) | Some n \<Rightarrow>
     (case ref_db s k of None \<Rightarrow> (RInt 0, s) | Some (v, eo) \<Rightarrow>
        (RInt 1, ref_put k (if n \<le> 0 then None else Some (v, Some (rs_now s + n))) s)))"
  "ref_exec [''SET'', k, v, ''EX'', w] s = (case parse_int w of None \<Rightarrow> (notint, s) | Some n \<Rightarrow>
     if n \<le> 0 then (RErr ''ERR invalid expire time in set'', s)
     else (ROk, ref_put k (Some (VStr v, Some (rs_now s + 1000 * n))) s))"
  "ref_exec [''SET'', k, v, ''NX'', ''EX'', w] s = (case parse_int w of None \<Rightarrow> (notint, s) | Some n \<Rightarrow>
     if n \<le> 0 then (RErr ''ERR invalid expire time in set'', s)
     else if ref_db s k = None then (ROk, ref_put k (Some (VStr v, Some (rs_now s + 1000 * n))) s)
     else (RNil, s))"
  by (simp_all add: ref_exec_def ref_key_cmd_def cong: option.case_cong prod.case_cong if_cong)

lemma ref_list_cmds:
  "ref_db s k = None \<Longrightarrow> ref_exec [''RPUSH'', k, v] s = (RInt 1, ref_put k (Some (VList [v], None)) s)"
  "ref_db s k = Some (VList q, eo) \<Longrightarrow>
     ref_exec [''RPUSH'', k, v] s = (RInt (int (length q) + 1), ref_put k (Some (VList (q @ [v]), eo)) s)"
  "ref_exec [''LINDEX'', k, ''0''] s = (case ref_db s k of None \<Rightarrow> RNil | Some (VStr v, eo) \<Rightarrow> wrongtype
     | Some (VList q, eo) \<Rightarrow> RStr (hd q), s)"
  "ref_db s k = Some (VList (v # q), eo) \<Longrightarrow> ref_exec [''LPOP'', k] s =
     (RStr v, ref_put k (if q = [] then None else Some (VList q, eo)) s)"
  "ref_db s k = None \<Longrightarrow> ref_exec [''LREM'', k, ''0'', v] s = (RInt 0, s)"
  "ref_db s k = Some (VList q, eo) \<Longrightarrow> ref_exec [''LREM'', k, ''0'', v] s =
     (RInt (int (length (filter (\<lambda>y. y = v) q))),
      ref_put k (let q' = removeAll v q in if q' = [] then None else Some (VList q', eo)) s)"
  "ref_db s k = None \<Longrightarrow> ref_exec [''LLEN'', k] s = (RInt 0, s)"
  "ref_db s k = Some (VList q, eo) \<Longrightarrow> ref_exec [''LLEN'', k] s = (RInt (int (length q)), s)"
  "ref_exec [''LRANGE'', k, ''0'', ''-1''] s = (case ref_db s k of None \<Rightarrow> RList [] | Some (VStr v, eo) \<Rightarrow> wrongtype
     | Some (VList q, eo) \<Rightarrow> RList (map RStr q), s)"
  "snd (ref_exec [''LLEN'', k] s) = s"
  by (simp_all add: ref_exec_def ref_key_cmd_def Let_def cong: option.case_cong rval.case_cong)

lemma ref_put_frame: "j \<noteq> k \<Longrightarrow> ref_db (ref_put k x s) j = ref_db s j"
  by (simp add: ref_db_def [of "ref_put k x s"] rs_keys_put)

lemma ref_key_cmd_frame: "j \<noteq> k \<Longrightarrow> ref_db (snd (ref_key_cmd c k s)) j = ref_db s j"
  by (simp add: ref_key_cmd_def Let_def ref_put_frame split: option.split rval.split prod.split)

lemma ref_exec_frame: "j \<noteq> k \<Longrightarrow> ref_db (snd (ref_exec (c # k # args) s)) j = ref_db s j"
  by (simp add: ref_exec_def Let_def ref_key_cmd_frame ref_put_frame
      split: list.split option.split rval.split prod.split)

interpretation ref: redis_lists ref_exec ref_db rs_now ref_elapse
proof unfold_locales
  fix s k v w d n cmd x i eo q E
  show "rs_now (snd (ref_exec cmd s)) = rs_now s" by (rule rs_now_exec)
  show "ref_db (snd (ref_exec (c # k # args) s)) j = ref_db s j" if "j \<noteq> k" for c args j
    using that by (rule ref_exec_frame)
  show "rs_now (ref_elapse d s) = rs_now s + int d" by (simp add: ref_elapse_def)
  show "ref_db s k = Some (x, Some E) \<Longrightarrow> rs_now s < E" by (rule ref_db_alive)
  show "ref_db (ref_elapse d s) k = (case ref_db s k of
        Some (x, Some E) \<Rightarrow> if E \<le> rs_now s + int d then None else Some (x, Some E) | y \<Rightarrow> y)"
    using ref_db_nonempty [of s k] unfolding ref_db_elapse
    by (auto simp: live_def split: option.split prod.split rval.split list.split)
qed (auto simp: ref_cmds ref_list_cmds ref_db_puts wrongtype_def notint_def ref_db_nonempty
    Let_def bad_expiry_def dest: expiry_parse split: option.splits prod.split rval.split)

lemma parse_int_no_dot:
  assumes "parse_int w = Some n"
  shows "CHR ''.'' \<notin> set w"
proof -
  have "list_all is_digit (tl w)" "w \<noteq> []" "is_digit (hd w) \<or> hd w = CHR ''-''"
    using assms by (cases w; auto simp: parse_int_def split: if_splits)+
  then show ?thesis by (cases w) (auto simp: list_all_iff is_digit_def)
qed

lemma ref_format: "seconds_format ref_fmt"
proof -
  have "parse_int (dec a @ ''.'' @ dec b) = None" for a b
    using parse_int_no_dot [of "dec a @ ''.'' @ dec b"] by (cases "parse_int (dec a @ ''.'' @ dec b)") auto
  then show ?thesis unfolding seconds_format_def ref_fmt_def by simp
qed


text \<open>For the concrete instances: a server with no keys, and one with a single key.\<close>

definition ref_empty :: ref_state where
  "ref_empty = \<lparr>rs_now = 0, rs_keys = Map.empty\<rparr>"

definition ref_single :: "string \<Rightarrow> rval \<Rightarrow> ref_state" where
  "ref_single k x = \<lparr>rs_now = 0, rs_keys = [k \<mapsto> (x, Some 60000)]\<rparr>"

lemma ref_states [simp]:
  "ref_db ref_empty = Map.empty" "rs_now ref_empty = 0"
  "ref_db (ref_single k (VStr v)) = [k \<mapsto> (VStr v, Some 60000)]"
  "ref_db (ref_single k (VList (v # q))) = [k \<mapsto> (VList (v # q), Some 60000)]"
  "rs_now (ref_single k x) = 0"
  by (auto simp: ref_empty_def ref_single_def ref_db_def live_def fun_eq_iff)

end
