(* ===== verification/RedisSimple.thy ===== *)
theory RedisSimple
  imports RedisReference ShardedLock
begin

text \<open>
  \<open>src/redis_simple.go\<close> and the scripts of lines 6-58 of \<open>src/redis_scripts.go\<close>: the
  distributed simple lock. A script is a function of the server, its \<open>KEYS\<close> and \<open>ARGV\<close> and the
  server state; a method takes the handle, how the network treats its request, the time of an
  error and the server state.
\<close>

section \<open>Scripts\<close>

type_synonym 's script = "'s server \<Rightarrow> string list \<Rightarrow> string list \<Rightarrow> 's \<Rightarrow> reply \<times> 's"

definition SimpleLockAcquireScript :: "'s script" where
  "SimpleLockAcquireScript exec KEYS ARGV =
     redis_call exec [''SET'', KEYS ! 0, ARGV ! 0, ''NX'', ''EX'', ARGV ! 1] (\<lambda>r.
       if truthy r then lua_return (RInt 1) else lua_return (RInt 0))"

definition SimpleLockReleaseScript :: "'s script" where
  "SimpleLockReleaseScript exec KEYS ARGV =
     redis_call exec [''GET'', KEYS ! 0] (\<lambda>r.
       if r = RStr (ARGV ! 0)
       then redis_call exec [''DEL'', KEYS ! 0] (\<lambda>_. lua_return (RInt 1))
       else lua_return (RInt 0))"

definition SimpleLockExtendScript :: "'s script" where
  "SimpleLockExtendScript exec KEYS ARGV =
     redis_call exec [''GET'', KEYS ! 0] (\<lambda>r.
       if r = RStr (ARGV ! 0)
       then redis_call exec [''EXPIRE'', KEYS ! 0, ARGV ! 1] (\<lambda>_. lua_return (RInt 1))
       else lua_return (RInt 0))"

definition SimpleLockStatusScript :: "'s script" where
  "SimpleLockStatusScript exec KEYS ARGV =
     redis_call exec [''EXISTS'', KEYS ! 0] (\<lambda>exists.
       if exists = RInt 1
       then redis_call exec [''TTL'', KEYS ! 0] (\<lambda>ttl. lua_return (RList [RInt 1, ttl]))
       else lua_return (RList [RInt 0, RInt (- 1)]))"

section \<open>The handle and its methods\<close>

record redisSimpleLock =
  rs_key :: string
  rs_value :: string

definition newRedisSimpleLock :: "string \<Rightarrow> redisSimpleLock" where
  "newRedisSimpleLock key = \<lparr>rs_key = key, rs_value = ''''\<rparr>"

definition RS_TryLock ::
    "'s server \<Rightarrow> (duration \<Rightarrow> string) \<Rightarrow> net \<Rightarrow> LockOption list \<Rightarrow> string \<Rightarrow> gotime
       \<Rightarrow> redisSimpleLock \<Rightarrow> 's \<Rightarrow> (bool \<times> err option) \<times> redisSimpleLock \<times> 's" where
  "RS_TryLock exec fmt net opts uv ts l s =
     (let config = ApplyLockOptions opts uv;
          l' = l\<lparr>rs_value := Value config\<rparr>
      in case client_eval net (SimpleLockAcquireScript exec [rs_key l] [Value config, fmt (LockTTL config)]) s of
           (x, s') \<Rightarrow>
             (case as_int x of
                Inl e \<Rightarrow> ((False, Some (WrapNetworkError (Some e) ''acquire_lock'' ts)), l', s')
              | Inr result \<Rightarrow> ((result = 1, None), l', s')))"

definition RS_Unlock ::
    "'s server \<Rightarrow> net \<Rightarrow> gotime \<Rightarrow> redisSimpleLock \<Rightarrow> 's \<Rightarrow> err option \<times> 's" where
  "RS_Unlock exec net ts l s =
     (case client_eval net (SimpleLockReleaseScript exec [rs_key l] [rs_value l]) s of
        (x, s') \<Rightarrow>
          (case as_int x of
             Inl e \<Rightarrow> (Some (WrapNetworkError (Some e) ''unlock'' ts), s')
           | Inr result \<Rightarrow> (if result = 0 then Some (NewLockNotFoundError (rs_key l) ts) else None, s')))"

definition RS_Extend ::
    "'s server \<Rightarrow> (duration \<Rightarrow> string) \<Rightarrow> net \<Rightarrow> duration \<Rightarrow> gotime
       \<Rightarrow> redisSimpleLock \<Rightarrow> 's \<Rightarrow> (bool \<times> err option) \<times> 's" where
  "RS_Extend exec fmt net ttl ts l s =
     (case client_eval net (SimpleLockExtendScript exec [rs_key l] [rs_value l, fmt ttl]) s of
        (x, s') \<Rightarrow>
          (case as_int x of
             Inl e \<Rightarrow> ((False, Some (WrapNetworkError (Some e) ''extend'' ts)), s')
           | Inr result \<Rightarrow> ((result = 1, None), s')))"

definition unexpected_response :: "string \<Rightarrow> gotime \<Rightarrow> err" where
  "unexpected_response oper ts =
     WithContext ''operation'' (CStr oper)
       (NewLockError ErrCodeInternalError ''unexpected response from status script'' SeverityError ts)"

definition RS_IsLocked ::
    "'s server \<Rightarrow> net \<Rightarrow> gotime \<Rightarrow> redisSimpleLock \<Rightarrow> 's \<Rightarrow> (bool \<times> err option) \<times> 's" where
  "RS_IsLocked exec net ts l s =
     (case client_eval net (SimpleLockStatusScript exec [rs_key l] []) s of
        (x, s') \<Rightarrow>
          (case as_slice x of
             Inl e \<Rightarrow> ((False, Some (WrapNetworkError (Some e) ''check_lock_status'' ts)), s')
           | Inr result \<Rightarrow>
               (case result of
                  RInt exists # _ \<Rightarrow> ((exists = 1, None), s')
                | _ \<Rightarrow> ((False, Some (unexpected_response ''check_lock_status'' ts)), s'))))"

text \<open>\<open>time.Duration(n) * time.Second\<close> and \<open>time.Duration(n) * time.Millisecond\<close>.\<close>

definition duration_of :: "int \<Rightarrow> duration \<Rightarrow> duration" where
  "duration_of n unit = word_of_int n * unit"

definition RS_GetTTL ::
    "'s server \<Rightarrow> net \<Rightarrow> gotime \<Rightarrow> redisSimpleLock \<Rightarrow> 's \<Rightarrow> (duration \<times> err option) \<times> 's" where
  "RS_GetTTL exec net ts l s =
     (case client_eval net (SimpleLockStatusScript exec [rs_key l] []) s of
        (x, s') \<Rightarrow>
          (case as_slice x of
             Inl e \<Rightarrow> ((0, Some (WrapNetworkError (Some e) ''get_lock_ttl'' ts)), s')
           | Inr result \<Rightarrow>
               (case result of
                  RInt exists # RInt ttlSeconds # _ \<Rightarrow>
                    if exists = 0 then ((0, Some (NewLockNotFoundError (rs_key l) ts)), s')
                    else if ttlSeconds < 0 then ((- 1, None), s')
                    else ((duration_of ttlSeconds Second, None), s')
                | _ \<Rightarrow> ((0, Some (unexpected_response ''get_lock_ttl'' ts)), s'))))"

definition RS_GetKey :: "redisSimpleLock \<Rightarrow> string" where "RS_GetKey l = rs_key l"
definition RS_GetValue :: "redisSimpleLock \<Rightarrow> string" where "RS_GetValue l = rs_value l"

text \<open>The blocking \<open>Lock\<close>; the world gives the handle, the server, and the fate of each request.\<close>

definition RS_Lock ::
    "'w go_rt \<Rightarrow> 's server \<Rightarrow> (duration \<Rightarrow> string) \<Rightarrow> ('w \<Rightarrow> net \<times> 'w) \<Rightarrow> ('w \<Rightarrow> redisSimpleLock \<times> 's)
       \<Rightarrow> (redisSimpleLock \<times> 's \<Rightarrow> 'w \<Rightarrow> 'w) \<Rightarrow> LockOption list \<Rightarrow> 'w \<Rightarrow> (err option \<times> 'w) option" where
  "RS_Lock rt exec fmt send get put opts w =
     (case rt_unique rt w of (uv, w1) \<Rightarrow>
        RetryLockOperation rt (NewRetryConfigFromLockOptions (rs_key (fst (get w))) opts uv)
          (\<lambda>w. case rt_unique rt w of (uv, w1) \<Rightarrow> case rt_now rt w1 of (ts, w2) \<Rightarrow> case send w2 of (net, w3) \<Rightarrow>
             (case get w3 of (l, s) \<Rightarrow> case RS_TryLock exec fmt net opts uv ts l s of
                (r, l', s') \<Rightarrow> (r, put (l', s') w3))) w1)"


section \<open>What the scripts do\<close>

lemmas simple_scripts = SimpleLockAcquireScript_def SimpleLockReleaseScript_def
  SimpleLockExtendScript_def SimpleLockStatusScript_def

lemma is_errE: "is_err r \<Longrightarrow> (\<And>e. r = RErr e \<Longrightarrow> P) \<Longrightarrow> P"
  by (auto simp: is_err_def)

lemma redis_call_is_err:
  "is_err (fst (exec cmd s)) \<Longrightarrow> is_err (fst (redis_call exec cmd cont s)) \<and>
     snd (redis_call exec cmd cont s) = snd (exec cmd s)"
  by (auto elim!: is_errE simp: redis_call_err)

context redis_server begin

lemma acquire_script:
  assumes "expiry w = Some n"
  shows "fst (SimpleLockAcquireScript exec [k] [v, w] s) = RInt (if db s k = None then 1 else 0)"
    and "db (snd (SimpleLockAcquireScript exec [k] [v, w] s)) =
      (if db s k = None then (db s)(k \<mapsto> (VStr v, Some (now_ms s + 1000 * n))) else db s)"
  by (simp_all add: SimpleLockAcquireScript_def redis_call_ok exec_SET_NX [OF assms]
      db_SET_NX [OF assms] truthy_def lua_return_def)

lemma acquire_script_bad:
  assumes "bad_expiry w"
  shows "is_err (fst (SimpleLockAcquireScript exec [k] [v, w] s))"
    and "db (snd (SimpleLockAcquireScript exec [k] [v, w] s)) = db s"
  using exec_SET_err [OF assms, of k v s] db_SET_err [OF assms, of k v s]
  by (simp_all add: SimpleLockAcquireScript_def redis_call_is_err)

lemma now_redis_call:
  assumes "\<And>r s. now_ms (snd (cont r s)) = now_ms s"
  shows "now_ms (snd (redis_call exec cmd cont s)) = now_ms s"
proof (cases "exec cmd s")
  case (Pair r s')
  then have "now_ms s' = now_ms s" using now_exec [of cmd s] by simp
  with Pair assms show ?thesis by (auto simp: redis_call_def split: reply.split)
qed

lemma now_return [simp]: "now_ms (snd (lua_return r s)) = now_ms s"
  by (simp add: lua_return_def)

lemma now_simple_scripts [simp]:
  "now_ms (snd (SimpleLockAcquireScript exec KEYS ARGV s)) = now_ms s"
  "now_ms (snd (SimpleLockReleaseScript exec KEYS ARGV s)) = now_ms s"
  "now_ms (snd (SimpleLockExtendScript exec KEYS ARGV s)) = now_ms s"
  "now_ms (snd (SimpleLockStatusScript exec KEYS ARGV s)) = now_ms s"
  unfolding simple_scripts by (auto intro!: now_redis_call simp: if_distrib)

lemma now_client_eval:
  "(\<And>s. now_ms (snd (script s)) = now_ms s) \<Longrightarrow> now_ms (snd (client_eval net script s)) = now_ms s"
  by (simp add: client_eval_state split: net.split)

text \<open>The string stored under a key, if any.\<close>

definition holder :: "'s \<Rightarrow> string \<Rightarrow> string option" where
  "holder s k = (case db s k of Some (VStr v, eo) \<Rightarrow> Some v | _ \<Rightarrow> None)"

definition is_list :: "'s \<Rightarrow> string \<Rightarrow> bool" where
  "is_list s k = (case db s k of Some (VList q, eo) \<Rightarrow> True | _ \<Rightarrow> False)"

lemma call_GET: "redis_call exec [''GET'', k] cont s =
   (if is_list s k then (RErr ''WRONGTYPE'', snd (exec [''GET'', k] s))
    else cont (case holder s k of Some v \<Rightarrow> RStr v | None \<Rightarrow> RNil) (snd (exec [''GET'', k] s)))"
  using exec_GET [of k s]
  by (cases "exec [''GET'', k] s")
     (auto simp: redis_call_def holder_def is_list_def split: option.split rval.split prod.split)

lemma release_script:
  "fst (SimpleLockReleaseScript exec [k] [v] s) =
     (if is_list s k then RErr ''WRONGTYPE'' else RInt (if holder s k = Some v then 1 else 0))"
  "db (snd (SimpleLockReleaseScript exec [k] [v] s)) =
     (if holder s k = Some v then (db s)(k := None) else db s)"
  by (auto simp: SimpleLockReleaseScript_def call_GET call_DEL lua_return_def holder_def is_list_def
      split: option.splits rval.splits)

lemma extend_script:
  assumes "expiry w = Some n"
  shows "fst (SimpleLockExtendScript exec [k] [v, w] s) =
      (if is_list s k then RErr ''WRONGTYPE'' else RInt (if holder s k = Some v then 1 else 0))"
    and "db (snd (SimpleLockExtendScript exec [k] [v, w] s)) =
      (if holder s k = Some v then (db s)(k \<mapsto> (VStr v, Some (now_ms s + 1000 * n))) else db s)"
  by (auto simp: SimpleLockExtendScript_def call_GET redis_call_ok exec_EXPIRE [OF assms]
      db_EXPIRE [OF assms] lua_return_def holder_def is_list_def split: option.splits rval.splits)

lemma extend_script_past:
  assumes "parse_int w = Some n" and "n \<le> 0"
  shows "db (snd (SimpleLockExtendScript exec [k] [v, w] s)) =
      (if holder s k = Some v then (db s)(k := None) else db s)"
  by (auto simp: SimpleLockExtendScript_def call_GET redis_call_ok exec_EXPIRE_past [OF assms]
      db_EXPIRE_past [OF assms] lua_return_def holder_def is_list_def split: option.splits rval.splits)

lemma extend_script_fraction:
  assumes "parse_int w = None"
  shows "holder s k = Some v \<Longrightarrow> is_err (fst (SimpleLockExtendScript exec [k] [v, w] s))"
    and "db (snd (SimpleLockExtendScript exec [k] [v, w] s)) = db s"
  using exec_EXPIRE_err [OF assms] db_EXPIRE_err [OF assms]
  by (auto simp: SimpleLockExtendScript_def call_GET redis_call_is_err lua_return_def holder_def
      is_list_def split: option.splits rval.splits)

lemma status_script:
  "fst (SimpleLockStatusScript exec [k] [] s) = (case db s k of
       None \<Rightarrow> RList [RInt 0, RInt (- 1)]
     | Some (x, None) \<Rightarrow> RList [RInt 1, RInt (- 1)]
     | Some (x, Some E) \<Rightarrow> RList [RInt 1, RInt ((E - now_ms s + 500) div 1000)])"
  "db (snd (SimpleLockStatusScript exec [k] [] s)) = db s"
  by (auto simp: SimpleLockStatusScript_def call_EXISTS redis_call_ok exec_TTL lua_return_def
      split: option.split)

end

section \<open>Runs: any number of clients, each with its handle\<close>

text \<open>
  An event is a delay in milliseconds, the client, what the network does to its request, the
  clock reading of an error, and the operation. A state holds the values stored in the
  handles and the server; \<open>keyof\<close> gives the key of each client's handle.
\<close>

type_synonym 'o sent = "nat \<times> nat \<times> net \<times> gotime \<times> 'o"

fun rs_step ::
    "'s server \<Rightarrow> (duration \<Rightarrow> string) \<Rightarrow> (nat \<Rightarrow> 's \<Rightarrow> 's) \<Rightarrow> (nat \<Rightarrow> string) \<Rightarrow> sl_op sent
       \<Rightarrow> (nat \<Rightarrow> string) \<times> 's \<Rightarrow> op_result \<times> ((nat \<Rightarrow> string) \<times> 's)" where
  "rs_step exec fmt elapse keyof (d, i, net, ts, oper) (vals, s) =
     (let s1 = elapse d s; l = \<lparr>rs_key = keyof i, rs_value = vals i\<rparr> in
      case oper of
        TryLockOp opts uv \<Rightarrow> (case RS_TryLock exec fmt net opts uv ts l s1 of
            ((b, e), l', s') \<Rightarrow> (BoolRes b e, (vals(i := rs_value l'), s')))
      | UnlockOp \<Rightarrow> (case RS_Unlock exec net ts l s1 of (e, s') \<Rightarrow> (ErrRes e, (vals, s')))
      | ExtendOp ttl \<Rightarrow> (case RS_Extend exec fmt net ttl ts l s1 of ((b, e), s') \<Rightarrow> (BoolRes b e, (vals, s')))
      | IsLockedOp \<Rightarrow> (case RS_IsLocked exec net ts l s1 of ((b, e), s') \<Rightarrow> (BoolRes b e, (vals, s')))
      | GetTTLOp \<Rightarrow> (case RS_GetTTL exec net ts l s1 of ((t, e), s') \<Rightarrow> (DurRes t e, (vals, s'))))"

definition rs_lease :: "('s \<Rightarrow> keyspace) \<Rightarrow> string \<Rightarrow> (nat \<Rightarrow> string) \<times> 's \<Rightarrow> (string \<times> int) option" where
  "rs_lease db key st = (case db (snd st) key of Some (VStr v, Some E) \<Rightarrow> Some (v, E - 1) | _ \<Rightarrow> None)"

fun rs_granted :: "(nat \<Rightarrow> string) \<Rightarrow> string \<Rightarrow> sl_op sent \<Rightarrow> op_result \<Rightarrow> bool" where
  "rs_granted keyof key (d, i, net, ts, TryLockOp opts uv) (BoolRes b e) = (b \<and> keyof i = key)"
| "rs_granted keyof key ev r = False"

text \<open>
  The events that may end the lease of \<open>key\<close> or shorten it: an \<open>Unlock\<close> by a client whose handle
  has the holder's value, and such a client's \<open>Extend\<close> to an earlier expiry.
\<close>

fun rs_yields ::
    "('s \<Rightarrow> keyspace) \<Rightarrow> ('s \<Rightarrow> int) \<Rightarrow> (nat \<Rightarrow> string) \<Rightarrow> string \<Rightarrow> sl_op sent \<Rightarrow> (nat \<Rightarrow> string) \<times> 's \<Rightarrow> bool" where
  "rs_yields db now_ms keyof key (d, i, net, ts, UnlockOp) (vals, s) =
     (keyof i = key \<and> map_option fst (db s key) = Some (VStr (vals i)))"
| "rs_yields db now_ms keyof key (d, i, net, ts, ExtendOp ttl) (vals, s) =
     (keyof i = key \<and>
      (case db s key of
         Some (x, Some E) \<Rightarrow> x = VStr (vals i) \<and> now_ms s + int d + sint ttl div 1000000 < E
       | _ \<Rightarrow> False))"
| "rs_yields db now_ms keyof key ev st = False"

declare rs_step.simps [simp del]



locale redis_clients = redis_server exec db now_ms elapse
  for exec :: "'s server" and db :: "'s \<Rightarrow> keyspace" and now_ms :: "'s \<Rightarrow> int"
    and elapse :: "nat \<Rightarrow> 's \<Rightarrow> 's" +
  fixes fmt :: "duration \<Rightarrow> string"
  assumes fmt: "seconds_format fmt"
begin

lemma RS_TryLock_facts:
  "snd (snd (RS_TryLock exec fmt net opts uv ts l s)) = snd (client_eval net (SimpleLockAcquireScript exec
      [rs_key l] [Value (ApplyLockOptions opts uv), fmt (LockTTL (ApplyLockOptions opts uv))]) s)"
  "fst (snd (RS_TryLock exec fmt net opts uv ts l s)) = l\<lparr>rs_value := Value (ApplyLockOptions opts uv)\<rparr>"
  by (simp_all add: RS_TryLock_def Let_def split: prod.split sum.split)

lemma db_acquire:
  "db (snd (SimpleLockAcquireScript exec [k] [v, fmt ttl] s)) =
     (case expiry (fmt ttl) of
        Some n \<Rightarrow> if db s k = None then (db s)(k \<mapsto> (VStr v, Some (now_ms s + 1000 * n))) else db s
      | None \<Rightarrow> db s)"
  using fmt
proof (cases rule: seconds_format_cases [where d = ttl])
  case (valid n)
  then show ?thesis by (simp add: acquire_script)
next
  case (past n)
  then show ?thesis using acquire_script_bad(2) [OF past(4)] by simp
next
  case fraction
  then show ?thesis using acquire_script_bad(2) [OF fraction(2)] by simp
qed

lemma db_extend:
  "db (snd (SimpleLockExtendScript exec [k] [v, fmt ttl] s)) =
     (if holder s k = Some v
      then (case expiry (fmt ttl) of
          Some n \<Rightarrow> (db s)(k \<mapsto> (VStr v, Some (now_ms s + 1000 * n)))
        | None \<Rightarrow> if parse_int (fmt ttl) = None then db s else (db s)(k := None))
      else db s)"
  using fmt
proof (cases rule: seconds_format_cases [where d = ttl])
  case (valid n)
  then show ?thesis by (simp add: extend_script)
next
  case (past n)
  then show ?thesis using extend_script_past [OF past(1,3)] by simp
next
  case fraction
  then show ?thesis using extend_script_fraction(2) [OF fraction(1)] by simp
qed

lemma seconds_exact:
  assumes "0 < sint ttl" and "sint ttl mod 1000000000 = 0"
  obtains n where "expiry (fmt ttl) = Some n" and "1000 * n = sint ttl div 1000000"
proof -
  define q where "q = sint ttl div 1000000000"
  have "sint ttl = 1000000000 * q"
    using mult_div_mod_eq [of 1000000000 "sint ttl"] assms(2) by (simp only: q_def add_0_right)
  then have "1000 * q = sint ttl div 1000000" by simp
  then have "1000 * (sint ttl div 1000000000) = sint ttl div 1000000" by (simp only: q_def)
  with seconds_format_whole [OF fmt assms] show thesis by (intro that [of "sint ttl div 1000000000"])
qed

lemma expiry_bounds:
  assumes "expiry (fmt ttl) = Some n"
  shows "0 < sint ttl" and "sint ttl div 1000000 \<le> 1000 * n"
  using seconds_format_expiry [OF fmt assms] by simp_all

lemma extend_parse:
  assumes "expiry (fmt ttl) = None" and "0 < sint ttl"
  shows "parse_int (fmt ttl) = None"
  using fmt assms by (cases rule: seconds_format_cases [where d = ttl]) simp_all

text \<open>What each operation may do to the keys of the server.\<close>

lemma db_client_eval:
  "db (snd (client_eval net script s)) \<in> {db s, db (snd (script s))}"
  by (auto simp: client_eval_state split: net.split)

lemma RS_states:
  "snd (RS_Unlock exec net ts l s) = snd (client_eval net (SimpleLockReleaseScript exec [rs_key l] [rs_value l]) s)"
  "snd (RS_Extend exec fmt net ttl ts l s) =
     snd (client_eval net (SimpleLockExtendScript exec [rs_key l] [rs_value l, fmt ttl]) s)"
  "snd (RS_IsLocked exec net ts l s) = snd (client_eval net (SimpleLockStatusScript exec [rs_key l] []) s)"
  "snd (RS_GetTTL exec net ts l s) = snd (client_eval net (SimpleLockStatusScript exec [rs_key l] []) s)"
  by (simp_all add: RS_Unlock_def RS_Extend_def RS_IsLocked_def RS_GetTTL_def
      split: prod.split sum.split list.split reply.split)

lemma rs_step_server:
  "snd (snd (rs_step exec fmt elapse keyof (d, i, net, ts, oper) (vals, s))) =
     snd (client_eval net (case oper of
        TryLockOp opts uv \<Rightarrow> SimpleLockAcquireScript exec [keyof i]
          [Value (ApplyLockOptions opts uv), fmt (LockTTL (ApplyLockOptions opts uv))]
      | UnlockOp \<Rightarrow> SimpleLockReleaseScript exec [keyof i] [vals i]
      | ExtendOp ttl \<Rightarrow> SimpleLockExtendScript exec [keyof i] [vals i, fmt ttl]
      | IsLockedOp \<Rightarrow> SimpleLockStatusScript exec [keyof i] []
      | GetTTLOp \<Rightarrow> SimpleLockStatusScript exec [keyof i] []) (elapse d s))"
proof (cases oper)
  case (TryLockOp opts uv)
  then show ?thesis
    using RS_TryLock_facts(1) [of net opts uv ts "\<lparr>rs_key = keyof i, rs_value = vals i\<rparr>" "elapse d s"]
    by (simp add: rs_step.simps Let_def case_prod_beta)
qed (simp_all add: rs_step.simps Let_def RS_states case_prod_beta)

lemma now_rs_step: "now_ms (snd (snd (rs_step exec fmt elapse keyof (d, i, net, ts, oper) st))) = now_ms (snd st) + int d"
  by (cases st) (simp only: rs_step_server, cases oper; simp add: now_client_eval)

lemma db_elapse_live:
  "db s k = Some (x, Some E) \<Longrightarrow> now_ms s + int d < E \<Longrightarrow> db (elapse d s) k = Some (x, Some E)"
  by (simp add: db_elapse)

lemma rs_grant_state:
  assumes "rs_granted keyof key e (fst (rs_step exec fmt elapse keyof e (vals, s)))"
  obtains d i net ts opts uv where "e = (d, i, net, ts, TryLockOp opts uv)" and "keyof i = key"
    and "db (elapse d s) key = None" and "expiry (fmt (LockTTL (ApplyLockOptions opts uv))) \<noteq> None"
    and "net = Delivered"
proof -
  obtain d i net ts oper where e: "e = (d, i, net, ts, oper)" by (cases e)
  obtain opts uv where oper: "oper = TryLockOp opts uv" and k: "keyof i = key"
    using assms unfolding e by (cases oper) (auto simp: rs_step.simps Let_def case_prod_beta)
  let ?s = "elapse d s" and ?c = "ApplyLockOptions opts uv"
  let ?sc = "SimpleLockAcquireScript exec [key] [Value ?c, fmt (LockTTL ?c)]"
  have g: "as_int (fst (client_eval net ?sc ?s)) = Inr 1"
    using assms unfolding e oper
    by (auto simp: rs_step.simps Let_def case_prod_beta k RS_TryLock_def split: sum.splits)
  have net: "net = Delivered"
    using g by (cases net) (auto simp: client_eval_def as_int_def)
  have ok: "\<not> bad_expiry (fmt (LockTTL ?c))"
  proof
    assume "bad_expiry (fmt (LockTTL ?c))"
    from acquire_script_bad(1) [OF this, of key "Value ?c" ?s] obtain e where "fst (?sc ?s) = RErr e"
      by (auto simp: is_err_def)
    with g show False by (simp add: net client_eval_Delivered as_int_def)
  qed
  from fmt show thesis
  proof (cases rule: seconds_format_cases [where d = "LockTTL ?c"])
    case (valid n)
    with g acquire_script(1) [OF valid(1)] have "db ?s key = None"
      by (auto simp: net client_eval_Delivered as_int_def split: if_splits)
    with valid show thesis by (intro that [OF e [unfolded oper] k]) (simp_all add: net)
  qed (use ok in simp_all)
qed

lemma rs_lease_kept:
  assumes "rs_lease db key st = Some (v, E)"
    and "now_ms (snd (snd (rs_step exec fmt elapse keyof e st))) \<le> E"
    and "\<not> rs_yields db now_ms keyof key e st"
  shows "\<not> rs_granted keyof key e (fst (rs_step exec fmt elapse keyof e st)) \<and>
    (\<exists>E'\<ge>E. rs_lease db key (snd (rs_step exec fmt elapse keyof e st)) = Some (v, E'))"
proof -
  obtain vals s where st: "st = (vals, s)" by (cases st)
  obtain d i net ts oper where e: "e = (d, i, net, ts, oper)" by (cases e)
  have key: "db s key = Some (VStr v, Some (E + 1))"
    using assms(1) by (auto simp: rs_lease_def st split: option.splits rval.splits prod.splits)
  have live: "db (elapse d s) key = Some (VStr v, Some (E + 1))"
    using assms(2) unfolding e st now_rs_step by (intro db_elapse_live [OF key]) simp
  then have "\<not> rs_granted keyof key e (fst (rs_step exec fmt elapse keyof e st))"
    unfolding st by (auto elim!: rs_grant_state simp: e)
  moreover have "\<exists>E'>E. db (snd (snd (rs_step exec fmt elapse keyof e st))) key = Some (VStr v, Some E')"
  proof -
    define script where "script = (case oper of
        TryLockOp opts uv \<Rightarrow> SimpleLockAcquireScript exec [keyof i]
          [Value (ApplyLockOptions opts uv), fmt (LockTTL (ApplyLockOptions opts uv))]
      | UnlockOp \<Rightarrow> SimpleLockReleaseScript exec [keyof i] [vals i]
      | ExtendOp ttl \<Rightarrow> SimpleLockExtendScript exec [keyof i] [vals i, fmt ttl]
      | IsLockedOp \<Rightarrow> SimpleLockStatusScript exec [keyof i] []
      | GetTTLOp \<Rightarrow> SimpleLockStatusScript exec [keyof i] [])"
    have run: "snd (snd (rs_step exec fmt elapse keyof e st)) = snd (client_eval net script (elapse d s))"
      unfolding e st rs_step_server script_def ..
    have hold: "holder (elapse d s) key = Some v" using live by (simp add: holder_def)
    have ny: "keyof i \<noteq> key \<or> v \<noteq> vals i \<or> (case oper of UnlockOp \<Rightarrow> False
        | ExtendOp ttl \<Rightarrow> E + 1 \<le> now_ms s + int d + sint ttl div 1000000 | _ \<Rightarrow> True)"
      using assms(3) key by (cases oper) (auto simp: e st)
    have "\<exists>E'>E. db (snd (script (elapse d s))) key = Some (VStr v, Some E')"
    proof (cases oper)
      case (ExtendOp ttl)
      show ?thesis
      proof (cases "keyof i = key \<and> v = vals i")
        case True
        with ny ExtendOp have le: "E + 1 \<le> now_ms s + int d + sint ttl div 1000000" by simp
        have "now_ms s + int d < E + 1" using alive [OF live] by simp
        with le have "0 < sint ttl div 1000000" by linarith
        then have "0 < sint ttl" by linarith
        with True ExtendOp live hold le show ?thesis
          using extend_parse [of ttl] expiry_bounds(2) [of ttl]
          by (cases "expiry (fmt ttl)") (force simp: script_def db_extend)+
      next
        case False
        with ExtendOp live hold show ?thesis by (auto simp: script_def db_extend split: option.split)
      qed
    qed (use live hold ny in \<open>auto simp: script_def db_acquire release_script status_script split: option.split\<close>)
    then show ?thesis using db_client_eval [of net script "elapse d s"] live unfolding run by auto
  qed
  ultimately show ?thesis by (force simp: rs_lease_def)
qed

lemma rs_grant_lease:
  assumes "rs_step exec fmt elapse keyof (d, i, net, ts, TryLockOp opts uv) st = (BoolRes True e, st1)"
    and "keyof i = key"
  obtains E where "rs_lease db key st1 = Some (Value (ApplyLockOptions opts uv), E)"
    and "now_ms (snd st1) + sint (LockTTL (ApplyLockOptions opts uv)) div 1000000 - 1 \<le> E"
proof -
  obtain vals s where st: "st = (vals, s)" by (cases st)
  let ?e = "(d, i, net, ts, TryLockOp opts uv)" and ?c = "ApplyLockOptions opts uv"
  have "rs_granted keyof key ?e (fst (rs_step exec fmt elapse keyof ?e (vals, s)))"
    using assms by (simp add: st)
  then obtain n where g: "db (elapse d s) key = None" "expiry (fmt (LockTTL ?c)) = Some n"
    "net = Delivered" by (auto elim!: rs_grant_state)
  have "snd st1 = snd (client_eval net (SimpleLockAcquireScript exec [keyof i] [Value ?c, fmt (LockTTL ?c)]) (elapse d s))"
    using rs_step_server [of keyof d i net ts "TryLockOp opts uv" vals s] assms(1) by (simp add: st)
  with g assms(2) have "rs_lease db key st1 = Some (Value ?c, now_ms (snd st1) + 1000 * n - 1)"
    by (simp add: rs_lease_def client_eval_Delivered db_acquire)
  with expiry_bounds(2) [OF g(2)] show thesis by (intro that) (assumption, linarith)
qed

end

text \<open>Every single key is a lease in the sense of \<open>Lease\<close>.\<close>

sublocale redis_clients < simple_lock: leased "rs_step exec fmt elapse keyof" "\<lambda>st. now_ms (snd st)"
    "rs_lease db key" "rs_granted keyof key" "rs_yields db now_ms keyof key"
  for keyof :: "nat \<Rightarrow> string" and key :: string
proof unfold_locales
  fix st :: "(nat \<Rightarrow> string) \<times> 's" and e :: "sl_op sent" and v E
  obtain d i net ts oper where e: "e = (d, i, net, ts, oper)" by (cases e)
  show "now_ms (snd st) \<le> now_ms (snd (snd (rs_step exec fmt elapse keyof e st)))"
    unfolding e now_rs_step by simp
qed (rule rs_lease_kept)

context redis_clients begin

lemma grant_then_exclusion:
  assumes "keyof i = key"
    and "rs_step exec fmt elapse keyof (d, i, net, ts, TryLockOp opts uv) st = (BoolRes True e, st1)"
    and "along (\<lambda>ev st. \<not> rs_yields db now_ms keyof key ev st) (rs_step exec fmt elapse keyof) evs st1"
    and "run (rs_step exec fmt elapse keyof) evs st1 = (rs, st2)"
    and "now_ms (snd st2) < now_ms (snd st1) + sint (LockTTL (ApplyLockOptions opts uv)) div 1000000"
  shows "(\<forall>(ev, r) \<in> set (zip evs rs). \<not> rs_granted keyof key ev r) \<and>
    (\<exists>E. rs_lease db key st2 = Some (Value (ApplyLockOptions opts uv), E))"
proof -
  obtain E where E: "rs_lease db key st1 = Some (Value (ApplyLockOptions opts uv), E)"
    and le: "now_ms (snd st1) + sint (LockTTL (ApplyLockOptions opts uv)) div 1000000 - 1 \<le> E"
    by (rule rs_grant_lease [OF assms(2,1)])
  from le assms(5) have "now_ms (snd st2) \<le> E" by simp
  with simple_lock.exclusion [OF E assms(3)] assms(4) show ?thesis by auto
qed

text \<open>A TTL that is not a whole number of seconds.\<close>

lemma fraction_TryLock:
  assumes "sint (LockTTL (ApplyLockOptions opts uv)) mod 1000000000 \<noteq> 0"
    and "\<bar>sint (LockTTL (ApplyLockOptions opts uv))\<bar> < 2 ^ 24 * 1000000000"
    and "RS_TryLock exec fmt net opts uv ts l s = (r, l', s')"
  shows "\<exists>e. r = (False, Some (WrapNetworkError (Some e) ''acquire_lock'' ts)) \<and> db s' = db s"
proof -
  let ?c = "ApplyLockOptions opts uv"
  let ?sc = "SimpleLockAcquireScript exec [rs_key l] [Value ?c, fmt (LockTTL ?c)]"
  have bad: "bad_expiry (fmt (LockTTL ?c))"
    using seconds_format_fraction [OF fmt assms(1,2)] by (simp add: bad_expiry_def)
  obtain m where m: "fst (?sc s) = RErr m"
    using acquire_script_bad(1) [OF bad, of "rs_key l" "Value ?c" s] by (auto simp: is_err_def)
  have "db (snd (?sc s)) = db s" by (rule acquire_script_bad(2) [OF bad])
  with m assms(3) show ?thesis
    by (cases net) (auto simp: RS_TryLock_def Let_def client_eval_def as_int_def split: prod.splits)
qed

lemma fraction_Extend:
  assumes "sint ttl mod 1000000000 \<noteq> 0" and "\<bar>sint ttl\<bar> < 2 ^ 24 * 1000000000"
    and "db s (rs_key l) = Some (VStr (rs_value l), eo)"
    and "RS_Extend exec fmt net ttl ts l s = (r, s')"
  shows "\<exists>e. r = (False, Some (WrapNetworkError (Some e) ''extend'' ts)) \<and> db s' = db s"
proof -
  let ?sc = "SimpleLockExtendScript exec [rs_key l] [rs_value l, fmt ttl]"
  note none = seconds_format_fraction [OF fmt assms(1,2)]
  obtain m where m: "fst (?sc s) = RErr m"
    using extend_script_fraction(1) [OF none, of s "rs_key l" "rs_value l"] assms(3)
    by (auto simp: is_err_def holder_def)
  have "db (snd (?sc s)) = db s" by (rule extend_script_fraction(2) [OF none])
  with m assms(4) show ?thesis
    by (cases net) (auto simp: RS_Extend_def client_eval_def as_int_def split: prod.splits)
qed

lemma fraction_Extend_state:
  assumes "sint ttl mod 1000000000 \<noteq> 0" and "\<bar>sint ttl\<bar> < 2 ^ 24 * 1000000000"
    and "RS_Extend exec fmt net ttl ts l s = (r, s')"
  shows "db s' = db s"
proof -
  note none = seconds_format_fraction [OF fmt assms(1,2)]
  have "s' = snd (client_eval net (SimpleLockExtendScript exec [rs_key l] [rs_value l, fmt ttl]) s)"
    using RS_states(2) [of net ttl ts l s] assms(3) by simp
  then show ?thesis
    using db_client_eval [of net "SimpleLockExtendScript exec [rs_key l] [rs_value l, fmt ttl]" s]
      extend_script_fraction(2) [OF none] by auto
qed

lemma TryLock_whole:
  assumes "0 < sint (LockTTL (ApplyLockOptions opts uv))"
    and "sint (LockTTL (ApplyLockOptions opts uv)) mod 1000000000 = 0"
  shows "\<exists>s'. RS_TryLock exec fmt Delivered opts uv ts l s =
      ((db s (rs_key l) = None, None), l\<lparr>rs_value := Value (ApplyLockOptions opts uv)\<rparr>, s') \<and>
    db s' = (if db s (rs_key l) = None then (db s)(rs_key l \<mapsto> (VStr (Value (ApplyLockOptions opts uv)),
        Some (now_ms s + sint (LockTTL (ApplyLockOptions opts uv)) div 1000000))) else db s)"
proof -
  let ?c = "ApplyLockOptions opts uv"
  let ?sc = "SimpleLockAcquireScript exec [rs_key l] [Value ?c, fmt (LockTTL ?c)]"
  note ex = seconds_format_whole [OF fmt assms]
  have "fst (?sc s) = RInt (if db s (rs_key l) = None then 1 else 0)" by (rule acquire_script(1) [OF ex])
  moreover have "db (snd (?sc s)) = (if db s (rs_key l) = None then (db s)(rs_key l \<mapsto> (VStr (Value ?c),
        Some (now_ms s + sint (LockTTL ?c) div 1000000))) else db s)"
    by (rule seconds_exact [OF assms]) (simp only: db_acquire option.case)
  ultimately show ?thesis
    by (intro exI [of _ "snd (?sc s)"]) (simp add: RS_TryLock_def Let_def client_eval_Delivered as_int_def)
qed

lemma Unlock_delivered:
  assumes "\<not> is_list s (rs_key l)"
  shows "\<exists>s'. RS_Unlock exec Delivered ts l s =
      (if holder s (rs_key l) = Some (rs_value l) then None else Some (NewLockNotFoundError (rs_key l) ts), s') \<and>
    db s' = (if holder s (rs_key l) = Some (rs_value l) then (db s)(rs_key l := None) else db s)"
  using release_script [of "rs_key l" "rs_value l" s] assms
  by (intro exI [of _ "snd (SimpleLockReleaseScript exec [rs_key l] [rs_value l] s)"])
     (simp add: RS_Unlock_def client_eval_Delivered as_int_def)

end

interpretation ref_clients: redis_clients ref_exec ref_db rs_now ref_elapse ref_fmt
  by unfold_locales (rule ref_format)

section \<open>Properties\<close>

text \<open>
  C1: exclusion across processes. Let any number of clients use handles on one server that
  behaves as documented. Once a \<open>TryLock\<close> on \<open>key\<close> has been granted with value \<open>v\<close> and TTL \<open>d\<close>,
  then along every sequence of operations by all clients, on this key and others, with any
  delays and any lost requests and replies, nobody else is granted \<open>key\<close> before \<open>d\<close> has passed,
  and it stays leased to \<open>v\<close>, unless a client whose handle holds \<open>v\<close> unlocks it or renews it to an
  earlier instant. No other client can end the lease.
\<close>
theorem redis_TryLock_excludes:
  assumes "redis_clients exec db now_ms elapse fmt" and "keyof i = key"
    and "rs_step exec fmt elapse keyof (d, i, net, ts, TryLockOp opts uv) st = (BoolRes True e, st1)"
    and "along (\<lambda>ev st. \<not> rs_yields db now_ms keyof key ev st) (rs_step exec fmt elapse keyof) evs st1"
    and "run (rs_step exec fmt elapse keyof) evs st1 = (rs, st2)"
    and "now_ms (snd st2) < now_ms (snd st1) + sint (LockTTL (ApplyLockOptions opts uv)) div 1000000"
  shows "(\<forall>(ev, r) \<in> set (zip evs rs). \<not> rs_granted keyof key ev r) \<and>
    (\<exists>E. rs_lease db key st2 = Some (Value (ApplyLockOptions opts uv), E))"
  by (rule redis_clients.grant_then_exclusion [OF assms])


lemma default_ttl: "sint (LockTTL (ApplyLockOptions [] uv)) = 30000000000"
  by (simp add: Apply_LockTTL default_config_def)

lemma default_value: "Value (ApplyLockOptions [] uv) = uv"
  by (simp add: ApplyLockOptions_def default_config_def)

theorem redis_TryLock_excludes_witness:
  "\<exists>st1 E. rs_step ref_exec ref_fmt ref_elapse (\<lambda>_. ''k'') (0, 1, Delivered, 0, TryLockOp [] ''a'')
       (\<lambda>_. '''', ref_empty) = (BoolRes True None, st1) \<and>
     rs_lease ref_db ''k'' (snd (run (rs_step ref_exec ref_fmt ref_elapse (\<lambda>_. ''k''))
       [(5, 2, Delivered, 0, TryLockOp [] ''b''), (9, 2, ReplyLost ''eof'', 0, IsLockedOp)] st1)) = Some (''a'', E)"
proof -
  let ?step = "rs_step ref_exec ref_fmt ref_elapse (\<lambda>_. ''k'')"
  let ?e = "(0, 1, Delivered, 0, TryLockOp [] ''a'') :: sl_op sent"
  let ?evs = "[(5, 2, Delivered, 0, TryLockOp [] ''b''), (9, 2, ReplyLost ''eof'', 0, IsLockedOp)] :: sl_op sent list"
  let ?l = "\<lparr>rs_key = ''k'', rs_value = ''''\<rparr>" and ?s = "ref_elapse 0 ref_empty"
  have el: "ref_db ?s = Map.empty" by (simp add: ref_db_elapse live_def fun_eq_iff)
  obtain s1 where s1: "RS_TryLock ref_exec ref_fmt Delivered [] ''a'' 0 ?l ?s =
      ((ref_db ?s (rs_key ?l) = None, None), ?l\<lparr>rs_value := Value (ApplyLockOptions [] ''a'')\<rparr>, s1)"
    using ref_clients.TryLock_whole [of "[]" "''a''" 0 ?l ?s] by (auto simp: default_ttl)
  let ?st1 = "((\<lambda>_. '''')(1 := ''a''), s1)"
  have g: "?step ?e (\<lambda>_. '''', ref_empty) = (BoolRes True None, ?st1)"
    by (simp add: rs_step.simps s1 el default_value)
  have n1: "rs_now s1 = 0"
    using ref_clients.now_rs_step [of "\<lambda>_. ''k''" 0 1 Delivered 0 "TryLockOp [] ''a''" "(\<lambda>_. '''', ref_empty)"] g
    by simp
  have n2: "rs_now (snd (snd (run ?step ?evs ?st1))) = 14"
    by (simp add: run_Cons_snd ref_clients.now_rs_step n1 del: run.simps(2))
  have "along (\<lambda>ev st. \<not> rs_yields ref_db rs_now (\<lambda>_. ''k'') ''k'' ev st) ?step ?evs ?st1"
    by simp
  moreover have "rs_now (snd (snd (run ?step ?evs ?st1))) <
      rs_now (snd ?st1) + sint (LockTTL (ApplyLockOptions [] ''a'')) div 1000000"
    unfolding n2 default_ttl by (simp add: n1)
  ultimately show ?thesis
    using redis_TryLock_excludes [OF ref_clients.redis_clients_axioms refl g _ surjective_pairing] g
    unfolding default_value by blast
qed


text \<open>
  C31: TTLs below a second's grain. The TTL is sent as \<open>Seconds()\<close>, a \<open>float64\<close>, and the
  server takes only integers. With a TTL that is not a whole number of seconds, and below \<open>2 ^ 24\<close>
  seconds (194 days; beyond it \<open>float64\<close> may round the part of a second away), \<open>TryLock\<close> is never
  granted: whatever the key holds, nothing included, it fails with a network error, and keys are
  unchanged. An \<open>Extend\<close> with such a TTL changes no key either, and it fails the same way when the
  key holds the value of the handle.
\<close>
theorem fractional_TTL_always_fails:
  assumes "redis_clients exec db now_ms elapse fmt"
    and "sint ttl mod 1000000000 \<noteq> 0" and "\<bar>sint ttl\<bar> < 2 ^ 24 * 1000000000"
  shows "(LockTTL (ApplyLockOptions opts uv) = ttl \<and>
        RS_TryLock exec fmt net opts uv ts l s = (r, l', s1) \<longrightarrow>
      (\<exists>e. r = (False, Some (WrapNetworkError (Some e) ''acquire_lock'' ts))) \<and> db s1 = db s) \<and>
    (RS_Extend exec fmt net' ttl ts' l s = (r', s2) \<longrightarrow> db s2 = db s \<and>
      (\<forall>eo. db s (rs_key l) = Some (VStr (rs_value l), eo) \<longrightarrow>
        (\<exists>e. r' = (False, Some (WrapNetworkError (Some e) ''extend'' ts')))))"
proof -
  have "\<exists>e. r = (False, Some (WrapNetworkError (Some e) ''acquire_lock'' ts)) \<and> db s1 = db s"
    if "LockTTL (ApplyLockOptions opts uv) = ttl" "RS_TryLock exec fmt net opts uv ts l s = (r, l', s1)"
    using redis_clients.fraction_TryLock [OF assms(1) _ _ that(2)] assms(2,3) that(1) by simp
  moreover have "db s2 = db s" if "RS_Extend exec fmt net' ttl ts' l s = (r', s2)"
    using redis_clients.fraction_Extend_state [OF assms that] .
  moreover have "\<exists>e. r' = (False, Some (WrapNetworkError (Some e) ''extend'' ts')) \<and> db s2 = db s"
    if "RS_Extend exec fmt net' ttl ts' l s = (r', s2)" "db s (rs_key l) = Some (VStr (rs_value l), eo)" for eo
    using redis_clients.fraction_Extend [OF assms that(2,1)] .
  ultimately show ?thesis by blast
qed

theorem fractional_TTL_always_fails_witness:
  "(\<exists>e. fst (RS_TryLock ref_exec ref_fmt Delivered [WithLockTTL (500 * Millisecond)] ''a'' 0
      \<lparr>rs_key = ''k'', rs_value = ''a''\<rparr> (ref_single ''k'' (VStr ''a''))) =
      (False, Some (WrapNetworkError (Some e) ''acquire_lock'' 0))) \<and>
   (\<exists>e. fst (RS_Extend ref_exec ref_fmt Delivered (500 * Millisecond) 0
      \<lparr>rs_key = ''k'', rs_value = ''a''\<rparr> (ref_single ''k'' (VStr ''a''))) =
      (False, Some (WrapNetworkError (Some e) ''extend'' 0)))"
proof -
  let ?l = "\<lparr>rs_key = ''k'', rs_value = ''a''\<rparr>" and ?s = "ref_single ''k'' (VStr ''a'')"
  have d: "sint (500 * Millisecond) mod 1000000000 \<noteq> 0"
    "\<bar>sint (500 * Millisecond)\<bar> < 2 ^ 24 * 1000000000" by (simp_all add: dur_defs)
  have o: "LockTTL (ApplyLockOptions [WithLockTTL (500 * Millisecond)] ''a'') = 500 * Millisecond"
    by (simp add: Apply_LockTTL WithLockTTL_def)
  have h: "ref_db ?s (rs_key ?l) = Some (VStr (rs_value ?l), Some 60000)" by simp
  obtain r l' s1 where t: "RS_TryLock ref_exec ref_fmt Delivered [WithLockTTL (500 * Millisecond)] ''a'' 0 ?l ?s =
      (r, l', s1)" by (metis prod.collapse)
  obtain r' s2 where x: "RS_Extend ref_exec ref_fmt Delivered (500 * Millisecond) 0 ?l ?s = (r', s2)" by fastforce
  from fractional_TTL_always_fails [OF ref_clients.redis_clients_axioms d,
      of "[WithLockTTL (500 * Millisecond)]" "''a''" Delivered 0 ?l ?s r l' s1 Delivered 0 r' s2] o t x h
  show ?thesis by simp
qed

text \<open>
  a second \<open>TryLock\<close> makes the holder forget. \<open>TryLock\<close> stores its new value in the handle
  before it asks the server: when the handle already holds the lock, the attempt is refused, and
  afterwards \<open>Unlock\<close> through the handle is answered with \<open>LOCK_NOT_FOUND\<close> and leaves the lock in
  place until it expires.
\<close>
theorem refused_TryLock_forgets_holder:
  assumes "redis_clients exec db now_ms elapse fmt"
    and "db s (rs_key l) = Some (VStr (rs_value l), eo)"
    and "Value (ApplyLockOptions opts uv) \<noteq> rs_value l"
    and "0 < sint (LockTTL (ApplyLockOptions opts uv))"
    and "sint (LockTTL (ApplyLockOptions opts uv)) mod 1000000000 = 0"
    and "RS_TryLock exec fmt Delivered opts uv ts l s = (r, l', s1)"
    and "RS_Unlock exec Delivered ts' l' s1 = (e, s2)"
  shows "r = (False, None) \<and> e = Some (NewLockNotFoundError (rs_key l) ts') \<and> db s2 = db s"
proof -
  note server = redis_clients.axioms(1) [OF assms(1)]
  have try_lock: "r = (False, None)" "l' = l\<lparr>rs_value := Value (ApplyLockOptions opts uv)\<rparr>" "db s1 = db s"
    using redis_clients.TryLock_whole [OF assms(1,4,5), of ts l s] assms(2,6) by auto
  then have key: "db s1 (rs_key l') = Some (VStr (rs_value l), eo)" using assms(2) by simp
  then have "\<not> redis_server.is_list db s1 (rs_key l')" "redis_server.holder db s1 (rs_key l') \<noteq> Some (rs_value l')"
    using assms(3) try_lock(2)
    by (simp_all add: redis_server.is_list_def [OF server] redis_server.holder_def [OF server])
  from redis_clients.Unlock_delivered [OF assms(1) this(1), of ts'] this(2)
  show ?thesis using assms(7) try_lock by auto
qed

theorem refused_TryLock_forgets_holder_witness:
  "\<exists>l' s1 s2. RS_TryLock ref_exec ref_fmt Delivered [] ''b'' 0 \<lparr>rs_key = ''k'', rs_value = ''a''\<rparr>
      (ref_single ''k'' (VStr ''a'')) = ((False, None), l', s1) \<and>
    RS_Unlock ref_exec Delivered 0 l' s1 = (Some (NewLockNotFoundError ''k'' 0), s2)"
proof -
  let ?l = "\<lparr>rs_key = ''k'', rs_value = ''a''\<rparr>" and ?s = "ref_single ''k'' (VStr ''a'')"
  obtain r l' s1 where t: "RS_TryLock ref_exec ref_fmt Delivered [] ''b'' 0 ?l ?s = (r, l', s1)"
    by (metis prod.collapse)
  obtain e s2 where u: "RS_Unlock ref_exec Delivered 0 l' s1 = (e, s2)" by fastforce
  have "ref_db ?s (rs_key ?l) = Some (VStr (rs_value ?l), Some 60000)" by simp
  from refused_TryLock_forgets_holder [OF ref_clients.redis_clients_axioms this _ _ _ t u] t u
  show ?thesis by (simp add: default_ttl default_value)
qed

text \<open>
  a lost reply. When the server grants the lock but its reply is lost, \<open>TryLock\<close> reports a
  network error although the key is now leased to the value in the handle; \<open>Unlock\<close> through the
  same handle recovers: it succeeds and frees the key.
\<close>
theorem lost_reply_recoverable:
  assumes "redis_clients exec db now_ms elapse fmt" and "db s (rs_key l) = None"
    and "0 < sint (LockTTL (ApplyLockOptions opts uv))"
    and "sint (LockTTL (ApplyLockOptions opts uv)) mod 1000000000 = 0"
    and "RS_TryLock exec fmt (ReplyLost m) opts uv ts l s = (r, l', s1)"
    and "RS_Unlock exec Delivered ts' l' s1 = (e, s2)"
  shows "r = (False, Some (WrapNetworkError (Some (PlainErr m)) ''acquire_lock'' ts)) \<and>
    db s1 (rs_key l) = Some (VStr (rs_value l'), Some (now_ms s + sint (LockTTL (ApplyLockOptions opts uv)) div 1000000)) \<and>
    e = None \<and> db s2 = db s"
proof -
  note server = redis_clients.axioms(1) [OF assms(1)]
  let ?c = "ApplyLockOptions opts uv"
  let ?sc = "SimpleLockAcquireScript exec [rs_key l] [Value ?c, fmt (LockTTL ?c)]"
  have t: "r = (False, Some (WrapNetworkError (Some (PlainErr m)) ''acquire_lock'' ts))"
    "l' = l\<lparr>rs_value := Value ?c\<rparr>" "s1 = snd (?sc s)"
    using assms(5) by (simp_all add: RS_TryLock_def client_eval_def as_int_def Let_def)
  obtain n where n: "expiry (fmt (LockTTL ?c)) = Some n" "1000 * n = sint (LockTTL ?c) div 1000000"
    by (rule redis_clients.seconds_exact [OF assms(1,3,4)])
  have s1: "db s1 = (db s)(rs_key l \<mapsto> (VStr (Value ?c), Some (now_ms s + sint (LockTTL ?c) div 1000000)))"
    using assms(2) by (simp add: t(3) redis_clients.db_acquire [OF assms(1)] n)
  then have "\<not> redis_server.is_list db s1 (rs_key l')" "redis_server.holder db s1 (rs_key l') = Some (rs_value l')"
    using t(2) by (simp_all add: redis_server.is_list_def [OF server] redis_server.holder_def [OF server])
  from redis_clients.Unlock_delivered [OF assms(1) this(1), of ts'] this(2)
  have "e = None" "db s2 = (db s1)(rs_key l := None)" using assms(6) t(2) by auto
  then show ?thesis using t s1 assms(2) by (simp add: fun_upd_idem_iff)
qed

theorem lost_reply_recoverable_witness:
  "\<exists>l' s1 s2. RS_TryLock ref_exec ref_fmt (ReplyLost ''eof'') [] ''a'' 0 (newRedisSimpleLock ''k'') ref_empty =
      ((False, Some (WrapNetworkError (Some (PlainErr ''eof'')) ''acquire_lock'' 0)), l', s1) \<and>
    RS_Unlock ref_exec Delivered 0 l' s1 = (None, s2)"
proof -
  obtain r l' s1 where t: "RS_TryLock ref_exec ref_fmt (ReplyLost ''eof'') [] ''a'' 0 (newRedisSimpleLock ''k'') ref_empty =
      (r, l', s1)" by (metis prod.collapse)
  obtain e s2 where u: "RS_Unlock ref_exec Delivered 0 l' s1 = (e, s2)" by fastforce
  have "ref_db ref_empty (rs_key (newRedisSimpleLock ''k'')) = None" by simp
  from lost_reply_recoverable [OF ref_clients.redis_clients_axioms this _ _ t u] t u
  show ?thesis by (simp add: default_ttl)
qed

end
