(* ===== verification/RedisRW.thy ===== *)
theory RedisRW
  imports RedisSimple
begin

text \<open>
  \<open>src/redis_rw.go\<close> and the scripts of lines 58-127 of \<open>src/redis_scripts.go\<close>: the
  distributed read-write lock. Two keys per lock, \<open><key>:read\<close> with the number of readers and
  \<open><key>:write\<close> with the value of the writer.
\<close>

section \<open>Scripts\<close>

text \<open>
  Lua's \<open>tonumber\<close> on the text of a counter key. \<open>INCR\<close> and \<open>DECR\<close> keep such a key a decimal
  integer; for any other text the model takes \<open>nil\<close>.
\<close>

definition lua_tonumber :: "reply \<Rightarrow> int option" where
  "lua_tonumber r = (case r of RStr w \<Rightarrow> parse_int w | RInt n \<Rightarrow> Some n | _ \<Rightarrow> None)"

definition RWLockAcquireReadScript :: "'s script" where
  "RWLockAcquireReadScript exec KEYS ARGV =
     redis_call exec [''EXISTS'', KEYS ! 1] (\<lambda>r.
       if r = RInt 0
       then redis_call exec [''INCR'', KEYS ! 0] (\<lambda>_.
              redis_call exec [''EXPIRE'', KEYS ! 0, ARGV ! 0] (\<lambda>_. lua_return (RInt 1)))
       else lua_return (RInt 0))"

definition RWLockReleaseReadScript :: "'s script" where
  "RWLockReleaseReadScript exec KEYS ARGV =
     redis_call exec [''GET'', KEYS ! 0] (\<lambda>count.
       if \<not> truthy count then lua_return (RInt 0)
       else (case lua_tonumber count of
           None \<Rightarrow> lua_return (RErr ''attempt to compare number with nil'')
         | Some c \<Rightarrow>
             if 1 < c then redis_call exec [''DECR'', KEYS ! 0] (\<lambda>_. lua_return (RInt 1))
             else redis_call exec [''DEL'', KEYS ! 0] (\<lambda>_. lua_return (RInt 1))))"

definition RWLockAcquireWriteScript :: "'s script" where
  "RWLockAcquireWriteScript exec KEYS ARGV =
     redis_call exec [''EXISTS'', KEYS ! 0] (\<lambda>r.
       if r = RInt 0
       then redis_call exec [''EXISTS'', KEYS ! 1] (\<lambda>w.
              if w = RInt 0
              then redis_call exec [''SET'', KEYS ! 1, ARGV ! 0, ''EX'', ARGV ! 1] (\<lambda>_. lua_return (RInt 1))
              else lua_return (RInt 0))
       else lua_return (RInt 0))"

definition RWLockReleaseWriteScript :: "'s script" where
  "RWLockReleaseWriteScript exec KEYS ARGV =
     redis_call exec [''GET'', KEYS ! 0] (\<lambda>r.
       if r = RStr (ARGV ! 0)
       then redis_call exec [''DEL'', KEYS ! 0] (\<lambda>_. lua_return (RInt 1))
       else lua_return (RInt 0))"

text \<open>A \<open>nil\<close> in the returned table ends the array the client receives.\<close>

definition RWLockStatusScript :: "'s script" where
  "RWLockStatusScript exec KEYS ARGV =
     redis_call exec [''GET'', KEYS ! 0] (\<lambda>r.
       let read_count = (if truthy r then lua_tonumber r else Some 0)
       in redis_call exec [''EXISTS'', KEYS ! 1] (\<lambda>write_locked.
            lua_return (RList (case read_count of None \<Rightarrow> [] | Some c \<Rightarrow> [RInt c, write_locked]))))"

section \<open>The handle and its methods\<close>

record redisRWLock =
  rrw_key :: string
  rrw_writeValue :: string

definition readKey :: "string \<Rightarrow> string" where "readKey key = key @ '':read''"
definition writeKey :: "string \<Rightarrow> string" where "writeKey key = key @ '':write''"

definition newRedisRWLock :: "string \<Rightarrow> redisRWLock" where
  "newRedisRWLock key = \<lparr>rrw_key = key, rrw_writeValue = ''''\<rparr>"

definition RRW_TryRLock ::
    "'s server \<Rightarrow> (duration \<Rightarrow> string) \<Rightarrow> net \<Rightarrow> LockOption list \<Rightarrow> string \<Rightarrow> gotime
       \<Rightarrow> redisRWLock \<Rightarrow> 's \<Rightarrow> (bool \<times> err option) \<times> 's" where
  "RRW_TryRLock exec fmt net opts uv ts l s =
     (let config = ApplyLockOptions opts uv
      in case client_eval net (RWLockAcquireReadScript exec [readKey (rrw_key l), writeKey (rrw_key l)]
                [fmt (LockTTL config)]) s of
           (x, s') \<Rightarrow>
             (case as_int x of
                Inl e \<Rightarrow> ((False, Some (WrapNetworkError (Some e) ''acquire_read_lock'' ts)), s')
              | Inr result \<Rightarrow> ((result = 1, None), s')))"

definition RRW_RUnlock :: "'s server \<Rightarrow> net \<Rightarrow> gotime \<Rightarrow> redisRWLock \<Rightarrow> 's \<Rightarrow> err option \<times> 's" where
  "RRW_RUnlock exec net ts l s =
     (case client_eval net (RWLockReleaseReadScript exec [readKey (rrw_key l)] []) s of
        (x, s') \<Rightarrow>
          (case as_int x of
             Inl e \<Rightarrow> (Some (WrapNetworkError (Some e) ''release_read_lock'' ts), s')
           | Inr result \<Rightarrow> (if result = 0 then Some (NewLockNotFoundError (rrw_key l) ts) else None, s')))"

definition RRW_TryWLock ::
    "'s server \<Rightarrow> (duration \<Rightarrow> string) \<Rightarrow> net \<Rightarrow> LockOption list \<Rightarrow> string \<Rightarrow> gotime
       \<Rightarrow> redisRWLock \<Rightarrow> 's \<Rightarrow> (bool \<times> err option) \<times> redisRWLock \<times> 's" where
  "RRW_TryWLock exec fmt net opts uv ts l s =
     (let config = ApplyLockOptions opts uv;
          l' = l\<lparr>rrw_writeValue := Value config\<rparr>
      in case client_eval net (RWLockAcquireWriteScript exec [readKey (rrw_key l), writeKey (rrw_key l)]
                [Value config, fmt (LockTTL config)]) s of
           (x, s') \<Rightarrow>
             (case as_int x of
                Inl e \<Rightarrow> ((False, Some (WrapNetworkError (Some e) ''acquire_write_lock'' ts)), l', s')
              | Inr result \<Rightarrow> ((result = 1, None), l', s')))"

definition RRW_WUnlock :: "'s server \<Rightarrow> net \<Rightarrow> gotime \<Rightarrow> redisRWLock \<Rightarrow> 's \<Rightarrow> err option \<times> 's" where
  "RRW_WUnlock exec net ts l s =
     (case client_eval net (RWLockReleaseWriteScript exec [writeKey (rrw_key l)] [rrw_writeValue l]) s of
        (x, s') \<Rightarrow>
          (case as_int x of
             Inl e \<Rightarrow> (Some (WrapNetworkError (Some e) ''release_write_lock'' ts), s')
           | Inr result \<Rightarrow> (if result = 0 then Some (NewLockNotFoundError (rrw_key l) ts) else None, s')))"

definition RRW_GetReadCount ::
    "'s server \<Rightarrow> net \<Rightarrow> gotime \<Rightarrow> redisRWLock \<Rightarrow> 's \<Rightarrow> (int \<times> err option) \<times> 's" where
  "RRW_GetReadCount exec net ts l s =
     (case client_eval net (RWLockStatusScript exec [readKey (rrw_key l), writeKey (rrw_key l)] []) s of
        (x, s') \<Rightarrow>
          (case as_slice x of
             Inl e \<Rightarrow> ((0, Some (WrapNetworkError (Some e) ''get_read_count'' ts)), s')
           | Inr result \<Rightarrow>
               (case result of
                  RInt readCount # _ \<Rightarrow> ((readCount, None), s')
                | _ \<Rightarrow> ((0, Some (unexpected_response ''get_read_count'' ts)), s'))))"

definition RRW_IsWriteLocked ::
    "'s server \<Rightarrow> net \<Rightarrow> gotime \<Rightarrow> redisRWLock \<Rightarrow> 's \<Rightarrow> (bool \<times> err option) \<times> 's" where
  "RRW_IsWriteLocked exec net ts l s =
     (case client_eval net (RWLockStatusScript exec [readKey (rrw_key l), writeKey (rrw_key l)] []) s of
        (x, s') \<Rightarrow>
          (case as_slice x of
             Inl e \<Rightarrow> ((False, Some (WrapNetworkError (Some e) ''check_write_locked'' ts)), s')
           | Inr result \<Rightarrow>
               (case result of
                  _ # RInt writeLocked # _ \<Rightarrow> ((writeLocked = 1, None), s')
                | _ \<Rightarrow> ((False, Some (unexpected_response ''check_write_locked'' ts)), s'))))"

definition RRW_GetKey :: "redisRWLock \<Rightarrow> string" where "RRW_GetKey l = rrw_key l"

text \<open>The blocking \<open>RLock\<close> and \<open>WLock\<close>, as for the simple lock.\<close>

definition RRW_RLock ::
    "'w go_rt \<Rightarrow> 's server \<Rightarrow> (duration \<Rightarrow> string) \<Rightarrow> ('w \<Rightarrow> net \<times> 'w) \<Rightarrow> ('w \<Rightarrow> redisRWLock \<times> 's)
       \<Rightarrow> (redisRWLock \<times> 's \<Rightarrow> 'w \<Rightarrow> 'w) \<Rightarrow> LockOption list \<Rightarrow> 'w \<Rightarrow> (err option \<times> 'w) option" where
  "RRW_RLock rt exec fmt send get put opts w =
     (case rt_unique rt w of (uv, w1) \<Rightarrow>
        RetryLockOperation rt (NewRetryConfigFromLockOptions (rrw_key (fst (get w))) opts uv)
          (\<lambda>w. case rt_unique rt w of (uv, w1) \<Rightarrow> case rt_now rt w1 of (ts, w2) \<Rightarrow> case send w2 of (net, w3) \<Rightarrow>
             (case get w3 of (l, s) \<Rightarrow> case RRW_TryRLock exec fmt net opts uv ts l s of
                (r, s') \<Rightarrow> (r, put (l, s') w3))) w1)"

definition RRW_WLock ::
    "'w go_rt \<Rightarrow> 's server \<Rightarrow> (duration \<Rightarrow> string) \<Rightarrow> ('w \<Rightarrow> net \<times> 'w) \<Rightarrow> ('w \<Rightarrow> redisRWLock \<times> 's)
       \<Rightarrow> (redisRWLock \<times> 's \<Rightarrow> 'w \<Rightarrow> 'w) \<Rightarrow> LockOption list \<Rightarrow> 'w \<Rightarrow> (err option \<times> 'w) option" where
  "RRW_WLock rt exec fmt send get put opts w =
     (case rt_unique rt w of (uv, w1) \<Rightarrow>
        RetryLockOperation rt (NewRetryConfigFromLockOptions (rrw_key (fst (get w))) opts uv)
          (\<lambda>w. case rt_unique rt w of (uv, w1) \<Rightarrow> case rt_now rt w1 of (ts, w2) \<Rightarrow> case send w2 of (net, w3) \<Rightarrow>
             (case get w3 of (l, s) \<Rightarrow> case RRW_TryWLock exec fmt net opts uv ts l s of
                (r, l', s') \<Rightarrow> (r, put (l', s') w3))) w1)"

section \<open>What the scripts do\<close>

lemma keys_distinct [simp]:
  "readKey k \<noteq> writeKey k'" "writeKey k' \<noteq> readKey k"
  "writeKey k = writeKey k' \<longleftrightarrow> k = k'" "readKey k = readKey k' \<longleftrightarrow> k = k'"
proof -
  have "last (readKey k) \<noteq> last (writeKey k')" by (simp add: readKey_def writeKey_def)
  then show "readKey k \<noteq> writeKey k'" "writeKey k' \<noteq> readKey k" by auto
qed (simp_all add: readKey_def writeKey_def)

text \<open>The abstract view: the number of readers a counter key stands for.\<close>

definition counter :: "(rval \<times> int option) option \<Rightarrow> int option" where
  "counter x = (case x of None \<Rightarrow> Some 0 | Some (VStr w, eo) \<Rightarrow>
     (if w = dec (the (parse_int w)) \<and> 0 < the (parse_int w) \<and> the (parse_int w) < 2 ^ 63 - 1
      then parse_int w else None) | _ \<Rightarrow> None)"

lemma counter_None [simp]: "counter None = Some 0"
  by (simp add: counter_def)

lemma counter_Some:
  assumes "counter (Some y) = Some c"
  obtains eo where "y = (VStr (dec c), eo)" and "0 < c" and "c < 2 ^ 63 - 1"
proof -
  obtain x eo where y: "y = (x, eo)" by (cases y)
  then obtain w where w: "x = VStr w" using assms by (cases x) (auto simp: counter_def)
  with assms y have "w = dec c" "0 < c" "c < 2 ^ 63 - 1" by (auto simp: counter_def split: if_splits)
  with y w show thesis using that by simp
qed

lemma counter_dec [simp]: "0 < c \<Longrightarrow> c < 2 ^ 63 - 1 \<Longrightarrow> counter (Some (VStr (dec c), eo)) = Some c"
  by (simp add: counter_def)


lemmas rw_scripts = RWLockAcquireReadScript_def RWLockReleaseReadScript_def
  RWLockAcquireWriteScript_def RWLockReleaseWriteScript_def RWLockStatusScript_def

context redis_server begin

lemma now_rw_scripts [simp]:
  "now_ms (snd (RWLockAcquireReadScript exec KEYS ARGV s)) = now_ms s"
  "now_ms (snd (RWLockReleaseReadScript exec KEYS ARGV s)) = now_ms s"
  "now_ms (snd (RWLockAcquireWriteScript exec KEYS ARGV s)) = now_ms s"
  "now_ms (snd (RWLockReleaseWriteScript exec KEYS ARGV s)) = now_ms s"
  "now_ms (snd (RWLockStatusScript exec KEYS ARGV s)) = now_ms s"
  unfolding rw_scripts Let_def by (auto intro!: now_redis_call simp: if_distrib split: option.split)

text \<open>\<open>INCR\<close> and \<open>DECR\<close> on a counter key.\<close>

lemma INCR_counter:
  assumes "counter (db s k) = Some c" and "c < 2 ^ 63 - 2"
  shows "redis_call exec [''INCR'', k] cont s = cont (RInt (c + 1)) (snd (exec [''INCR'', k] s))"
    and "db (snd (exec [''INCR'', k] s)) =
      (db s)(k \<mapsto> (VStr (dec (c + 1)), case db s k of Some (x, eo) \<Rightarrow> eo | None \<Rightarrow> None))"
proof -
  show "redis_call exec [''INCR'', k] cont s = cont (RInt (c + 1)) (snd (exec [''INCR'', k] s))"
  proof (cases "db s k")
    case None
    with assms exec_INCR(1) [OF None] show ?thesis by (simp add: redis_call_ok)
  next
    case (Some y)
    with assms(1) obtain eo where y: "y = (VStr (dec c), eo)" "0 < c" by (auto elim: counter_Some)
    with Some assms(2) exec_INCR(2) [of s k c eo] show ?thesis by (simp add: redis_call_ok)
  qed
  show "db (snd (exec [''INCR'', k] s)) =
      (db s)(k \<mapsto> (VStr (dec (c + 1)), case db s k of Some (x, eo) \<Rightarrow> eo | None \<Rightarrow> None))"
  proof (cases "db s k")
    case None
    with assms db_INCR(1) [OF None] show ?thesis by simp
  next
    case (Some y)
    with assms(1) obtain eo where y: "y = (VStr (dec c), eo)" "0 < c" by (auto elim: counter_Some)
    with Some assms(2) db_INCR(2) [of s k c eo] show ?thesis by simp
  qed
qed

lemma acquire_read_script:
  assumes "db s wk = None" and "counter (db s rk) = Some c" and "c < 2 ^ 63 - 2" and "expiry w = Some n"
    and "rk \<noteq> wk"
  shows "fst (RWLockAcquireReadScript exec [rk, wk] [w] s) = RInt 1"
    and "db (snd (RWLockAcquireReadScript exec [rk, wk] [w] s)) =
      (db s)(rk \<mapsto> (VStr (dec (c + 1)), Some (now_ms s + 1000 * n)))"
  using assms by (simp_all add: RWLockAcquireReadScript_def call_EXISTS INCR_counter redis_call_ok
      exec_EXPIRE db_EXPIRE lua_return_def)

lemma acquire_read_script_fraction:
  assumes "db s wk = None" and "counter (db s rk) = Some c" and "c < 2 ^ 63 - 2" and "parse_int w = None"
  shows "is_err (fst (RWLockAcquireReadScript exec [rk, wk] [w] s))"
    and "db (snd (RWLockAcquireReadScript exec [rk, wk] [w] s)) =
      (db s)(rk \<mapsto> (VStr (dec (c + 1)), case db s rk of Some (x, eo) \<Rightarrow> eo | None \<Rightarrow> None))"
  using assms by (simp_all add: RWLockAcquireReadScript_def call_EXISTS INCR_counter redis_call_is_err
      exec_EXPIRE_err db_EXPIRE_err)

lemma acquire_read_script_locked:
  assumes "db s wk \<noteq> None"
  shows "fst (RWLockAcquireReadScript exec [rk, wk] [w] s) = RInt 0"
    and "db (snd (RWLockAcquireReadScript exec [rk, wk] [w] s)) = db s"
  using assms by (auto simp: RWLockAcquireReadScript_def call_EXISTS lua_return_def)

lemma release_read_script:
  assumes "counter (db s rk) = Some c"
  shows "fst (RWLockReleaseReadScript exec [rk] [] s) = RInt (if c = 0 then 0 else 1)"
    and "db (snd (RWLockReleaseReadScript exec [rk] [] s)) =
      (db s)(rk := if c \<le> 1 then None else map_option (\<lambda>(x, eo). (VStr (dec (c - 1)), eo)) (db s rk))"
proof -
  have "fst (RWLockReleaseReadScript exec [rk] [] s) = RInt (if c = 0 then 0 else 1) \<and>
    db (snd (RWLockReleaseReadScript exec [rk] [] s)) =
      (db s)(rk := if c \<le> 1 then None else map_option (\<lambda>(x, eo). (VStr (dec (c - 1)), eo)) (db s rk))"
  proof (cases "db s rk")
    case None
    with assms show ?thesis
      by (auto simp: RWLockReleaseReadScript_def call_GET holder_def is_list_def truthy_def lua_return_def)
  next
    case (Some y)
    with assms obtain eo where y: "db s rk = Some (VStr (dec c), eo)" "0 < c" "c < 2 ^ 63 - 1"
      by (auto elim: counter_Some)
    then have "holder s rk = Some (dec c)" "\<not> is_list s rk" by (simp_all add: holder_def is_list_def)
    with y show ?thesis
      by (simp add: RWLockReleaseReadScript_def call_GET call_DEL truthy_def lua_tonumber_def
          lua_return_def redis_call_ok exec_DECR db_DECR)
  qed
  then show "fst (RWLockReleaseReadScript exec [rk] [] s) = RInt (if c = 0 then 0 else 1)"
    and "db (snd (RWLockReleaseReadScript exec [rk] [] s)) =
      (db s)(rk := if c \<le> 1 then None else map_option (\<lambda>(x, eo). (VStr (dec (c - 1)), eo)) (db s rk))"
    by simp_all
qed

lemma acquire_write_script:
  assumes "rk \<noteq> wk" and "expiry w = Some n"
  shows "fst (RWLockAcquireWriteScript exec [rk, wk] [v, w] s) =
      RInt (if db s rk = None \<and> db s wk = None then 1 else 0)"
    and "db (snd (RWLockAcquireWriteScript exec [rk, wk] [v, w] s)) =
      (if db s rk = None \<and> db s wk = None
       then (db s)(wk \<mapsto> (VStr v, Some (now_ms s + 1000 * n))) else db s)"
  using assms by (simp_all add: RWLockAcquireWriteScript_def call_EXISTS redis_call_ok exec_SET db_SET
      lua_return_def)

lemma acquire_write_script_held:
  assumes "db s rk \<noteq> None \<or> db s wk \<noteq> None"
  shows "fst (RWLockAcquireWriteScript exec [rk, wk] [v, w] s) = RInt 0"
    and "db (snd (RWLockAcquireWriteScript exec [rk, wk] [v, w] s)) = db s"
  using assms by (auto simp: RWLockAcquireWriteScript_def call_EXISTS lua_return_def)

lemma acquire_write_script_bad:
  assumes "bad_expiry w"
  shows "is_err (fst (RWLockAcquireWriteScript exec [rk, wk] [v, w] s)) \<or>
      fst (RWLockAcquireWriteScript exec [rk, wk] [v, w] s) = RInt 0"
    and "db (snd (RWLockAcquireWriteScript exec [rk, wk] [v, w] s)) = db s"
proof -
  have *: "is_err (fst (redis_call exec [''SET'', wk, v, ''EX'', w] cont s))"
    "db (snd (redis_call exec [''SET'', wk, v, ''EX'', w] cont s)) = db s" for s cont
    using exec_SET_err [OF assms, of wk v s] db_SET_err [OF assms, of wk v s]
    by (simp_all add: redis_call_is_err)
  show "is_err (fst (RWLockAcquireWriteScript exec [rk, wk] [v, w] s)) \<or>
      fst (RWLockAcquireWriteScript exec [rk, wk] [v, w] s) = RInt 0"
    using *(1) by (simp add: RWLockAcquireWriteScript_def call_EXISTS lua_return_def)
  show "db (snd (RWLockAcquireWriteScript exec [rk, wk] [v, w] s)) = db s"
    using *(2) by (simp add: RWLockAcquireWriteScript_def call_EXISTS lua_return_def)
qed

lemma release_write_script:
  "fst (RWLockReleaseWriteScript exec [k] [v] s) =
     (if is_list s k then RErr ''WRONGTYPE'' else RInt (if holder s k = Some v then 1 else 0))"
  "db (snd (RWLockReleaseWriteScript exec [k] [v] s)) =
     (if holder s k = Some v then (db s)(k := None) else db s)"
  using release_script [of k v s] by (simp_all add: RWLockReleaseWriteScript_def SimpleLockReleaseScript_def)

lemma rw_status_script:
  assumes "counter (db s rk) = Some c"
  shows "fst (RWLockStatusScript exec [rk, wk] [] s) = RList [RInt c, RInt (if db s wk = None then 0 else 1)]"
    and "db (snd (RWLockStatusScript exec [rk, wk] [] s)) = db s"
proof -
  have "\<not> is_list s rk" "holder s rk = (if c = 0 then None else Some (dec c))"
    using assms by (cases "db s rk"; auto simp: holder_def is_list_def elim!: counter_Some)+
  then show "fst (RWLockStatusScript exec [rk, wk] [] s) = RList [RInt c, RInt (if db s wk = None then 0 else 1)]"
    "db (snd (RWLockStatusScript exec [rk, wk] [] s)) = db s"
    by (auto simp: RWLockStatusScript_def call_GET call_EXISTS truthy_def lua_tonumber_def lua_return_def)
qed

end


section \<open>Runs\<close>

datatype rrw_op = TryRLockR "LockOption list" string | RUnlockR | TryWLockR "LockOption list" string
  | WUnlockR | GetReadCountR | IsWriteLockedR

fun rrw_step ::
    "'s server \<Rightarrow> (duration \<Rightarrow> string) \<Rightarrow> (nat \<Rightarrow> 's \<Rightarrow> 's) \<Rightarrow> (nat \<Rightarrow> string) \<Rightarrow> rrw_op sent
       \<Rightarrow> (nat \<Rightarrow> string) \<times> 's \<Rightarrow> op_result \<times> ((nat \<Rightarrow> string) \<times> 's)" where
  "rrw_step exec fmt elapse keyof (d, i, net, ts, oper) (vals, s) =
     (let s1 = elapse d s; l = \<lparr>rrw_key = keyof i, rrw_writeValue = vals i\<rparr> in
      case oper of
        TryRLockR opts uv \<Rightarrow> (case RRW_TryRLock exec fmt net opts uv ts l s1 of
            ((b, e), s') \<Rightarrow> (BoolRes b e, (vals, s')))
      | RUnlockR \<Rightarrow> (case RRW_RUnlock exec net ts l s1 of (e, s') \<Rightarrow> (ErrRes e, (vals, s')))
      | TryWLockR opts uv \<Rightarrow> (case RRW_TryWLock exec fmt net opts uv ts l s1 of
            ((b, e), l', s') \<Rightarrow> (BoolRes b e, (vals(i := rrw_writeValue l'), s')))
      | WUnlockR \<Rightarrow> (case RRW_WUnlock exec net ts l s1 of (e, s') \<Rightarrow> (ErrRes e, (vals, s')))
      | GetReadCountR \<Rightarrow> (case RRW_GetReadCount exec net ts l s1 of ((n, e), s') \<Rightarrow> (NumRes n e, (vals, s')))
      | IsWriteLockedR \<Rightarrow> (case RRW_IsWriteLocked exec net ts l s1 of ((b, e), s') \<Rightarrow> (BoolRes b e, (vals, s'))))"

fun rrw_granted :: "(nat \<Rightarrow> string) \<Rightarrow> string \<Rightarrow> rrw_op sent \<Rightarrow> op_result \<Rightarrow> bool" where
  "rrw_granted keyof key (d, i, net, ts, TryRLockR opts uv) (BoolRes b e) = (b \<and> keyof i = key)"
| "rrw_granted keyof key (d, i, net, ts, TryWLockR opts uv) (BoolRes b e) = (b \<and> keyof i = key)"
| "rrw_granted keyof key ev r = False"

text \<open>Only an unlock by a client whose handle has the writer's value ends a write lease early.\<close>

fun rrw_yields ::
    "('s \<Rightarrow> keyspace) \<Rightarrow> (nat \<Rightarrow> string) \<Rightarrow> string \<Rightarrow> rrw_op sent \<Rightarrow> (nat \<Rightarrow> string) \<times> 's \<Rightarrow> bool" where
  "rrw_yields db keyof key (d, i, net, ts, WUnlockR) (vals, s) =
     (keyof i = key \<and> map_option fst (db s (writeKey key)) = Some (VStr (vals i)))"
| "rrw_yields db keyof key ev st = False"

definition rrw_script ::
    "'s server \<Rightarrow> (duration \<Rightarrow> string) \<Rightarrow> string \<Rightarrow> string \<Rightarrow> rrw_op \<Rightarrow> 's \<Rightarrow> reply \<times> 's" where
  "rrw_script exec fmt key v oper = (case oper of
        TryRLockR opts uv \<Rightarrow> RWLockAcquireReadScript exec [readKey key, writeKey key]
          [fmt (LockTTL (ApplyLockOptions opts uv))]
      | RUnlockR \<Rightarrow> RWLockReleaseReadScript exec [readKey key] []
      | TryWLockR opts uv \<Rightarrow> RWLockAcquireWriteScript exec [readKey key, writeKey key]
          [Value (ApplyLockOptions opts uv), fmt (LockTTL (ApplyLockOptions opts uv))]
      | WUnlockR \<Rightarrow> RWLockReleaseWriteScript exec [writeKey key] [v]
      | GetReadCountR \<Rightarrow> RWLockStatusScript exec [readKey key, writeKey key] []
      | IsWriteLockedR \<Rightarrow> RWLockStatusScript exec [readKey key, writeKey key] [])"

lemma rrw_step_server:
  "snd (snd (rrw_step exec fmt elapse keyof (d, i, net, ts, oper) (vals, s))) =
     snd (client_eval net (rrw_script exec fmt (keyof i) (vals i) oper) (elapse d s))"
  by (cases oper)
     (simp_all add: rrw_script_def Let_def case_prod_beta RRW_TryRLock_def RRW_RUnlock_def RRW_TryWLock_def
        RRW_WUnlock_def RRW_GetReadCount_def RRW_IsWriteLocked_def split: sum.split list.split reply.split)

text \<open>A grant was delivered, and its script returned 1.\<close>

lemma rrw_granted_script:
  assumes "rrw_granted keyof key e (fst (rrw_step exec fmt elapse keyof e (vals, s)))"
  obtains d i net ts oper n where "e = (d, i, net, ts, oper)" and "keyof i = key"
    and "as_int (fst (client_eval net (rrw_script exec fmt key (vals i) oper) (elapse d s))) = Inr 1"
    and "(\<exists>opts uv. oper = TryRLockR opts uv) \<or> (\<exists>opts uv. oper = TryWLockR opts uv)"
proof -
  obtain d i net ts oper where e: "e = (d, i, net, ts, oper)" by (cases e)
  show thesis
  proof (cases oper)
    case (TryRLockR opts uv)
    show thesis
      by (rule that [OF e])
         (use assms e TryRLockR in \<open>auto simp: rrw_script_def RRW_TryRLock_def Let_def case_prod_beta split: sum.splits\<close>)
  next
    case (TryWLockR opts uv)
    show thesis
      by (rule that [OF e])
         (use assms e TryWLockR in \<open>auto simp: rrw_script_def RRW_TryWLock_def Let_def case_prod_beta split: sum.splits\<close>)
  qed (use assms e in \<open>simp_all add: Let_def case_prod_beta\<close>)
qed

declare rrw_step.simps [simp del]

lemma as_int_one: "as_int (fst (client_eval net script s)) = Inr 1 \<Longrightarrow>
   net = Delivered \<and> (fst (script s) = RInt 1 \<or> (\<exists>w. fst (script s) = RStr w))"
  by (cases net) (auto simp: client_eval_def as_int_def split: prod.splits reply.splits)


definition rrw_lease :: "('s \<Rightarrow> keyspace) \<Rightarrow> string \<Rightarrow> (nat \<Rightarrow> string) \<times> 's \<Rightarrow> (string \<times> int) option" where
  "rrw_lease db key st =
     (case db (snd st) (writeKey key) of Some (VStr v, Some E) \<Rightarrow> Some (v, E - 1) | _ \<Rightarrow> None)"

context redis_clients begin

lemma now_rrw_script [simp]: "now_ms (snd (rrw_script exec fmt key v oper s)) = now_ms s"
  by (cases oper) (simp_all add: rrw_script_def)

lemma now_rrw_step: "now_ms (snd (snd (rrw_step exec fmt elapse keyof (d, i, net, ts, oper) st))) = now_ms (snd st) + int d"
  by (cases st) (simp add: rrw_step_server now_client_eval)

lemma rrw_script_frame:
  assumes "j \<noteq> readKey key" and "j \<noteq> writeKey key"
  shows "db (snd (rrw_script exec fmt key v oper s)) j = db s j"
proof -
  have "leaves j (rrw_script exec fmt key v oper)"
    using assms by (cases oper) (auto simp: rrw_script_def rw_scripts Let_def intro!: leaves_rules)
  then show ?thesis by (rule leavesD)
qed

text \<open>A write lock that exists is touched only by an unlock with its value.\<close>

lemma rrw_script_write_key:
  assumes "db s (writeKey key) = Some (VStr w, eo)" and "oper = WUnlockR \<Longrightarrow> v \<noteq> w"
  shows "db (snd (rrw_script exec fmt key v oper s)) (writeKey key) = Some (VStr w, eo)"
proof (cases oper)
  case RUnlockR
  have "leaves (writeKey key) (rrw_script exec fmt key v oper)"
    by (auto simp: RUnlockR rrw_script_def rw_scripts Let_def intro!: leaves_rules)
  with assms(1) show ?thesis by (simp add: leavesD)
next
  case GetReadCountR
  then show ?thesis using assms(1)
    by (auto simp: rrw_script_def RWLockStatusScript_def Let_def call_GET call_EXISTS lua_return_def)
next
  case IsWriteLockedR
  then show ?thesis using assms(1)
    by (auto simp: rrw_script_def RWLockStatusScript_def Let_def call_GET call_EXISTS lua_return_def)
next
  case WUnlockR
  then show ?thesis using assms by (simp add: rrw_script_def release_write_script holder_def)
qed (use assms in \<open>simp_all add: rrw_script_def acquire_read_script_locked acquire_write_script_held\<close>)

lemma rrw_lease_kept:
  assumes "rrw_lease db key st = Some (v, E)"
    and "now_ms (snd (snd (rrw_step exec fmt elapse keyof e st))) \<le> E"
    and "\<not> rrw_yields db keyof key e st"
  shows "\<not> rrw_granted keyof key e (fst (rrw_step exec fmt elapse keyof e st)) \<and>
    (\<exists>E'\<ge>E. rrw_lease db key (snd (rrw_step exec fmt elapse keyof e st)) = Some (v, E'))"
proof -
  obtain vals s where st: "st = (vals, s)" by (cases st)
  obtain d i net ts oper where e: "e = (d, i, net, ts, oper)" by (cases e)
  have key: "db s (writeKey key) = Some (VStr v, Some (E + 1))"
    using assms(1) by (auto simp: rrw_lease_def st split: option.splits rval.splits prod.splits)
  have live: "db (elapse d s) (writeKey key) = Some (VStr v, Some (E + 1))"
    using assms(2) unfolding e st now_rrw_step by (intro db_elapse_live [OF key]) simp
  have "\<not> rrw_granted keyof key e (fst (rrw_step exec fmt elapse keyof e st))"
  proof
    assume "rrw_granted keyof key e (fst (rrw_step exec fmt elapse keyof e st))"
    then have "as_int (fst (client_eval net (rrw_script exec fmt key (vals i) oper) (elapse d s))) = Inr 1"
      and op: "(\<exists>opts uv. oper = TryRLockR opts uv) \<or> (\<exists>opts uv. oper = TryWLockR opts uv)"
      unfolding st by (auto elim!: rrw_granted_script simp: e)
    from as_int_one [OF this(1)] op live show False
      by (auto simp: rrw_script_def acquire_read_script_locked acquire_write_script_held)
  qed
  moreover have "db (snd (rrw_script exec fmt (keyof i) (vals i) oper (elapse d s))) (writeKey key) =
      Some (VStr v, Some (E + 1))"
  proof (cases "keyof i = key")
    case True
    with assms(3) key have "oper = WUnlockR \<Longrightarrow> vals i \<noteq> v" by (auto simp: e st)
    with rrw_script_write_key [OF live] True show ?thesis by blast
  next
    case False
    with live show ?thesis by (simp add: rrw_script_frame)
  qed
  then have "db (snd (snd (rrw_step exec fmt elapse keyof e st))) (writeKey key) = Some (VStr v, Some (E + 1))"
    using db_client_eval [of net "rrw_script exec fmt (keyof i) (vals i) oper" "elapse d s"] live
    unfolding e st rrw_step_server by auto
  ultimately show ?thesis by (simp add: rrw_lease_def)
qed

lemma rrw_grant_lease:
  assumes "rrw_step exec fmt elapse keyof (d, i, net, ts, TryWLockR opts uv) st = (BoolRes True e, st1)"
    and "keyof i = key"
  obtains E where "rrw_lease db key st1 = Some (Value (ApplyLockOptions opts uv), E)"
    and "now_ms (snd st1) + sint (LockTTL (ApplyLockOptions opts uv)) div 1000000 - 1 \<le> E"
proof -
  obtain vals s where st: "st = (vals, s)" by (cases st)
  let ?e = "(d, i, net, ts, TryWLockR opts uv)" and ?c = "ApplyLockOptions opts uv"
  let ?sc = "rrw_script exec fmt key (vals i) (TryWLockR opts uv)" and ?s = "elapse d s"
  have "rrw_granted keyof key ?e (fst (rrw_step exec fmt elapse keyof ?e (vals, s)))"
    using assms by (simp add: st)
  then have "as_int (fst (client_eval net ?sc ?s)) = Inr 1" by (auto elim!: rrw_granted_script)
  from as_int_one [OF this] have net: "net = Delivered" and one: "fst (?sc ?s) = RInt 1 \<or> (\<exists>w. fst (?sc ?s) = RStr w)"
    by auto
  have st1: "snd st1 = snd (?sc ?s)"
    using rrw_step_server [of exec fmt elapse keyof d i net ts "TryWLockR opts uv" vals s] assms net
    by (simp add: st client_eval_state)
  from fmt show thesis
  proof (cases rule: seconds_format_cases [where d = "LockTTL ?c"])
    case (valid n)
    with one st1 have "rrw_lease db key st1 = Some (Value ?c, now_ms (snd st1) + 1000 * n - 1)"
      by (auto simp: rrw_lease_def rrw_script_def acquire_write_script split: if_splits)
    with valid(4) show thesis by (intro that) (assumption, linarith)
  next
    case (past n)
    with one acquire_write_script_bad(1) [OF past(4), of "readKey key" "writeKey key" "Value ?c" ?s]
    show thesis by (auto simp: rrw_script_def)
  next
    case fraction
    with one acquire_write_script_bad(1) [OF fraction(2), of "readKey key" "writeKey key" "Value ?c" ?s]
    show thesis by (auto simp: rrw_script_def)
  qed
qed

end


sublocale redis_clients < rw_lock: leased "rrw_step exec fmt elapse keyof" "\<lambda>st. now_ms (snd st)"
    "rrw_lease db key" "rrw_granted keyof key" "rrw_yields db keyof key"
  for keyof :: "nat \<Rightarrow> string" and key :: string
proof unfold_locales
  fix st :: "(nat \<Rightarrow> string) \<times> 's" and e :: "rrw_op sent" and v E
  obtain d i net ts oper where e: "e = (d, i, net, ts, oper)" by (cases e)
  show "now_ms (snd st) \<le> now_ms (snd (snd (rrw_step exec fmt elapse keyof e st)))"
    unfolding e now_rrw_step by simp
qed (rule rrw_lease_kept)

context redis_clients begin

lemma rrw_grant_then_exclusion:
  assumes "keyof i = key"
    and "rrw_step exec fmt elapse keyof (d, i, net, ts, TryWLockR opts uv) st = (BoolRes True e, st1)"
    and "along (\<lambda>ev st. \<not> rrw_yields db keyof key ev st) (rrw_step exec fmt elapse keyof) evs st1"
    and "run (rrw_step exec fmt elapse keyof) evs st1 = (rs, st2)"
    and "now_ms (snd st2) < now_ms (snd st1) + sint (LockTTL (ApplyLockOptions opts uv)) div 1000000"
  shows "(\<forall>(ev, r) \<in> set (zip evs rs). \<not> rrw_granted keyof key ev r) \<and>
    (\<exists>E. rrw_lease db key st2 = Some (Value (ApplyLockOptions opts uv), E))"
proof -
  obtain E where E: "rrw_lease db key st1 = Some (Value (ApplyLockOptions opts uv), E)"
    and le: "now_ms (snd st1) + sint (LockTTL (ApplyLockOptions opts uv)) div 1000000 - 1 \<le> E"
    by (rule rrw_grant_lease [OF assms(2,1)])
  from le assms(5) have "now_ms (snd st2) \<le> E" by simp
  with rw_lock.exclusion [OF E assms(3)] assms(4) show ?thesis by auto
qed

text \<open>The reader count as an abstract number, and what the delivered read operations do to it.\<close>

lemma TryRLock_whole:
  assumes "0 < sint (LockTTL (ApplyLockOptions opts uv))"
    and "sint (LockTTL (ApplyLockOptions opts uv)) mod 1000000000 = 0"
    and "counter (db s (readKey (rrw_key l))) = Some c" and "c < 2 ^ 63 - 2"
  shows "\<exists>s'. RRW_TryRLock exec fmt Delivered opts uv ts l s = ((db s (writeKey (rrw_key l)) = None, None), s') \<and>
    db s' = (if db s (writeKey (rrw_key l)) = None then (db s)(readKey (rrw_key l) \<mapsto> (VStr (dec (c + 1)),
        Some (now_ms s + sint (LockTTL (ApplyLockOptions opts uv)) div 1000000))) else db s)"
proof -
  let ?sc = "RWLockAcquireReadScript exec [readKey (rrw_key l), writeKey (rrw_key l)]
      [fmt (LockTTL (ApplyLockOptions opts uv))]"
  let ?d = "sint (LockTTL (ApplyLockOptions opts uv))"
  have "1000 * (?d div 1000000000) = ?d div 1000000"
    using assms(2) mult_div_mod_eq [of 1000000000 ?d] by simp
  with seconds_format_whole [OF fmt assms(1,2)] assms(3,4)
  have "fst (?sc s) = RInt (if db s (writeKey (rrw_key l)) = None then 1 else 0)"
    "db (snd (?sc s)) = (if db s (writeKey (rrw_key l)) = None then (db s)(readKey (rrw_key l) \<mapsto> (VStr (dec (c + 1)),
        Some (now_ms s + ?d div 1000000))) else db s)"
    by (simp_all add: acquire_read_script acquire_read_script_locked)
  then show ?thesis
    by (intro exI [of _ "snd (?sc s)"]) (simp add: RRW_TryRLock_def Let_def client_eval_Delivered as_int_def)
qed

lemma RUnlock_delivered:
  assumes "counter (db s (readKey (rrw_key l))) = Some c"
  shows "\<exists>s'. RRW_RUnlock exec Delivered ts l s =
      (if c = 0 then Some (NewLockNotFoundError (rrw_key l) ts) else None, s') \<and>
    db s' = (db s)(readKey (rrw_key l) := if c \<le> 1 then None
      else map_option (\<lambda>(x, eo). (VStr (dec (c - 1)), eo)) (db s (readKey (rrw_key l))))"
  using release_read_script [OF assms]
  by (intro exI [of _ "snd (RWLockReleaseReadScript exec [readKey (rrw_key l)] [] s)"])
     (simp add: RRW_RUnlock_def client_eval_Delivered as_int_def)

lemma GetReadCount_delivered:
  assumes "counter (db s (readKey (rrw_key l))) = Some c"
  shows "\<exists>s'. RRW_GetReadCount exec Delivered ts l s = ((c, None), s') \<and> db s' = db s"
  using rw_status_script [OF assms, of "writeKey (rrw_key l)"]
  by (intro exI [of _ "snd (RWLockStatusScript exec [readKey (rrw_key l), writeKey (rrw_key l)] [] s)"])
     (simp add: RRW_GetReadCount_def client_eval_Delivered as_slice_def)

lemma TryWLock_whole:
  assumes "0 < sint (LockTTL (ApplyLockOptions opts uv))"
    and "sint (LockTTL (ApplyLockOptions opts uv)) mod 1000000000 = 0"
  shows "\<exists>l' s'. RRW_TryWLock exec fmt Delivered opts uv ts l s =
    ((db s (readKey (rrw_key l)) = None \<and> db s (writeKey (rrw_key l)) = None, None), l', s')"
proof -
  let ?sc = "RWLockAcquireWriteScript exec [readKey (rrw_key l), writeKey (rrw_key l)]
      [Value (ApplyLockOptions opts uv), fmt (LockTTL (ApplyLockOptions opts uv))]"
  have "fst (?sc s) = RInt (if db s (readKey (rrw_key l)) = None \<and> db s (writeKey (rrw_key l)) = None then 1 else 0)"
    using acquire_write_script(1) [OF _ seconds_format_whole [OF fmt assms]] by simp
  then show ?thesis by (simp add: RRW_TryWLock_def Let_def client_eval_Delivered as_int_def)
qed

lemma now_TryRLock: "now_ms (snd (RRW_TryRLock exec fmt net opts uv ts l s)) = now_ms s"
  by (simp add: RRW_TryRLock_def Let_def case_prod_beta now_client_eval split: sum.split)

lemma TryWLock_readers:
  assumes "db s (readKey (rrw_key l)) \<noteq> None"
  shows "fst (RRW_TryWLock exec fmt Delivered opts uv ts l s) = (False, None)"
  using acquire_write_script_held(1) [of s "readKey (rrw_key l)" "writeKey (rrw_key l)"] assms
  by (simp add: RRW_TryWLock_def Let_def client_eval_Delivered as_int_def)

text \<open>
  A reader count without an expiry, at most \<open>n\<close>, and no writer. Only an \<open>RUnlock\<close> on the key, or a
  \<open>TryRLock\<close> whose TTL is a valid expiry, can end it.
\<close>

definition leaked :: "string \<Rightarrow> int \<Rightarrow> 's \<Rightarrow> bool" where
  "leaked key n s \<longleftrightarrow> db s (writeKey key) = None \<and>
     (\<exists>c. 1 \<le> c \<and> c \<le> n \<and> db s (readKey key) = Some (VStr (dec c), None))"

lemma leaked_elapse: "leaked key n s \<Longrightarrow> leaked key n (elapse d s)"
  by (auto simp: leaked_def db_elapse)

lemma leaked_mono: "leaked key n s \<Longrightarrow> n \<le> m \<Longrightarrow> leaked key m s"
  by (force simp: leaked_def)

lemma leaked_script:
  assumes "leaked key n s" and "n < 2 ^ 63 - 2" and "oper \<noteq> RUnlockR"
    and "\<And>opts uv. oper = TryRLockR opts uv \<Longrightarrow> parse_int (fmt (LockTTL (ApplyLockOptions opts uv))) = None"
  shows "leaked key (n + 1) (snd (rrw_script exec fmt key v oper s))"
    and "(\<exists>opts uv. oper = TryRLockR opts uv \<or> oper = TryWLockR opts uv) \<Longrightarrow>
      is_err (fst (rrw_script exec fmt key v oper s)) \<or> fst (rrw_script exec fmt key v oper s) = RInt 0"
proof -
  obtain c where c: "1 \<le> c" "c \<le> n" "db s (readKey key) = Some (VStr (dec c), None)"
    and w: "db s (writeKey key) = None" using assms(1) by (auto simp: leaked_def)
  then have cnt: "counter (db s (readKey key)) = Some c" "c < 2 ^ 63 - 2" using assms(2) by simp_all
  note rd = acquire_read_script_fraction [OF w cnt]
  have hw: "holder s (writeKey key) = None" using w by (simp add: holder_def)
  have same: "leaked key (n + 1) s'" if "db s' = db s" for s'
    using leaked_mono [OF assms(1), of "n + 1"] that by (simp add: leaked_def)
  show "leaked key (n + 1) (snd (rrw_script exec fmt key v oper s))"
  proof (cases oper)
    case (TryRLockR opts uv)
    with c w rd(2) [OF assms(4)] show ?thesis
      by (simp add: leaked_def rrw_script_def) (metis add_increasing2 zero_le_one add_right_mono)
  qed (use assms(3) c hw cnt in \<open>auto intro!: same simp: rrw_script_def acquire_write_script_held
      release_write_script rw_status_script\<close>)
  show "is_err (fst (rrw_script exec fmt key v oper s)) \<or> fst (rrw_script exec fmt key v oper s) = RInt 0"
    if "\<exists>opts uv. oper = TryRLockR opts uv \<or> oper = TryWLockR opts uv"
    using that rd(1) [OF assms(4)] c(3) by (auto simp: rrw_script_def acquire_write_script_held)
qed

lemma leaked_step:
  assumes "leaked key n (snd st)" and "n < 2 ^ 63 - 2" and "e = (d, i, net, ts, oper)"
    and "keyof i = key \<Longrightarrow> oper \<noteq> RUnlockR"
    and "\<And>opts uv. keyof i = key \<Longrightarrow> oper = TryRLockR opts uv \<Longrightarrow>
      parse_int (fmt (LockTTL (ApplyLockOptions opts uv))) = None"
  shows "leaked key (n + 1) (snd (snd (rrw_step exec fmt elapse keyof e st)))"
    and "\<not> rrw_granted keyof key e (fst (rrw_step exec fmt elapse keyof e st))"
proof -
  obtain vals s where st: "st = (vals, s)" by (cases st)
  let ?sc = "rrw_script exec fmt (keyof i) (vals i) oper" and ?s = "elapse d s"
  have l: "leaked key n ?s" using assms(1) by (simp add: st leaked_elapse)
  have "leaked key (n + 1) (snd (?sc ?s))"
  proof (cases "keyof i = key")
    case True
    with leaked_script(1) [OF l assms(2), of oper "vals i"] assms(4,5) show ?thesis by blast
  next
    case False
    with leaked_mono [OF l, of "n + 1"] show ?thesis by (simp add: leaked_def rrw_script_frame)
  qed
  then show "leaked key (n + 1) (snd (snd (rrw_step exec fmt elapse keyof e st)))"
    using leaked_mono [OF l, of "n + 1"] unfolding assms(3) st rrw_step_server client_eval_state
    by (auto split: net.split)
  show "\<not> rrw_granted keyof key e (fst (rrw_step exec fmt elapse keyof e st))"
  proof
    assume "rrw_granted keyof key e (fst (rrw_step exec fmt elapse keyof e st))"
    then have k: "keyof i = key" and one: "as_int (fst (client_eval net ?sc ?s)) = Inr 1"
      and op: "\<exists>opts uv. oper = TryRLockR opts uv \<or> oper = TryWLockR opts uv"
      unfolding st by (auto elim!: rrw_granted_script simp: assms(3))
    from as_int_one [OF one] leaked_script(2) [OF l assms(2) _ _ op, of "vals i"] assms(4,5) k
    show False by (auto simp: is_err_def)
  qed
qed

lemma leaked_run:
  assumes "leaked key n (snd st)" and "n + int (length evs) < 2 ^ 63 - 2"
    and "\<forall>(d, i, net, ts, oper) \<in> set evs. keyof i = key \<longrightarrow> oper \<noteq> RUnlockR \<and>
      (\<forall>opts uv. oper = TryRLockR opts uv \<longrightarrow> parse_int (fmt (LockTTL (ApplyLockOptions opts uv))) = None)"
  shows "(\<forall>(ev, r) \<in> set (zip evs (fst (run (rrw_step exec fmt elapse keyof) evs st))).
      \<not> rrw_granted keyof key ev r) \<and>
    leaked key (n + int (length evs)) (snd (snd (run (rrw_step exec fmt elapse keyof) evs st)))"
  using assms
proof (induction evs arbitrary: st n)
  case (Cons e es)
  obtain d i net ts oper where e: "e = (d, i, net, ts, oper)" by (cases e)
  have lt: "n < 2 ^ 63 - 2" using Cons.prems(2) by simp
  have ok: "keyof i = key \<Longrightarrow> oper \<noteq> RUnlockR"
    "\<And>opts uv. keyof i = key \<Longrightarrow> oper = TryRLockR opts uv \<Longrightarrow>
      parse_int (fmt (LockTTL (ApplyLockOptions opts uv))) = None"
    using Cons.prems(3) by (auto simp: e)
  note step = leaked_step [OF Cons.prems(1) lt e ok]
  have "(\<forall>(ev, r) \<in> set (zip es (fst (run (rrw_step exec fmt elapse keyof) es
        (snd (rrw_step exec fmt elapse keyof e st))))). \<not> rrw_granted keyof key ev r) \<and>
    leaked key (n + 1 + int (length es)) (snd (snd (run (rrw_step exec fmt elapse keyof) es
        (snd (rrw_step exec fmt elapse keyof e st)))))"
    using Cons.prems(2,3) by (intro Cons.IH [OF step(1)]) auto
  with step(2) show ?case
    by (simp add: run_Cons_fst run_Cons_snd algebra_simps del: run.simps(2))
qed simp

lemma TryRLock_leaks:
  assumes "parse_int (fmt (LockTTL (ApplyLockOptions opts uv))) = None"
    and "db (snd st) (readKey (keyof i)) = None" and "db (snd st) (writeKey (keyof i)) = None"
    and "rrw_step exec fmt elapse keyof (d, i, Delivered, ts, TryRLockR opts uv) st = (r, st')"
  shows "\<exists>e. r = BoolRes False (Some (WrapNetworkError (Some e) ''acquire_read_lock'' ts))"
    and "db (snd st') (readKey (keyof i)) = Some (VStr (dec 1), None)" and "leaked (keyof i) 1 (snd st')"
proof -
  obtain vals s where st: "st = (vals, s)" by (cases st)
  let ?sc = "RWLockAcquireReadScript exec [readKey (keyof i), writeKey (keyof i)]
      [fmt (LockTTL (ApplyLockOptions opts uv))]" and ?s = "elapse d s"
  have none: "db ?s (readKey (keyof i)) = None" "db ?s (writeKey (keyof i)) = None"
    using assms(2,3) by (simp_all add: st db_elapse)
  have cnt: "counter (db ?s (readKey (keyof i))) = Some 0" by (simp add: none)
  note fr = acquire_read_script_fraction [OF none(2) cnt _ assms(1)]
  obtain m where m: "fst (?sc ?s) = RErr m" using fr(1) by (auto simp: is_err_def)
  then show "\<exists>e. r = BoolRes False (Some (WrapNetworkError (Some e) ''acquire_read_lock'' ts))"
    using assms(4) by (auto simp: rrw_step.simps st Let_def RRW_TryRLock_def client_eval_Delivered as_int_def)
  have st': "snd st' = snd (?sc ?s)"
    using assms(4) m by (auto simp: rrw_step.simps st Let_def RRW_TryRLock_def client_eval_Delivered as_int_def)
  then show r: "db (snd st') (readKey (keyof i)) = Some (VStr (dec 1), None)"
    using fr(2) none by simp
  then show "leaked (keyof i) 1 (snd st')"
    using fr(2) none st' by (auto simp: leaked_def intro: exI [of _ 1])
qed

end


section \<open>Properties\<close>

text \<open>
  C5: a writer excludes everyone. Once \<open>TryWLock\<close> on \<open>key\<close> has been granted with TTL \<open>d\<close>, then
  along every sequence of operations by any number of clients, on this and other keys, with any
  delays and lost requests and replies, neither a write lock nor a read lock on \<open>key\<close> is granted
  before \<open>d\<close> has passed, unless a client whose handle holds the writer's value unlocks.
\<close>
theorem redis_write_lease_excludes:
  assumes "redis_clients exec db now_ms elapse fmt" and "keyof i = key"
    and "rrw_step exec fmt elapse keyof (d, i, net, ts, TryWLockR opts uv) st = (BoolRes True e, st1)"
    and "along (\<lambda>ev st. \<not> rrw_yields db keyof key ev st) (rrw_step exec fmt elapse keyof) evs st1"
    and "run (rrw_step exec fmt elapse keyof) evs st1 = (rs, st2)"
    and "now_ms (snd st2) < now_ms (snd st1) + sint (LockTTL (ApplyLockOptions opts uv)) div 1000000"
  shows "(\<forall>(ev, r) \<in> set (zip evs rs). \<not> rrw_granted keyof key ev r) \<and>
    (\<exists>E. rrw_lease db key st2 = Some (Value (ApplyLockOptions opts uv), E))"
  by (rule redis_clients.rrw_grant_then_exclusion [OF assms])

theorem redis_write_lease_excludes_witness:
  "\<exists>st1 E. rrw_step ref_exec ref_fmt ref_elapse (\<lambda>_. ''k'') (0, 1, Delivered, 0, TryWLockR [] ''a'')
       (\<lambda>_. '''', ref_empty) = (BoolRes True None, st1) \<and>
     rrw_lease ref_db ''k'' (snd (run (rrw_step ref_exec ref_fmt ref_elapse (\<lambda>_. ''k''))
       [(5, 2, Delivered, 0, TryRLockR [] ''b''), (9, 2, ReplyLost ''eof'', 0, RUnlockR)] st1)) = Some (''a'', E)"
proof -
  let ?step = "rrw_step ref_exec ref_fmt ref_elapse (\<lambda>_. ''k'')"
  let ?e = "(0, 1, Delivered, 0, TryWLockR [] ''a'') :: rrw_op sent"
  let ?evs = "[(5, 2, Delivered, 0, TryRLockR [] ''b''), (9, 2, ReplyLost ''eof'', 0, RUnlockR)] :: rrw_op sent list"
  let ?l = "\<lparr>rrw_key = ''k'', rrw_writeValue = ''''\<rparr>" and ?s = "ref_elapse 0 ref_empty"
  have el: "ref_db ?s = Map.empty" by (simp add: ref_db_elapse live_def fun_eq_iff)
  obtain l1 s1 where s1: "RRW_TryWLock ref_exec ref_fmt Delivered [] ''a'' 0 ?l ?s =
      ((ref_db ?s (readKey (rrw_key ?l)) = None \<and> ref_db ?s (writeKey (rrw_key ?l)) = None, None), l1, s1)"
    using ref_clients.TryWLock_whole [of "[]" "''a''" 0 ?l ?s] by (auto simp: default_ttl)
  let ?st1 = "((\<lambda>_. '''')(1 := rrw_writeValue l1), s1)"
  have g: "?step ?e (\<lambda>_. '''', ref_empty) = (BoolRes True None, ?st1)"
    by (simp add: rrw_step.simps s1 el)
  have n1: "rs_now s1 = 0"
    using ref_clients.now_rrw_step [of "\<lambda>_. ''k''" 0 1 Delivered 0 "TryWLockR [] ''a''" "(\<lambda>_. '''', ref_empty)"] g
    by simp
  have n2: "rs_now (snd (snd (run ?step ?evs ?st1))) = 14"
    by (simp add: run_Cons_snd ref_clients.now_rrw_step n1 del: run.simps(2))
  have "along (\<lambda>ev st. \<not> rrw_yields ref_db (\<lambda>_. ''k'') ''k'' ev st) ?step ?evs ?st1"
    by simp
  moreover have "rs_now (snd (snd (run ?step ?evs ?st1))) <
      rs_now (snd ?st1) + sint (LockTTL (ApplyLockOptions [] ''a'')) div 1000000"
    unfolding n2 default_ttl by (simp add: n1)
  ultimately show ?thesis
    using redis_write_lease_excludes [OF ref_clients.redis_clients_axioms refl g _ surjective_pairing] g
    unfolding default_value by blast
qed

text \<open>
  C19: the read side refines a counter. While the read key stands for a number \<open>c\<close> of readers,
  a delivered \<open>TryRLock\<close> with a whole TTL is granted exactly when no writer holds the lock, and
  then the key stands for \<open>c + 1\<close>; \<open>RUnlock\<close> fails exactly for \<open>c = 0\<close> and otherwise leaves
  \<open>c - 1\<close>, whoever calls it; \<open>GetReadCount\<close> answers \<open>c\<close>; and \<open>TryWLock\<close> is granted exactly when
  \<open>c = 0\<close> and there is no writer.
\<close>
theorem redis_read_count_refines:
  assumes "redis_clients exec db now_ms elapse fmt"
    and "counter (db s (readKey (rrw_key l))) = Some c" and "c < 2 ^ 63 - 2"
    and "0 < sint (LockTTL (ApplyLockOptions opts uv))"
    and "sint (LockTTL (ApplyLockOptions opts uv)) mod 1000000000 = 0"
    and "free = (db s (writeKey (rrw_key l)) = None)"
  shows "(\<exists>s'. RRW_TryRLock exec fmt Delivered opts uv ts l s = ((free, None), s') \<and>
      counter (db s' (readKey (rrw_key l))) = Some (if free then c + 1 else c)) \<and>
    (\<exists>s'. RRW_RUnlock exec Delivered ts l s =
        (if c = 0 then Some (NewLockNotFoundError (rrw_key l) ts) else None, s') \<and>
      counter (db s' (readKey (rrw_key l))) = Some (max 0 (c - 1))) \<and>
    (\<exists>s'. RRW_GetReadCount exec Delivered ts l s = ((c, None), s') \<and> db s' = db s) \<and>
    fst (RRW_TryWLock exec fmt Delivered opts uv ts l s) = (c = 0 \<and> free, None)"
proof -
  let ?k = "readKey (rrw_key l)"
  have c: "0 \<le> c \<and> (c = 0 \<longleftrightarrow> db s ?k = None)"
    using assms(2) by (cases "db s ?k") (auto elim: counter_Some)
  obtain s1 where s1: "RRW_TryRLock exec fmt Delivered opts uv ts l s = ((free, None), s1)"
    "db s1 = (if free then (db s)(?k \<mapsto> (VStr (dec (c + 1)),
        Some (now_ms s + sint (LockTTL (ApplyLockOptions opts uv)) div 1000000))) else db s)"
    using redis_clients.TryRLock_whole [OF assms(1,4,5,2,3), of ts] by (auto simp: assms(6))
  then have "counter (db s1 ?k) = Some (if free then c + 1 else c)" using c assms(2,3) by simp
  moreover obtain s2 where s2: "RRW_RUnlock exec Delivered ts l s =
      (if c = 0 then Some (NewLockNotFoundError (rrw_key l) ts) else None, s2)"
    "db s2 = (db s)(?k := if c \<le> 1 then None else map_option (\<lambda>(x, eo). (VStr (dec (c - 1)), eo)) (db s ?k))"
    using redis_clients.RUnlock_delivered [OF assms(1,2), of ts] by blast
  then have "counter (db s2 ?k) = Some (max 0 (c - 1))"
    using c assms(2) by (cases "db s ?k") (auto elim!: counter_Some)
  moreover obtain l3 s3 where "RRW_TryWLock exec fmt Delivered opts uv ts l s =
      ((db s ?k = None \<and> db s (writeKey (rrw_key l)) = None, None), l3, s3)"
    using redis_clients.TryWLock_whole [OF assms(1,4,5), of ts l s] by blast
  ultimately show ?thesis
    using s1(1) s2(1) redis_clients.GetReadCount_delivered [OF assms(1,2), of ts] c
    by (simp add: assms(6))
qed

theorem redis_read_count_refines_witness:
  "fst (RRW_TryWLock ref_exec ref_fmt Delivered [] ''a'' 0 (newRedisRWLock ''k'') ref_empty) = (True, None)"
proof -
  have "counter (ref_db ref_empty (readKey (rrw_key (newRedisRWLock ''k'')))) = Some 0" by simp
  from redis_read_count_refines [OF ref_clients.redis_clients_axioms this _ _ _ refl, of "[]" "''a''" 0]
  show ?thesis by (simp add: default_ttl)
qed

text \<open>
  C32: a read lock that leaks. The script increments the reader count before it sets the expiry;
  with a TTL that is not a whole number of seconds (and below \<open>2 ^ 24\<close> seconds) the \<open>EXPIRE\<close> fails.
  On a key with no reader count and no writer, a delivered \<open>TryRLock\<close> with such a TTL tells its
  caller that it has no lock, and leaves a count of one that never expires. Then, however long
  anyone waits and whatever any number of clients do on any key, nobody is granted the key, no
  writer and no reader, and the count stays without expiry, as long as nobody calls \<open>RUnlock\<close> on
  the key and every further \<open>TryRLock\<close> on it has such a TTL too (one with a whole TTL sets an expiry
  again), for up to \<open>2 ^ 62\<close> operations.
\<close>
theorem fractional_TTL_read_leak:
  assumes "redis_clients exec db now_ms elapse fmt" and "keyof i = key"
    and "sint (LockTTL (ApplyLockOptions opts uv)) mod 1000000000 \<noteq> 0"
    and "\<bar>sint (LockTTL (ApplyLockOptions opts uv))\<bar> < 2 ^ 24 * 1000000000"
    and "db (snd st) (readKey key) = None" and "db (snd st) (writeKey key) = None"
    and "rrw_step exec fmt elapse keyof (d, i, Delivered, ts, TryRLockR opts uv) st = (r, st1)"
    and "\<forall>(d, i, net, ts, oper) \<in> set evs. keyof i = key \<longrightarrow> oper \<noteq> RUnlockR \<and>
      (\<forall>opts uv. oper = TryRLockR opts uv \<longrightarrow> sint (LockTTL (ApplyLockOptions opts uv)) mod 1000000000 \<noteq> 0 \<and>
        \<bar>sint (LockTTL (ApplyLockOptions opts uv))\<bar> < 2 ^ 24 * 1000000000)"
    and "run (rrw_step exec fmt elapse keyof) evs st1 = (rs, st2)" and "length evs < 2 ^ 62"
  shows "(\<exists>e. r = BoolRes False (Some (WrapNetworkError (Some e) ''acquire_read_lock'' ts))) \<and>
    db (snd st1) (readKey key) = Some (VStr ''1'', None) \<and>
    (\<forall>(ev, r) \<in> set (zip evs rs). \<not> rrw_granted keyof key ev r) \<and>
    (\<exists>w. db (snd st2) (readKey key) = Some (VStr w, None)) \<and> db (snd st2) (writeKey key) = None"
proof -
  note none = seconds_format_fraction [OF redis_clients.fmt [OF assms(1)]]
  note one = redis_clients.TryRLock_leaks [OF assms(1) none [OF assms(3,4)], of st keyof i,
      unfolded assms(2), OF assms(5,6,7)]
  have "\<forall>(d, i, net, ts, oper) \<in> set evs. keyof i = key \<longrightarrow> oper \<noteq> RUnlockR \<and>
      (\<forall>opts uv. oper = TryRLockR opts uv \<longrightarrow> parse_int (fmt (LockTTL (ApplyLockOptions opts uv))) = None)"
  proof (intro ballI)
    fix e assume "e \<in> set evs"
    with assms(8) show "case e of (d, i, net, ts, oper) \<Rightarrow> keyof i = key \<longrightarrow> oper \<noteq> RUnlockR \<and>
      (\<forall>opts uv. oper = TryRLockR opts uv \<longrightarrow> parse_int (fmt (LockTTL (ApplyLockOptions opts uv))) = None)"
      by (cases e) (fastforce intro: none)
  qed
  moreover have "int (length evs) < 2 ^ 62" using assms(10) by simp
  ultimately have "(\<forall>(ev, r) \<in> set (zip evs rs). \<not> rrw_granted keyof key ev r) \<and>
      redis_clients.leaked db key (1 + int (length evs)) (snd st2)"
    using redis_clients.leaked_run [OF assms(1) one(3), of evs keyof] assms(9) by simp
  moreover have "dec 1 = ''1''" by code_simp
  ultimately show ?thesis
    using one(1,2) by (auto simp: redis_clients.leaked_def [OF assms(1)])
qed

theorem fractional_TTL_read_leak_witness:
  "\<exists>st1. rrw_granted (\<lambda>_. ''k'') ''k'' (86400000, 2, Delivered, 0, TryWLockR [] ''b'')
      (fst (rrw_step ref_exec ref_fmt ref_elapse (\<lambda>_. ''k'') (86400000, 2, Delivered, 0, TryWLockR [] ''b'') st1)) = False \<and>
    ref_db (snd st1) (readKey ''k'') = Some (VStr ''1'', None)"
proof -
  let ?o = "[WithLockTTL (1500 * Millisecond)]" and ?step = "rrw_step ref_exec ref_fmt ref_elapse (\<lambda>_. ''k'')"
  let ?st = "((\<lambda>_. ''''), ref_empty) :: (nat \<Rightarrow> string) \<times> ref_state"
  let ?ev = "(86400000, 2, Delivered, 0, TryWLockR [] ''b'') :: rrw_op sent"
  have d: "sint (LockTTL (ApplyLockOptions ?o ''a'')) mod 1000000000 \<noteq> 0"
    "\<bar>sint (LockTTL (ApplyLockOptions ?o ''a''))\<bar> < 2 ^ 24 * 1000000000"
    by (simp_all add: Apply_LockTTL WithLockTTL_def dur_defs)
  have s: "ref_db (snd ?st) (readKey ''k'') = None" "ref_db (snd ?st) (writeKey ''k'') = None" by simp_all
  obtain r st1 where one: "?step (0, 1, Delivered, 0, TryRLockR ?o ''a'') ?st = (r, st1)" by (metis prod.collapse)
  have run: "run ?step [?ev] st1 = ([fst (?step ?ev st1)], snd (?step ?ev st1))"
    by (simp add: case_prod_beta)
  from fractional_TTL_read_leak [OF ref_clients.redis_clients_axioms refl d s one _ run]
  show ?thesis by (intro exI [of _ st1]) simp
qed

text \<open>
  the last reader decides for all. The readers of a key share one expiry, which every new
  reader overwrites: if a first reader is granted the lock for \<open>d1\<close> and a second one, at once,
  for a shorter \<open>d2\<close>, the count of both vanishes after \<open>d2\<close>, and a writer is granted the lock
  while the first reader's TTL is still running.
\<close>
theorem short_reader_cuts_long_reader:
  assumes "redis_clients exec db now_ms elapse fmt"
    and "LockTTL (ApplyLockOptions opts1 uv1) = d1" and "LockTTL (ApplyLockOptions opts2 uv2) = d2"
    and "0 < sint d2" and "sint d2 < sint d1" and "sint d1 mod 1000000000 = 0" and "sint d2 mod 1000000000 = 0"
    and "db s (readKey (rrw_key l)) = None" and "db s (writeKey (rrw_key l)) = None"
    and "RRW_TryRLock exec fmt Delivered opts1 uv1 ts1 l s = (r1, s1)"
    and "RRW_TryRLock exec fmt Delivered opts2 uv2 ts2 l s1 = (r2, s2)"
    and "s3 = elapse (nat (sint d2 div 1000000)) s2"
    and "0 < sint (LockTTL (ApplyLockOptions opts3 uv3))"
    and "sint (LockTTL (ApplyLockOptions opts3 uv3)) mod 1000000000 = 0"
  shows "r1 = (True, None) \<and> r2 = (True, None) \<and> now_ms s3 < now_ms s1 + sint d1 div 1000000 \<and>
    fst (RRW_TryWLock exec fmt Delivered opts3 uv3 ts3 l s3) = (True, None)"
proof -
  note server = redis_clients.axioms(1) [OF assms(1)]
  let ?rk = "readKey (rrw_key l)" and ?wk = "writeKey (rrw_key l)"
  have d1: "0 < sint (LockTTL (ApplyLockOptions opts1 uv1))"
    "sint (LockTTL (ApplyLockOptions opts1 uv1)) mod 1000000000 = 0" using assms(2,4,5,6) by simp_all
  have d2: "0 < sint (LockTTL (ApplyLockOptions opts2 uv2))"
    "sint (LockTTL (ApplyLockOptions opts2 uv2)) mod 1000000000 = 0" using assms(3,4,7) by simp_all
  have c0: "counter (db s ?rk) = Some 0" by (simp add: assms(8))
  from redis_clients.TryRLock_whole [OF assms(1) d1 c0, of ts1] assms(9,10)
  have one: "r1 = (True, None)" "db s1 = (db s)(?rk \<mapsto> (VStr (dec 1), Some (now_ms s + sint d1 div 1000000)))"
    by (auto simp: assms(2))
  have c1: "counter (db s1 ?rk) = Some 1" by (simp add: one(2))
  from redis_clients.TryRLock_whole [OF assms(1) d2 c1, of ts2] assms(9,11)
  have two: "r2 = (True, None)" "db s2 = (db s1)(?rk \<mapsto> (VStr (dec 2), Some (now_ms s1 + sint d2 div 1000000)))"
    by (auto simp: assms(3) one(2))
  have now: "now_ms s1 = now_ms s" "now_ms s2 = now_ms s1"
    using redis_clients.now_TryRLock [OF assms(1), of Delivered opts1 uv1 ts1 l s]
      redis_clients.now_TryRLock [OF assms(1), of Delivered opts2 uv2 ts2 l s1] assms(10,11) by simp_all
  have ms: "int (nat (sint d2 div 1000000)) = sint d2 div 1000000" using assms(4) by simp
  have "sint d2 div 1000000 < sint d1 div 1000000"
  proof -
    have "sint d1 = 1000000 * (1000 * (sint d1 div 1000000000))" "sint d2 = 1000000 * (1000 * (sint d2 div 1000000000))"
      using mult_div_mod_eq [of 1000000000 "sint d1"] mult_div_mod_eq [of 1000000000 "sint d2"] assms(6,7)
      by (simp_all only: add_0_right)
    then obtain a b where "sint d1 = 1000000 * a" "sint d2 = 1000000 * b" by blast
    with assms(5) show ?thesis by simp
  qed
  then have later: "now_ms s3 < now_ms s1 + sint d1 div 1000000"
    using redis_server.now_elapse [OF server] by (simp only: assms(12) ms now(2))
  have "db s3 ?rk = None" "db s3 ?wk = None"
    unfolding assms(12) redis_server.db_elapse [OF server] using now ms
    by (simp_all add: one(2) two(2) assms(9))
  then have "fst (RRW_TryWLock exec fmt Delivered opts3 uv3 ts3 l s3) = (True, None)"
    using redis_clients.TryWLock_whole [OF assms(1,13,14), of ts3 l s3] by auto
  with one(1) two(1) later show ?thesis by blast
qed

theorem short_reader_cuts_long_reader_witness:
  "fst (RRW_TryWLock ref_exec ref_fmt Delivered [] ''c'' 0 (newRedisRWLock ''k'')
      (ref_elapse 5000 (snd (RRW_TryRLock ref_exec ref_fmt Delivered [WithLockTTL (5 * Second)] ''b'' 0 (newRedisRWLock ''k'')
        (snd (RRW_TryRLock ref_exec ref_fmt Delivered [] ''a'' 0 (newRedisRWLock ''k'') ref_empty)))))) = (True, None)"
proof -
  let ?o = "[WithLockTTL (5 * Second)]"
  have d2: "LockTTL (ApplyLockOptions ?o ''b'') = 5 * Second"
    by (simp add: Apply_LockTTL WithLockTTL_def)
  have s: "sint (5 * Second) = 5000000000" by (simp add: dur_defs)
  then have "ref_elapse 5000 x = ref_elapse (nat (sint (5 * Second) div 1000000)) x" for x by simp
  from short_reader_cuts_long_reader [OF ref_clients.redis_clients_axioms refl d2 _ _ _ _ _ _
      surjective_pairing surjective_pairing this, of "[]" "''a''" ref_empty "newRedisRWLock ''k''"]
  show ?thesis by (simp add: s default_ttl)
qed

end
