(* ===== verification/RedisFair.thy ===== *)
theory RedisFair
  imports RedisSimple
begin

text \<open>
  \<open>src/redis_fair.go\<close> and the scripts of lines 128-257 of \<open>src/redis_scripts.go\<close>: the
  distributed fair lock. The key holds the value of the holder, \<open><key>:queue\<close> the list of the
  values that wait, in the order of their requests.
\<close>

section \<open>Scripts\<close>

definition FairLockTryAcquireScript :: "'s script" where
  "FairLockTryAcquireScript exec KEYS ARGV =
     redis_call exec [''EXISTS'', KEYS ! 0] (\<lambda>lock_exists.
       if lock_exists = RInt 0
       then redis_call exec [''SET'', KEYS ! 0, ARGV ! 0, ''EX'', ARGV ! 1] (\<lambda>_. lua_return (RInt 1))
       else redis_call exec [''RPUSH'', KEYS ! 1, ARGV ! 0] (\<lambda>_.
            redis_call exec [''EXPIRE'', KEYS ! 1, ARGV ! 2] (\<lambda>_.
            redis_call exec [''LINDEX'', KEYS ! 1, ''0''] (\<lambda>first.
              if first = RStr (ARGV ! 0)
              then redis_call exec [''GET'', KEYS ! 0] (\<lambda>current_holder.
                     if \<not> truthy current_holder
                     then redis_call exec [''SET'', KEYS ! 0, ARGV ! 0, ''EX'', ARGV ! 1] (\<lambda>_.
                          redis_call exec [''LPOP'', KEYS ! 1] (\<lambda>_. lua_return (RInt 1)))
                     else lua_return (RInt (- 1)))
              else lua_return (RInt (- 1))))))"

definition FairLockAcquireScript :: "'s script" where
  "FairLockAcquireScript exec KEYS ARGV =
     redis_call exec [''LINDEX'', KEYS ! 1, ''0''] (\<lambda>first.
       if first \<noteq> RStr (ARGV ! 0) then lua_return (RInt 0)
       else redis_call exec [''GET'', KEYS ! 0] (\<lambda>current_holder.
              if \<not> truthy current_holder
              then redis_call exec [''SET'', KEYS ! 0, ARGV ! 0, ''EX'', ARGV ! 1] (\<lambda>_.
                   redis_call exec [''LPOP'', KEYS ! 1] (\<lambda>_. lua_return (RInt 1)))
              else lua_return (RInt (- 1))))"

definition FairLockReleaseScript :: "'s script" where
  "FairLockReleaseScript exec KEYS ARGV =
     redis_call exec [''GET'', KEYS ! 0] (\<lambda>r.
       if r = RStr (ARGV ! 0)
       then redis_call exec [''DEL'', KEYS ! 0] (\<lambda>_.
            redis_call exec [''LREM'', KEYS ! 1, ''0'', ARGV ! 0] (\<lambda>_. lua_return (RInt 1)))
       else lua_return (RInt 0))"

definition FairLockExtendScript :: "'s script" where
  "FairLockExtendScript exec KEYS ARGV =
     redis_call exec [''GET'', KEYS ! 0] (\<lambda>r.
       if r = RStr (ARGV ! 0)
       then redis_call exec [''PEXPIRE'', KEYS ! 0, ARGV ! 1] lua_return
       else lua_return (RInt 0))"

text \<open>The loop over \<open>ipairs(queue)\<close>: the position, from 0, of the first element equal to \<open>v\<close>.\<close>

fun ipairs_find :: "int \<Rightarrow> string \<Rightarrow> reply list \<Rightarrow> int" where
  "ipairs_find i v [] = - 1"
| "ipairs_find i v (x # xs) = (if x = RStr v then i else ipairs_find (i + 1) v xs)"

definition FairLockStatusScript :: "'s script" where
  "FairLockStatusScript exec KEYS ARGV =
     redis_call exec [''EXISTS'', KEYS ! 0] (\<lambda>locked.
       let rest = (\<lambda>ttl.
         redis_call exec [''LLEN'', KEYS ! 1] (\<lambda>queue_length.
           if ARGV \<noteq> []
           then redis_call exec [''LRANGE'', KEYS ! 1, ''0'', ''-1''] (\<lambda>queue.
                  lua_return (RList [locked, ttl, queue_length,
                    RInt (case queue of RList xs \<Rightarrow> ipairs_find 0 (ARGV ! 0) xs | _ \<Rightarrow> - 1)]))
           else lua_return (RList [locked, ttl, queue_length, RInt (- 1)])))
       in if locked = RInt 1 then redis_call exec [''PTTL'', KEYS ! 0] rest else rest (RInt (- 1)))"

definition FairLockCleanupScript :: "'s script" where
  "FairLockCleanupScript exec KEYS ARGV =
     redis_call exec [''LREM'', KEYS ! 0, ''0'', ARGV ! 0] lua_return"

section \<open>The handle and its methods\<close>

record redisFairLock =
  rf_key :: string
  rf_queueKey :: string
  rf_value :: string

definition newRedisFairLock :: "string \<Rightarrow> redisFairLock" where
  "newRedisFairLock key = \<lparr>rf_key = key, rf_queueKey = key @ '':queue'', rf_value = ''''\<rparr>"

text \<open>The defaults \<open>Lock\<close> and \<open>TryLock\<close> put in place of durations that are not positive.\<close>

definition rf_lockTTL :: "LockConfig \<Rightarrow> duration" where
  "rf_lockTTL config = (if sint (LockTTL config) \<le> 0 then 30 * Second else LockTTL config)"

definition rf_queueTTL :: "LockConfig \<Rightarrow> duration" where
  "rf_queueTTL config = (if sint (QueueTTL config) \<le> 0 then 5 * Minute else QueueTTL config)"

definition rf_acquireTimeout :: "LockConfig \<Rightarrow> duration" where
  "rf_acquireTimeout config = (if sint (AcquireTimeout config) \<le> 0 then 10 * Second else AcquireTimeout config)"

definition RF_TryLock ::
    "'s server \<Rightarrow> (duration \<Rightarrow> string) \<Rightarrow> net \<Rightarrow> LockOption list \<Rightarrow> string \<Rightarrow> gotime
       \<Rightarrow> redisFairLock \<Rightarrow> 's \<Rightarrow> (bool \<times> err option) \<times> redisFairLock \<times> 's" where
  "RF_TryLock exec fmt net opts uv ts l s =
     (let config = ApplyLockOptions opts uv;
          l' = l\<lparr>rf_value := Value config\<rparr>
      in case client_eval net (FairLockTryAcquireScript exec [rf_key l, rf_queueKey l]
                [Value config, fmt (rf_lockTTL config), fmt (rf_queueTTL config)]) s of
           (x, s') \<Rightarrow>
             (case as_int x of
                Inl e \<Rightarrow> ((False, Some (WrapNetworkError (Some e) ''try_acquire_fair_lock'' ts)), l', s')
              | Inr result \<Rightarrow> ((result = 1, None), l', s')))"

definition RF_Unlock :: "'s server \<Rightarrow> net \<Rightarrow> gotime \<Rightarrow> redisFairLock \<Rightarrow> 's \<Rightarrow> err option \<times> 's" where
  "RF_Unlock exec net ts l s =
     (case client_eval net (FairLockReleaseScript exec [rf_key l, rf_queueKey l] [rf_value l]) s of
        (x, s') \<Rightarrow>
          (case as_int x of
             Inl e \<Rightarrow> (Some (WrapNetworkError (Some e) ''fair_lock_unlock'' ts), s')
           | Inr result \<Rightarrow> (if result = 0 then Some (NewLockNotFoundError (rf_key l) ts) else None, s')))"

text \<open>\<open>ttl.Milliseconds()\<close> is an integer, sent in decimal.\<close>

definition RF_Extend ::
    "'s server \<Rightarrow> net \<Rightarrow> duration \<Rightarrow> gotime \<Rightarrow> redisFairLock \<Rightarrow> 's \<Rightarrow> (bool \<times> err option) \<times> 's" where
  "RF_Extend exec net ttl ts l s =
     (let ms = sint (go_div ttl Millisecond)
      in case client_eval net (FairLockExtendScript exec [rf_key l] [rf_value l, dec ms]) s of
           (x, s') \<Rightarrow>
             (case as_int x of
                Inl e \<Rightarrow> ((False, Some (WrapNetworkError (Some e) ''fair_lock_extend'' ts)), s')
              | Inr result \<Rightarrow> ((result = 1, None), s')))"

definition RF_IsLocked :: "'s server \<Rightarrow> net \<Rightarrow> gotime \<Rightarrow> redisFairLock \<Rightarrow> 's \<Rightarrow> (bool \<times> err option) \<times> 's" where
  "RF_IsLocked exec net ts l s =
     (case client_eval net (FairLockStatusScript exec [rf_key l, rf_queueKey l] []) s of
        (x, s') \<Rightarrow>
          (case as_slice x of
             Inl e \<Rightarrow> ((False, Some (WrapNetworkError (Some e) ''check_fair_lock_status'' ts)), s')
           | Inr result \<Rightarrow>
               (case result of
                  RInt locked # _ \<Rightarrow> ((locked = 1, None), s')
                | _ \<Rightarrow> ((False, Some (unexpected_response ''check_fair_lock_status'' ts)), s'))))"

definition RF_GetTTL :: "'s server \<Rightarrow> net \<Rightarrow> gotime \<Rightarrow> redisFairLock \<Rightarrow> 's \<Rightarrow> (duration \<times> err option) \<times> 's" where
  "RF_GetTTL exec net ts l s =
     (case client_eval net (FairLockStatusScript exec [rf_key l, rf_queueKey l] []) s of
        (x, s') \<Rightarrow>
          (case as_slice x of
             Inl e \<Rightarrow> ((0, Some (WrapNetworkError (Some e) ''get_fair_lock_ttl'' ts)), s')
           | Inr result \<Rightarrow>
               (case result of
                  RInt locked # RInt ttlMs # _ \<Rightarrow>
                    if locked = 0 then ((0, Some (NewLockNotFoundError (rf_key l) ts)), s')
                    else if ttlMs < 0 then ((- 1, None), s')
                    else ((duration_of ttlMs Millisecond, None), s')
                | _ \<Rightarrow> ((0, Some (unexpected_response ''get_fair_lock_ttl'' ts)), s'))))"

definition RF_GetQueuePosition :: "'s server \<Rightarrow> net \<Rightarrow> gotime \<Rightarrow> redisFairLock \<Rightarrow> 's \<Rightarrow> (int \<times> err option) \<times> 's" where
  "RF_GetQueuePosition exec net ts l s =
     (case client_eval net (FairLockStatusScript exec [rf_key l, rf_queueKey l] [rf_value l]) s of
        (x, s') \<Rightarrow>
          (case as_slice x of
             Inl e \<Rightarrow> ((- 1, Some (WrapNetworkError (Some e) ''get_queue_position'' ts)), s')
           | Inr result \<Rightarrow>
               (case result of
                  _ # _ # _ # RInt position # _ \<Rightarrow> ((position, None), s')
                | _ \<Rightarrow> ((- 1, Some (unexpected_response ''get_queue_position'' ts)), s'))))"

definition RF_GetQueueLength :: "'s server \<Rightarrow> net \<Rightarrow> gotime \<Rightarrow> redisFairLock \<Rightarrow> 's \<Rightarrow> (int \<times> err option) \<times> 's" where
  "RF_GetQueueLength exec net ts l s =
     (case client_eval net (FairLockStatusScript exec [rf_key l, rf_queueKey l] []) s of
        (x, s') \<Rightarrow>
          (case as_slice x of
             Inl e \<Rightarrow> ((0, Some (WrapNetworkError (Some e) ''get_queue_length'' ts)), s')
           | Inr result \<Rightarrow>
               (case result of
                  _ # _ # RInt queueLength # _ \<Rightarrow> ((queueLength, None), s')
                | _ \<Rightarrow> ((0, Some (unexpected_response ''get_queue_length'' ts)), s'))))"

definition RF_GetQueueInfo :: "'s server \<Rightarrow> net \<Rightarrow> redisFairLock \<Rightarrow> 's \<Rightarrow> (string list \<times> err option) \<times> 's" where
  "RF_GetQueueInfo exec net l s =
     (case client_eval net (exec [''LRANGE'', rf_queueKey l, ''0'', ''-1'']) s of
        (x, s') \<Rightarrow>
          (case as_strings x of
             Inl e \<Rightarrow> (([], Some e), s')
           | Inr result \<Rightarrow> ((result, None), s')))"

definition RF_GetKey :: "redisFairLock \<Rightarrow> string" where "RF_GetKey l = rf_key l"
definition RF_GetValue :: "redisFairLock \<Rightarrow> string" where "RF_GetValue l = rf_value l"

section \<open>The blocking \<open>Lock\<close>\<close>

text \<open>
  One \<open>Eval\<close> of the world: the fate of the request, then the script on the server; other
  clients may act between two of them (\<open>send\<close> and the runtime change the world).
\<close>

definition rf_eval ::
    "('w \<Rightarrow> net \<times> 'w) \<Rightarrow> ('w \<Rightarrow> redisFairLock \<times> 's) \<Rightarrow> (redisFairLock \<times> 's \<Rightarrow> 'w \<Rightarrow> 'w)
       \<Rightarrow> (redisFairLock \<Rightarrow> 's \<Rightarrow> reply \<times> 's) \<Rightarrow> 'w \<Rightarrow> (err + reply) \<times> 'w" where
  "rf_eval send get put script w =
     (case send w of (net, w1) \<Rightarrow>
        (case get w1 of (l, s) \<Rightarrow>
           (case client_eval net (script l) s of (x, s') \<Rightarrow> (x, put (l, s') w1))))"

partial_function (option) rf_wait ::
    "'w go_rt \<Rightarrow> 's server \<Rightarrow> (duration \<Rightarrow> string) \<Rightarrow> ('w \<Rightarrow> net \<times> 'w) \<Rightarrow> ('w \<Rightarrow> redisFairLock \<times> 's)
       \<Rightarrow> (redisFairLock \<times> 's \<Rightarrow> 'w \<Rightarrow> 'w) \<Rightarrow> duration \<Rightarrow> duration \<Rightarrow> gotime \<Rightarrow> 'w \<Rightarrow> (err option \<times> 'w) option" where
  "rf_wait rt exec fmt send get put acquireTimeout lockTTL deadline w =
     (case rf_eval send get put (\<lambda>l. FairLockAcquireScript exec [rf_key l, rf_queueKey l] [rf_value l, fmt lockTTL]) w of
        (x, w1) \<Rightarrow>
          (case as_int x of
             Inl e \<Rightarrow> (case rt_now rt w1 of (ts, w2) \<Rightarrow>
                         Some (Some (WrapNetworkError (Some e) ''fair_lock_acquire_attempt'' ts), w2))
           | Inr result \<Rightarrow>
               if result = 1 then Some (None, w1)
               else (case rt_now rt w1 of (t, w2) \<Rightarrow>
                  if time_after t deadline then
                    (case rf_eval send get put (\<lambda>l. FairLockCleanupScript exec [rf_queueKey l] [rf_value l]) w2 of
                       (_, w3) \<Rightarrow> (case rt_now rt w3 of (ts, w4) \<Rightarrow>
                          Some (Some (NewAcquireTimeoutError (rf_key (fst (get w4))) acquireTimeout ts), w4)))
                  else rf_wait rt exec fmt send get put acquireTimeout lockTTL deadline
                         (rt_sleep rt (50 * Millisecond) w2))))"

definition RF_Lock ::
    "'w go_rt \<Rightarrow> 's server \<Rightarrow> (duration \<Rightarrow> string) \<Rightarrow> ('w \<Rightarrow> net \<times> 'w) \<Rightarrow> ('w \<Rightarrow> redisFairLock \<times> 's)
       \<Rightarrow> (redisFairLock \<times> 's \<Rightarrow> 'w \<Rightarrow> 'w) \<Rightarrow> LockOption list \<Rightarrow> 'w \<Rightarrow> (err option \<times> 'w) option" where
  "RF_Lock rt exec fmt send get put opts w =
     (case rt_unique rt w of (uv, w0) \<Rightarrow>
        let config = ApplyLockOptions opts uv;
            lockTTL = rf_lockTTL config; queueTTL = rf_queueTTL config;
            acquireTimeout = rf_acquireTimeout config;
            w1 = (case get w0 of (l, s) \<Rightarrow> put (l\<lparr>rf_value := Value config\<rparr>, s) w0)
        in case rf_eval send get put (\<lambda>l. FairLockTryAcquireScript exec [rf_key l, rf_queueKey l]
                  [rf_value l, fmt lockTTL, fmt queueTTL]) w1 of
             (x, w2) \<Rightarrow>
               (case as_int x of
                  Inl e \<Rightarrow> (case rt_now rt w2 of (ts, w3) \<Rightarrow>
                              Some (Some (WrapNetworkError (Some e) ''fair_lock_initial_attempt'' ts), w3))
                | Inr result \<Rightarrow>
                    if result = 1 then Some (None, w2)
                    else RetryWithCustomLogic rt acquireTimeout
                           (rf_wait rt exec fmt send get put acquireTimeout lockTTL) w2))"


section \<open>What the scripts do\<close>

text \<open>
  The view of a fair lock: the value of its holder, if any, and the values that wait, oldest
  first. \<open>fair_ok\<close>: the two keys differ and hold what the lock puts there.
\<close>

definition fair_holder :: "('s \<Rightarrow> keyspace) \<Rightarrow> string \<Rightarrow> 's \<Rightarrow> string option" where
  "fair_holder db k s = (case db s k of Some (VStr v, eo) \<Rightarrow> Some v | _ \<Rightarrow> None)"

definition waiting :: "('s \<Rightarrow> keyspace) \<Rightarrow> string \<Rightarrow> 's \<Rightarrow> string list" where
  "waiting db qk s = (case db s qk of Some (VList q, eo) \<Rightarrow> q | _ \<Rightarrow> [])"

definition queue_expiry :: "('s \<Rightarrow> keyspace) \<Rightarrow> string \<Rightarrow> 's \<Rightarrow> int option" where
  "queue_expiry db qk s = (case db s qk of Some (x, eo) \<Rightarrow> eo | None \<Rightarrow> None)"

definition fair_ok :: "('s \<Rightarrow> keyspace) \<Rightarrow> string \<Rightarrow> string \<Rightarrow> 's \<Rightarrow> bool" where
  "fair_ok db k qk s \<longleftrightarrow> k \<noteq> qk \<and>
     (case db s k of Some (VList q, eo) \<Rightarrow> False | _ \<Rightarrow> True) \<and>
     (case db s qk of Some (VStr v, eo) \<Rightarrow> False | _ \<Rightarrow> True)"

lemmas fair_scripts = FairLockTryAcquireScript_def FairLockAcquireScript_def FairLockReleaseScript_def
  FairLockExtendScript_def FairLockStatusScript_def FairLockCleanupScript_def

lemma fair_ok_cases:
  assumes "fair_ok db k qk s"
  obtains (free_empty) "db s k = None" "db s qk = None"
  | (free) q eo where "db s k = None" "db s qk = Some (VList q, eo)"
  | (held_empty) v eo where "db s k = Some (VStr v, eo)" "db s qk = None"
  | (held) v eo q eo' where "db s k = Some (VStr v, eo)" "db s qk = Some (VList q, eo')"
proof -
  have "db s k = None \<or> (\<exists>v eo. db s k = Some (VStr v, eo))"
    using assms by (auto simp: fair_ok_def split: option.splits rval.splits)
  moreover have "db s qk = None \<or> (\<exists>q eo. db s qk = Some (VList q, eo))"
    using assms by (auto simp: fair_ok_def split: option.splits rval.splits)
  ultimately show thesis using that by blast
qed

lemma fair_ok_views:
  assumes "fair_ok db k qk s"
  shows "k \<noteq> qk" and "fair_holder db k s = None \<longleftrightarrow> db s k = None"
    and "db s qk = None \<or> db s qk = Some (VList (waiting db qk s), queue_expiry db qk s)"
    and "fair_holder db k s = Some v \<Longrightarrow> \<exists>eo. db s k = Some (VStr v, eo)"
  using assms
  by (auto simp: fair_ok_def fair_holder_def waiting_def queue_expiry_def split: option.splits rval.splits)

locale redis_fair = redis_lists exec db now_ms elapse + redis_clients exec db now_ms elapse fmt
  for exec :: "'s server" and db :: "'s \<Rightarrow> keyspace" and now_ms :: "'s \<Rightarrow> int"
    and elapse :: "nat \<Rightarrow> 's \<Rightarrow> 's" and fmt :: "duration \<Rightarrow> string"
begin

abbreviation "wait qk s \<equiv> waiting db qk s"
abbreviation "q_exp qk s \<equiv> queue_expiry db qk s"

definition queue_ok :: "string \<Rightarrow> 's \<Rightarrow> bool" where
  "queue_ok qk s = (case db s qk of Some (VStr v, eo) \<Rightarrow> False | _ \<Rightarrow> True)"

lemma queue_cases:
  assumes "queue_ok qk s"
  obtains (none) "db s qk = None" "wait qk s = []" "q_exp qk s = None"
  | (some) v q where "db s qk = Some (VList (v # q), q_exp qk s)" "wait qk s = v # q"
proof (cases "db s qk")
  case None
  with none show thesis by (simp add: waiting_def queue_expiry_def)
next
  case (Some p)
  then obtain q eo where p: "db s qk = Some (VList q, eo)"
    using assms by (cases p) (auto simp: queue_ok_def split: rval.splits)
  then have "q \<noteq> []" using nonempty by metis
  with p some show thesis by (cases q) (auto simp: waiting_def queue_expiry_def)
qed

lemma call_RPUSH:
  assumes "queue_ok qk s"
  shows "redis_call exec [''RPUSH'', qk, v] cont s =
      cont (RInt (int (length (wait qk s)) + 1)) (snd (exec [''RPUSH'', qk, v] s))"
    and "db (snd (exec [''RPUSH'', qk, v] s)) = (db s)(qk \<mapsto> (VList (wait qk s @ [v]), q_exp qk s))"
  using assms by (cases rule: queue_cases; simp add: redis_call_ok exec_RPUSH db_RPUSH)+

lemma call_LINDEX:
  assumes "queue_ok qk s"
  shows "redis_call exec [''LINDEX'', qk, ''0''] cont s =
      cont (case wait qk s of [] \<Rightarrow> RNil | v # q \<Rightarrow> RStr v) (snd (exec [''LINDEX'', qk, ''0''] s))"
  using assms by (cases rule: queue_cases; simp add: redis_call_ok exec_LINDEX)

lemma call_LPOP:
  assumes "queue_ok qk s" and "wait qk s = v # q"
  shows "redis_call exec [''LPOP'', qk] cont s = cont (RStr v) (snd (exec [''LPOP'', qk] s))"
    and "db (snd (exec [''LPOP'', qk] s)) = (db s)(qk := if q = [] then None else Some (VList q, q_exp qk s))"
  using assms by (cases rule: queue_cases; simp add: redis_call_ok exec_LPOP db_LPOP)+

definition removed :: "string \<Rightarrow> string \<Rightarrow> 's \<Rightarrow> (rval \<times> int option) option" where
  "removed v qk s = (if removeAll v (wait qk s) = [] then None
     else Some (VList (removeAll v (wait qk s)), q_exp qk s))"

lemma call_LREM:
  assumes "queue_ok qk s"
  shows "redis_call exec [''LREM'', qk, ''0'', v] cont s =
      cont (RInt (int (length (filter (\<lambda>x. x = v) (wait qk s))))) (snd (exec [''LREM'', qk, ''0'', v] s))"
    and "db (snd (exec [''LREM'', qk, ''0'', v] s)) = (db s)(qk := removed v qk s)"
proof -
  from assms
  have "redis_call exec [''LREM'', qk, ''0'', v] cont s =
      cont (RInt (int (length (filter (\<lambda>x. x = v) (wait qk s))))) (snd (exec [''LREM'', qk, ''0'', v] s)) \<and>
    db (snd (exec [''LREM'', qk, ''0'', v] s)) = (db s)(qk := removed v qk s)"
  proof (cases rule: queue_cases)
    case none
    then have "(db s)(qk := removed v qk s) = db s" by (simp add: removed_def fun_upd_idem)
    with none exec_LREM(1) [OF none(1)] db_LREM(1) [OF none(1)] show ?thesis by (simp add: redis_call_ok)
  next
    case (some x q)
    have fst: "fst (exec [''LREM'', qk, ''0'', v] s) = RInt (int (length (filter (\<lambda>x. x = v) (wait qk s))))"
      unfolding some(2) by (rule exec_LREM(2) [OF some(1)])
    then have "redis_call exec [''LREM'', qk, ''0'', v] cont s =
        cont (fst (exec [''LREM'', qk, ''0'', v] s)) (snd (exec [''LREM'', qk, ''0'', v] s))"
      by (intro redis_call_ok) simp
    with fst db_LREM(2) [OF some(1), of v] some(2) show ?thesis by (simp only: removed_def Let_def)
  qed
  then show "redis_call exec [''LREM'', qk, ''0'', v] cont s =
      cont (RInt (int (length (filter (\<lambda>x. x = v) (wait qk s))))) (snd (exec [''LREM'', qk, ''0'', v] s))"
    "db (snd (exec [''LREM'', qk, ''0'', v] s)) = (db s)(qk := removed v qk s)" by blast+
qed

lemma call_LLEN:
  assumes "queue_ok qk s"
  shows "redis_call exec [''LLEN'', qk] cont s = cont (RInt (int (length (wait qk s)))) (snd (exec [''LLEN'', qk] s))"
  using assms by (cases rule: queue_cases; simp add: redis_call_ok exec_LLEN)

lemma call_LRANGE:
  assumes "queue_ok qk s"
  shows "redis_call exec [''LRANGE'', qk, ''0'', ''-1''] cont s =
      cont (RList (map RStr (wait qk s))) (snd (exec [''LRANGE'', qk, ''0'', ''-1''] s))"
  using assms by (cases rule: queue_cases; simp add: redis_call_ok exec_LRANGE)

end


context redis_fair begin

text \<open>\<open>GET\<close> on the lock key, in terms of the holder.\<close>

lemma call_GET_holder:
  assumes "\<not> is_list s k"
  shows "redis_call exec [''GET'', k] cont s =
    cont (case fair_holder db k s of Some v \<Rightarrow> RStr v | None \<Rightarrow> RNil) (snd (exec [''GET'', k] s))"
  using assms by (simp add: call_GET fair_holder_def holder_def)

lemma fair_ok_parts:
  assumes "fair_ok db k qk s"
  shows "k \<noteq> qk" "qk \<noteq> k" "\<not> is_list s k" "queue_ok qk s"
  using assms by (auto simp: fair_ok_def is_list_def queue_ok_def split: option.splits rval.splits)

lemma try_acquire_free:
  assumes "db s k = None" and "expiry wt = Some n"
  shows "fst (FairLockTryAcquireScript exec [k, qk] [v, wt, wq] s) = RInt 1"
    and "db (snd (FairLockTryAcquireScript exec [k, qk] [v, wt, wq] s)) =
      (db s)(k \<mapsto> (VStr v, Some (now_ms s + 1000 * n)))"
  using assms by (simp_all add: FairLockTryAcquireScript_def call_EXISTS redis_call_ok exec_SET db_SET lua_return_def)

lemma try_acquire_free_bad:
  assumes "db s k = None" and "bad_expiry wt"
  shows "is_err (fst (FairLockTryAcquireScript exec [k, qk] [v, wt, wq] s))"
    and "db (snd (FairLockTryAcquireScript exec [k, qk] [v, wt, wq] s)) = db s"
  using assms exec_SET_err [OF assms(2), of k v] db_SET_err [OF assms(2), of k v]
  by (simp_all add: FairLockTryAcquireScript_def call_EXISTS redis_call_is_err)

text \<open>What \<open>EXPIRE\<close> makes of the queue that was just extended.\<close>

definition pushed :: "string \<Rightarrow> string \<Rightarrow> 's \<Rightarrow> string \<Rightarrow> (rval \<times> int option) option" where
  "pushed v qk s wq = (case parse_int wq of
       None \<Rightarrow> Some (VList (wait qk s @ [v]), q_exp qk s)
     | Some m \<Rightarrow> if m \<le> 0 then None else Some (VList (wait qk s @ [v]), Some (now_ms s + 1000 * m)))"

lemma try_acquire_held:
  assumes "fair_ok db k qk s" and "db s k \<noteq> None" and "expiry wq = Some m"
  shows "fst (FairLockTryAcquireScript exec [k, qk] [v, wt, wq] s) = RInt (- 1)"
    and "db (snd (FairLockTryAcquireScript exec [k, qk] [v, wt, wq] s)) = (db s)(qk := pushed v qk s wq)"
proof -
  note ok = fair_ok_parts [OF assms(1)]
  have m: "parse_int wq = Some m" "0 < m" using assms(3) by (auto simp: expiry_def split: option.splits if_splits)
  define s1 where "s1 = snd (exec [''EXISTS'', k] s)"
  define s2 where "s2 = snd (exec [''RPUSH'', qk, v] s1)"
  define s3 where "s3 = snd (exec [''EXPIRE'', qk, wq] s2)"
  define s4 where "s4 = snd (exec [''LINDEX'', qk, ''0''] s3)"
  have s1: "db s1 = db s" "now_ms s2 = now_ms s" by (simp_all add: s1_def s2_def)
  then have q1: "queue_ok qk s1" "wait qk s1 = wait qk s" "q_exp qk s1 = q_exp qk s"
    using ok(4) by (simp_all add: queue_ok_def waiting_def queue_expiry_def)
  have s2: "db s2 = (db s)(qk \<mapsto> (VList (wait qk s @ [v]), q_exp qk s))"
    using call_RPUSH(2) [OF q1(1), of v] q1 s1 by (simp add: s2_def)
  have s3: "db s3 = (db s)(qk \<mapsto> (VList (wait qk s @ [v]), Some (now_ms s + 1000 * m)))"
    using db_EXPIRE [OF assms(3), of qk s2] s2 s1(2) by (simp add: s3_def)
  have q3: "queue_ok qk s3" "wait qk s3 = wait qk s @ [v]"
    using s3 by (simp_all add: queue_ok_def waiting_def)
  have s4: "db s4 = db s3" by (simp add: s4_def)
  then have h: "\<not> is_list s4 k" "fair_holder db k s4 = fair_holder db k s"
    using s3 ok by (simp_all add: is_list_def fair_holder_def)
  obtain u where u: "fair_holder db k s = Some u" using fair_ok_views(2) [OF assms(1)] assms(2) by auto
  obtain y where y: "db s k = Some y" using assms(2) by blast
  define rest where "rest = (\<lambda>first. if first = RStr v
      then redis_call exec [''GET'', k] (\<lambda>current_holder.
             if \<not> truthy current_holder
             then redis_call exec [''SET'', k, v, ''EX'', wt] (\<lambda>_.
                  redis_call exec [''LPOP'', qk] (\<lambda>_. lua_return (RInt 1)))
             else lua_return (RInt (- 1)))
      else lua_return (RInt (- 1)))"
  have "FairLockTryAcquireScript exec [k, qk] [v, wt, wq] s =
      redis_call exec [''RPUSH'', qk, v] (\<lambda>_. redis_call exec [''EXPIRE'', qk, wq] (\<lambda>_.
        redis_call exec [''LINDEX'', qk, ''0''] rest)) s1"
    using y by (simp add: FairLockTryAcquireScript_def call_EXISTS rest_def s1_def cong: if_cong)
  also have "\<dots> = redis_call exec [''EXPIRE'', qk, wq] (\<lambda>_. redis_call exec [''LINDEX'', qk, ''0''] rest) s2"
    by (simp only: call_RPUSH(1) [OF q1(1)] s2_def)
  also have "\<dots> = redis_call exec [''LINDEX'', qk, ''0''] rest s3"
    using exec_EXPIRE [OF assms(3), of qk s2] by (simp add: redis_call_ok s3_def)
  also have "\<dots> = rest (case wait qk s3 of [] \<Rightarrow> RNil | v # q \<Rightarrow> RStr v) s4"
    by (simp only: call_LINDEX [OF q3(1)] s4_def)
  finally have run: "FairLockTryAcquireScript exec [k, qk] [v, wt, wq] s =
      rest (case wait qk s3 of [] \<Rightarrow> RNil | v # q \<Rightarrow> RStr v) s4" .
  have "fst (rest r s4) = RInt (- 1) \<and> db (snd (rest r s4)) = db s4" for r
    unfolding rest_def using u by (simp add: call_GET_holder [OF h(1)] h(2) truthy_def lua_return_def)
  then have "fst (FairLockTryAcquireScript exec [k, qk] [v, wt, wq] s) = RInt (- 1) \<and>
      db (snd (FairLockTryAcquireScript exec [k, qk] [v, wt, wq] s)) = db s3"
    unfolding run s4 [symmetric] by blast
  then show "fst (FairLockTryAcquireScript exec [k, qk] [v, wt, wq] s) = RInt (- 1)"
    "db (snd (FairLockTryAcquireScript exec [k, qk] [v, wt, wq] s)) = (db s)(qk := pushed v qk s wq)"
    using s3 m by (simp_all add: pushed_def)
qed

lemma try_acquire_held_fraction:
  assumes "fair_ok db k qk s" and "db s k \<noteq> None" and "parse_int wq = None"
  shows "is_err (fst (FairLockTryAcquireScript exec [k, qk] [v, wt, wq] s))"
    and "db (snd (FairLockTryAcquireScript exec [k, qk] [v, wt, wq] s)) = (db s)(qk := pushed v qk s wq)"
proof -
  note ok = fair_ok_parts [OF assms(1)]
  define s1 where "s1 = snd (exec [''EXISTS'', k] s)"
  define s2 where "s2 = snd (exec [''RPUSH'', qk, v] s1)"
  have "db s1 = db s" by (simp add: s1_def)
  then have q1: "queue_ok qk s1" "wait qk s1 = wait qk s" "q_exp qk s1 = q_exp qk s"
    using ok(4) by (simp_all add: queue_ok_def waiting_def queue_expiry_def)
  have s2: "db s2 = (db s)(qk := pushed v qk s wq)"
    using call_RPUSH(2) [OF q1(1), of v] q1 \<open>db s1 = db s\<close> assms(3) by (simp add: s2_def pushed_def)
  obtain cont where "FairLockTryAcquireScript exec [k, qk] [v, wt, wq] s =
      redis_call exec [''RPUSH'', qk, v] (\<lambda>_. redis_call exec [''EXPIRE'', qk, wq] cont) s1"
    using assms(2) by (simp add: FairLockTryAcquireScript_def call_EXISTS s1_def)
  also have "\<dots> = redis_call exec [''EXPIRE'', qk, wq] cont s2"
    by (simp only: call_RPUSH(1) [OF q1(1)] s2_def)
  finally show "is_err (fst (FairLockTryAcquireScript exec [k, qk] [v, wt, wq] s))"
    "db (snd (FairLockTryAcquireScript exec [k, qk] [v, wt, wq] s)) = (db s)(qk := pushed v qk s wq)"
    using redis_call_is_err [where exec = exec and cmd = "[''EXPIRE'', qk, wq]" and s = s2 and cont = cont,
        OF exec_EXPIRE_err [OF assms(3)]] db_EXPIRE_err [OF assms(3), of qk s2] s2
    by simp_all
qed

lemma acquire_script_fair:
  assumes "fair_ok db k qk s" and "expiry wt = Some n"
  shows "fst (FairLockAcquireScript exec [k, qk] [v, wt] s) =
      RInt (if wait qk s = [] \<or> hd (wait qk s) \<noteq> v then 0 else if db s k = None then 1 else - 1)"
    and "db (snd (FairLockAcquireScript exec [k, qk] [v, wt] s)) =
      (if wait qk s \<noteq> [] \<and> hd (wait qk s) = v \<and> db s k = None
       then (db s)(k \<mapsto> (VStr v, Some (now_ms s + 1000 * n)),
                   qk := if tl (wait qk s) = [] then None else Some (VList (tl (wait qk s)), q_exp qk s))
       else db s)"
proof -
  note ok = fair_ok_parts [OF assms(1)] and views = fair_ok_views [OF assms(1)]
  define s1 where "s1 = snd (exec [''LINDEX'', qk, ''0''] s)"
  define s2 where "s2 = snd (exec [''GET'', k] s1)"
  define s3 where "s3 = snd (exec [''SET'', k, v, ''EX'', wt] s2)"
  have s12: "db s1 = db s" "db s2 = db s" "now_ms s2 = now_ms s" by (simp_all add: s1_def s2_def)
  then have h: "\<not> is_list s1 k" "fair_holder db k s1 = fair_holder db k s"
    using ok(3) by (simp_all add: is_list_def fair_holder_def)
  have s3: "db s3 = (db s)(k \<mapsto> (VStr v, Some (now_ms s + 1000 * n)))"
    using db_SET [OF assms(2), of k v s2] s12 by (simp add: s3_def)
  then have q3: "queue_ok qk s3" "wait qk s3 = wait qk s" "q_exp qk s3 = q_exp qk s"
    using ok by (simp_all add: queue_ok_def waiting_def queue_expiry_def)
  have e: "redis_call exec [''SET'', k, v, ''EX'', wt] cont s2 = cont ROk s3" for cont
    using exec_SET [OF assms(2), of k v s2] by (simp add: redis_call_ok s3_def)
  have g: "redis_call exec [''GET'', k] cont s1 =
      cont (case fair_holder db k s of Some v \<Rightarrow> RStr v | None \<Rightarrow> RNil) s2" for cont
    using call_GET_holder [OF h(1)] h(2) by (simp add: s2_def)
  have i: "redis_call exec [''LINDEX'', qk, ''0''] cont s = cont (case wait qk s of [] \<Rightarrow> RNil | v # q \<Rightarrow> RStr v) s1" for cont
    using call_LINDEX [OF ok(4)] by (simp add: s1_def)
  have "fst (FairLockAcquireScript exec [k, qk] [v, wt] s) =
      RInt (if wait qk s = [] \<or> hd (wait qk s) \<noteq> v then 0 else if db s k = None then 1 else - 1) \<and>
    db (snd (FairLockAcquireScript exec [k, qk] [v, wt] s)) =
      (if wait qk s \<noteq> [] \<and> hd (wait qk s) = v \<and> db s k = None
       then (db s)(k \<mapsto> (VStr v, Some (now_ms s + 1000 * n)),
                   qk := if tl (wait qk s) = [] then None else Some (VList (tl (wait qk s)), q_exp qk s))
       else db s)"
  proof (cases "wait qk s")
    case Nil
    then show ?thesis by (simp add: FairLockAcquireScript_def i s12 lua_return_def)
  next
    case (Cons x q)
    show ?thesis
    proof (cases "x = v \<and> db s k = None")
      case True
      with Cons views(2) call_LPOP [OF q3(1), of v q] s3 q3 show ?thesis
        by (simp add: FairLockAcquireScript_def i g e s12 truthy_def lua_return_def)
    next
      case False
      with Cons views(2) show ?thesis
        by (auto simp: FairLockAcquireScript_def i g s12 truthy_def lua_return_def)
    qed
  qed
  then show "fst (FairLockAcquireScript exec [k, qk] [v, wt] s) =
      RInt (if wait qk s = [] \<or> hd (wait qk s) \<noteq> v then 0 else if db s k = None then 1 else - 1)"
    and "db (snd (FairLockAcquireScript exec [k, qk] [v, wt] s)) =
      (if wait qk s \<noteq> [] \<and> hd (wait qk s) = v \<and> db s k = None
       then (db s)(k \<mapsto> (VStr v, Some (now_ms s + 1000 * n)),
                   qk := if tl (wait qk s) = [] then None else Some (VList (tl (wait qk s)), q_exp qk s))
       else db s)"
    by blast+
qed

end


context redis_fair begin

lemma release_script_fair:
  assumes "fair_ok db k qk s"
  shows "fst (FairLockReleaseScript exec [k, qk] [v] s) = RInt (if fair_holder db k s = Some v then 1 else 0)"
    and "db (snd (FairLockReleaseScript exec [k, qk] [v] s)) =
      (if fair_holder db k s = Some v then (db s)(k := None, qk := removed v qk s) else db s)"
proof -
  note ok = fair_ok_parts [OF assms]
  define s1 where "s1 = snd (exec [''GET'', k] s)"
  define s2 where "s2 = snd (exec [''DEL'', k] s1)"
  have s2: "db s1 = db s" "db s2 = (db s)(k := None)" by (simp_all add: s1_def s2_def)
  then have q2: "queue_ok qk s2" "removed v qk s2 = removed v qk s"
    using ok by (simp_all add: queue_ok_def removed_def waiting_def queue_expiry_def)
  have g: "redis_call exec [''GET'', k] cont s =
      cont (case fair_holder db k s of Some v \<Rightarrow> RStr v | None \<Rightarrow> RNil) s1" for cont
    using call_GET_holder [OF ok(3)] by (simp add: s1_def)
  have d: "redis_call exec [''DEL'', k] cont s1 = cont (RInt (if db s k = None then 0 else 1)) s2" for cont
    by (simp add: call_DEL s2_def s2(1))
  have "fst (FairLockReleaseScript exec [k, qk] [v] s) = RInt (if fair_holder db k s = Some v then 1 else 0) \<and>
    db (snd (FairLockReleaseScript exec [k, qk] [v] s)) =
      (if fair_holder db k s = Some v then (db s)(k := None, qk := removed v qk s) else db s)"
    using s2 q2(2) call_LREM(2) [OF q2(1), of v]
    by (auto simp: FairLockReleaseScript_def g d call_LREM(1) [OF q2(1)] lua_return_def split: option.split)
  then show "fst (FairLockReleaseScript exec [k, qk] [v] s) = RInt (if fair_holder db k s = Some v then 1 else 0)"
    "db (snd (FairLockReleaseScript exec [k, qk] [v] s)) =
      (if fair_holder db k s = Some v then (db s)(k := None, qk := removed v qk s) else db s)" by blast+
qed

lemma extend_script_fair:
  assumes "\<not> is_list s k" and "m < 2 ^ 60"
  shows "fst (FairLockExtendScript exec [k] [v, dec m] s) = RInt (if fair_holder db k s = Some v then 1 else 0)"
    and "db (snd (FairLockExtendScript exec [k] [v, dec m] s)) =
      (if fair_holder db k s = Some v
       then (db s)(k := if 0 < m then Some (VStr v, Some (now_ms s + m)) else None) else db s)"
proof -
  define s1 where "s1 = snd (exec [''GET'', k] s)"
  have s1: "db s1 = db s" "now_ms s1 = now_ms s" by (simp_all add: s1_def)
  have g: "redis_call exec [''GET'', k] cont s =
      cont (case fair_holder db k s of Some v \<Rightarrow> RStr v | None \<Rightarrow> RNil) s1" for cont
    using call_GET_holder [OF assms(1)] by (simp add: s1_def)
  have "fst (FairLockExtendScript exec [k] [v, dec m] s) = RInt (if fair_holder db k s = Some v then 1 else 0) \<and>
    db (snd (FairLockExtendScript exec [k] [v, dec m] s)) =
      (if fair_holder db k s = Some v
       then (db s)(k := if 0 < m then Some (VStr v, Some (now_ms s + m)) else None) else db s)"
  proof (cases "fair_holder db k s = Some v")
    case True
    then obtain eo where k: "db s k = Some (VStr v, eo)"
      by (auto simp: fair_holder_def split: option.splits rval.splits)
    show ?thesis
    proof (cases "0 < m")
      case pos: True
      then have "expiry (dec m) = Some m" using assms(2) by (simp add: expiry_def)
      from exec_PEXPIRE [OF this, of k s1] db_PEXPIRE [OF this, of k s1] pos k True s1 show ?thesis
        by (simp add: FairLockExtendScript_def g redis_call_ok lua_return_def)
    next
      case False
      then have p: "parse_int (dec m) = Some m" "m \<le> 0" by simp_all
      from exec_PEXPIRE_past [OF p, of k s1] db_PEXPIRE_past [OF p, of k s1] False k True s1 show ?thesis
        by (simp add: FairLockExtendScript_def g redis_call_ok lua_return_def)
    qed
  next
    case False
    with s1 show ?thesis by (auto simp: FairLockExtendScript_def g lua_return_def split: option.split)
  qed
  then show "fst (FairLockExtendScript exec [k] [v, dec m] s) = RInt (if fair_holder db k s = Some v then 1 else 0)"
    "db (snd (FairLockExtendScript exec [k] [v, dec m] s)) =
      (if fair_holder db k s = Some v
       then (db s)(k := if 0 < m then Some (VStr v, Some (now_ms s + m)) else None) else db s)" by blast+
qed

text \<open>The position the status script reports, and the rest of its table.\<close>

definition position :: "string list \<Rightarrow> string list \<Rightarrow> int" where
  "position args q = (case args of [] \<Rightarrow> - 1 | v # _ \<Rightarrow> ipairs_find 0 v (map RStr q))"

definition pttl :: "string \<Rightarrow> 's \<Rightarrow> int" where
  "pttl k s = (case db s k of Some (x, Some E) \<Rightarrow> E - now_ms s | _ \<Rightarrow> - 1)"

lemma status_script_fair:
  assumes "queue_ok qk s"
  shows "fst (FairLockStatusScript exec [k, qk] args s) = RList [RInt (if db s k = None then 0 else 1),
      RInt (pttl k s), RInt (int (length (wait qk s))), RInt (position args (wait qk s))]"
    and "db (snd (FairLockStatusScript exec [k, qk] args s)) = db s"
proof -
  define s1 where "s1 = snd (exec [''EXISTS'', k] s)"
  define rest where "rest = (\<lambda>ttl.
         redis_call exec [''LLEN'', qk] (\<lambda>queue_length.
           if args \<noteq> []
           then redis_call exec [''LRANGE'', qk, ''0'', ''-1''] (\<lambda>queue.
                  lua_return (RList [RInt (if db s k = None then 0 else 1), ttl, queue_length,
                    RInt (case queue of RList xs \<Rightarrow> ipairs_find 0 (args ! 0) xs | _ \<Rightarrow> - 1)]))
           else lua_return (RList [RInt (if db s k = None then 0 else 1), ttl, queue_length, RInt (- 1)])))"
  have rest: "fst (rest r t) = RList [RInt (if db s k = None then 0 else 1), r,
      RInt (int (length (wait qk s))), RInt (position args (wait qk s))] \<and> db (snd (rest r t)) = db s"
    if "db t = db s" for r t
  proof -
    define t1 where "t1 = snd (exec [''LLEN'', qk] t)"
    have t1: "db t1 = db s" using that by (simp add: t1_def)
    have q: "queue_ok qk t" "queue_ok qk t1" "wait qk t = wait qk s" "wait qk t1 = wait qk s"
      using assms that t1 by (simp_all add: queue_ok_def waiting_def)
    show ?thesis
      unfolding rest_def call_LLEN [OF q(1)] t1_def [symmetric]
      using t1 q(3,4) by (cases args) (simp_all add: call_LRANGE [OF q(2)] lua_return_def position_def)
  qed
  have run: "FairLockStatusScript exec [k, qk] args s =
      (if db s k = None then rest (RInt (- 1)) s1 else redis_call exec [''PTTL'', k] rest s1)"
    by (cases "db s k") (simp_all add: FairLockStatusScript_def call_EXISTS Let_def rest_def s1_def cong: if_cong)
  have s1: "db s1 = db s" "now_ms s1 = now_ms s" by (simp_all add: s1_def)
  have "fst (FairLockStatusScript exec [k, qk] args s) = RList [RInt (if db s k = None then 0 else 1),
      RInt (pttl k s), RInt (int (length (wait qk s))), RInt (position args (wait qk s))] \<and>
    db (snd (FairLockStatusScript exec [k, qk] args s)) = db s"
  proof (cases "db s k")
    case None
    then show ?thesis using rest [OF s1(1)] by (simp add: run pttl_def)
  next
    case (Some p)
    have "fst (exec [''PTTL'', k] s1) = RInt (pttl k s)"
      using exec_PTTL [of k s1] s1 Some by (cases p; cases "snd p"; simp add: pttl_def)
    then have "redis_call exec [''PTTL'', k] rest s1 = rest (RInt (pttl k s)) (snd (exec [''PTTL'', k] s1))"
      by (simp add: redis_call_ok)
    with rest [of "snd (exec [''PTTL'', k] s1)" "RInt (pttl k s)"] s1 Some show ?thesis by (simp add: run)
  qed
  then show "fst (FairLockStatusScript exec [k, qk] args s) = RList [RInt (if db s k = None then 0 else 1),
      RInt (pttl k s), RInt (int (length (wait qk s))), RInt (position args (wait qk s))]"
    "db (snd (FairLockStatusScript exec [k, qk] args s)) = db s" by blast+
qed

lemma cleanup_script:
  assumes "queue_ok qk s"
  shows "fst (FairLockCleanupScript exec [qk] [v] s) = RInt (int (length (filter (\<lambda>x. x = v) (wait qk s))))"
    and "db (snd (FairLockCleanupScript exec [qk] [v] s)) = (db s)(qk := removed v qk s)"
  using call_LREM [OF assms] by (simp_all add: FairLockCleanupScript_def lua_return_def)

lemma now_fair_scripts [simp]:
  "now_ms (snd (FairLockTryAcquireScript exec KEYS ARGV s)) = now_ms s"
  "now_ms (snd (FairLockAcquireScript exec KEYS ARGV s)) = now_ms s"
  "now_ms (snd (FairLockReleaseScript exec KEYS ARGV s)) = now_ms s"
  "now_ms (snd (FairLockExtendScript exec KEYS ARGV s)) = now_ms s"
  "now_ms (snd (FairLockStatusScript exec KEYS ARGV s)) = now_ms s"
  "now_ms (snd (FairLockCleanupScript exec KEYS ARGV s)) = now_ms s"
  unfolding fair_scripts Let_def by (auto intro!: now_redis_call simp: if_distrib)

end


section \<open>Runs\<close>

text \<open>
  The operations of a client on its handle. \<open>AcquireF ttl\<close> is one pass of the waiting loop of
  \<open>Lock\<close>, \<open>CleanupF\<close> the request it makes on a timeout; \<open>Lock\<close> begins with the script of
  \<open>TryLock\<close>.
\<close>

datatype rf_op = TryLockF "LockOption list" string | AcquireF duration | CleanupF | UnlockF
  | ExtendF duration | IsLockedF | GetTTLF | GetQueuePositionF | GetQueueLengthF | GetQueueInfoF

definition fair_queue_key :: "string \<Rightarrow> string" where
  "fair_queue_key key = rf_queueKey (newRedisFairLock key)"

fun rf_step ::
    "'s server \<Rightarrow> (duration \<Rightarrow> string) \<Rightarrow> (nat \<Rightarrow> 's \<Rightarrow> 's) \<Rightarrow> (nat \<Rightarrow> string) \<Rightarrow> rf_op sent
       \<Rightarrow> (nat \<Rightarrow> string) \<times> 's \<Rightarrow> op_result \<times> ((nat \<Rightarrow> string) \<times> 's)" where
  "rf_step exec fmt elapse keyof (d, i, net, ts, oper) (vals, s) =
     (let s1 = elapse d s; l = (newRedisFairLock (keyof i))\<lparr>rf_value := vals i\<rparr> in
      case oper of
        TryLockF opts uv \<Rightarrow> (case RF_TryLock exec fmt net opts uv ts l s1 of
            ((b, e), l', s') \<Rightarrow> (BoolRes b e, (vals(i := rf_value l'), s')))
      | AcquireF ttl \<Rightarrow>
          (case client_eval net (FairLockAcquireScript exec [rf_key l, rf_queueKey l] [rf_value l, fmt ttl]) s1 of
             (x, s') \<Rightarrow> ((case as_int x of
                Inl e \<Rightarrow> BoolRes False (Some (WrapNetworkError (Some e) ''fair_lock_acquire_attempt'' ts))
              | Inr result \<Rightarrow> BoolRes (result = 1) None), (vals, s')))
      | CleanupF \<Rightarrow> (ErrRes None,
            (vals, snd (client_eval net (FairLockCleanupScript exec [rf_queueKey l] [rf_value l]) s1)))
      | UnlockF \<Rightarrow> (case RF_Unlock exec net ts l s1 of (e, s') \<Rightarrow> (ErrRes e, (vals, s')))
      | ExtendF ttl \<Rightarrow> (case RF_Extend exec net ttl ts l s1 of ((b, e), s') \<Rightarrow> (BoolRes b e, (vals, s')))
      | IsLockedF \<Rightarrow> (case RF_IsLocked exec net ts l s1 of ((b, e), s') \<Rightarrow> (BoolRes b e, (vals, s')))
      | GetTTLF \<Rightarrow> (case RF_GetTTL exec net ts l s1 of ((t, e), s') \<Rightarrow> (DurRes t e, (vals, s')))
      | GetQueuePositionF \<Rightarrow> (case RF_GetQueuePosition exec net ts l s1 of ((n, e), s') \<Rightarrow> (NumRes n e, (vals, s')))
      | GetQueueLengthF \<Rightarrow> (case RF_GetQueueLength exec net ts l s1 of ((n, e), s') \<Rightarrow> (NumRes n e, (vals, s')))
      | GetQueueInfoF \<Rightarrow> (case RF_GetQueueInfo exec net l s1 of ((vs, e), s') \<Rightarrow> (ListRes vs e, (vals, s'))))"

fun rf_granted :: "(nat \<Rightarrow> string) \<Rightarrow> string \<Rightarrow> rf_op sent \<Rightarrow> op_result \<Rightarrow> bool" where
  "rf_granted keyof key (d, i, net, ts, TryLockF opts uv) (BoolRes b e) = (b \<and> keyof i = key)"
| "rf_granted keyof key (d, i, net, ts, AcquireF ttl) (BoolRes b e) = (b \<and> keyof i = key)"
| "rf_granted keyof key ev r = False"

definition rf_ms :: "duration \<Rightarrow> int" where
  "rf_ms ttl = sint (go_div ttl Millisecond)"

text \<open>The events by the holder's value that may end its lease or shorten it.\<close>

fun rf_yields ::
    "('s \<Rightarrow> keyspace) \<Rightarrow> ('s \<Rightarrow> int) \<Rightarrow> (nat \<Rightarrow> string) \<Rightarrow> string \<Rightarrow> rf_op sent \<Rightarrow> (nat \<Rightarrow> string) \<times> 's \<Rightarrow> bool" where
  "rf_yields db now_ms keyof key (d, i, net, ts, UnlockF) (vals, s) =
     (keyof i = key \<and> fair_holder db key s = Some (vals i))"
| "rf_yields db now_ms keyof key (d, i, net, ts, ExtendF ttl) (vals, s) =
     (keyof i = key \<and> fair_holder db key s = Some (vals i) \<and>
      (case db s key of Some (x, Some E) \<Rightarrow> now_ms s + int d + rf_ms ttl < E | _ \<Rightarrow> True))"
| "rf_yields db now_ms keyof key ev st = False"

definition rf_script ::
    "'s server \<Rightarrow> (duration \<Rightarrow> string) \<Rightarrow> string \<Rightarrow> string \<Rightarrow> rf_op \<Rightarrow> 's \<Rightarrow> reply \<times> 's" where
  "rf_script exec fmt key v oper =
     (let ks = [key, fair_queue_key key] in
      case oper of
        TryLockF opts uv \<Rightarrow> (let config = ApplyLockOptions opts uv in
          FairLockTryAcquireScript exec ks [Value config, fmt (rf_lockTTL config), fmt (rf_queueTTL config)])
      | AcquireF ttl \<Rightarrow> FairLockAcquireScript exec ks [v, fmt ttl]
      | CleanupF \<Rightarrow> FairLockCleanupScript exec [fair_queue_key key] [v]
      | UnlockF \<Rightarrow> FairLockReleaseScript exec ks [v]
      | ExtendF ttl \<Rightarrow> FairLockExtendScript exec [key] [v, dec (rf_ms ttl)]
      | GetQueuePositionF \<Rightarrow> FairLockStatusScript exec ks [v]
      | GetQueueInfoF \<Rightarrow> exec [''LRANGE'', fair_queue_key key, ''0'', ''-1'']
      | _ \<Rightarrow> FairLockStatusScript exec ks [])"

lemma new_fair_keys [simp]:
  "rf_key (newRedisFairLock k) = k" "rf_queueKey (newRedisFairLock k) = fair_queue_key k"
  "rf_key ((newRedisFairLock k)\<lparr>rf_value := v\<rparr>) = k"
  "rf_queueKey ((newRedisFairLock k)\<lparr>rf_value := v\<rparr>) = fair_queue_key k"
  by (simp_all add: fair_queue_key_def newRedisFairLock_def)

lemma fair_queue_key_ne [simp]: "fair_queue_key k \<noteq> k" "k \<noteq> fair_queue_key k"
  by (simp_all add: fair_queue_key_def newRedisFairLock_def)

lemma rf_step_server:
  "snd (snd (rf_step exec fmt elapse keyof (d, i, net, ts, oper) (vals, s))) =
     snd (client_eval net (rf_script exec fmt (keyof i) (vals i) oper) (elapse d s))"
  by (cases oper)
     (simp_all add: rf_script_def rf_ms_def Let_def case_prod_beta RF_TryLock_def RF_Unlock_def RF_Extend_def
        RF_IsLocked_def RF_GetTTL_def RF_GetQueuePosition_def RF_GetQueueLength_def RF_GetQueueInfo_def
        split: sum.split list.split reply.split)

lemma rf_granted_script:
  assumes "rf_granted keyof key (d, i, net, ts, oper) (fst (rf_step exec fmt elapse keyof (d, i, net, ts, oper) (vals, s)))"
  shows "keyof i = key"
    and "as_int (fst (client_eval net (rf_script exec fmt key (vals i) oper) (elapse d s))) = Inr 1"
    and "(\<exists>opts uv. oper = TryLockF opts uv) \<or> (\<exists>ttl. oper = AcquireF ttl)"
  using assms
  by (cases oper; auto simp: rf_script_def RF_TryLock_def Let_def case_prod_beta split: sum.splits)+

declare rf_step.simps [simp del]


section \<open>The lease\<close>

context redis_fair begin

text \<open>
  Programs that, started with the value \<open>x\<close> under \<open>k\<close>, leave it there and reply as \<open>R\<close> says.
\<close>

definition keeps :: "(reply \<Rightarrow> bool) \<Rightarrow> string \<Rightarrow> rval \<times> int option \<Rightarrow> ('s \<Rightarrow> reply \<times> 's) \<Rightarrow> bool" where
  "keeps R k x prog \<longleftrightarrow> (\<forall>s. db s k = Some x \<longrightarrow> db (snd (prog s)) k = Some x \<and> R (fst (prog s)))"

lemma keepsD: "keeps R k x prog \<Longrightarrow> db s k = Some x \<Longrightarrow> db (snd (prog s)) k = Some x \<and> R (fst (prog s))"
  by (simp add: keeps_def)

lemma keeps_return: "R r \<Longrightarrow> keeps R k x (lua_return r)"
  by (simp add: keeps_def lua_return_def)

lemma keeps_same:
  assumes "\<And>s. db (snd (exec cmd s)) k = db s k" and "\<And>e. R (RErr e)" and "\<And>r. keeps R k x (cont r)"
  shows "keeps R k x (redis_call exec cmd cont)"
  unfolding keeps_def
proof (intro allI impI)
  fix s assume s: "db s k = Some x"
  obtain r s' where e: "exec cmd s = (r, s')" by (cases "exec cmd s")
  with assms(1) [of s] s have s': "db s' k = Some x" by simp
  show "db (snd (redis_call exec cmd cont s)) k = Some x \<and> R (fst (redis_call exec cmd cont s))"
  proof (cases "is_err r")
    case True
    with e s' assms(2) show ?thesis by (auto simp: redis_call_def elim!: is_errE)
  next
    case False
    then have "redis_call exec cmd cont s = cont r s'"
      using e by (cases r) (simp_all add: redis_call_def)
    with keepsD [OF assms(3) s'] show ?thesis by simp
  qed
qed

lemma keeps_other:
  "c \<in> set key_commands \<Longrightarrow> k \<noteq> j \<Longrightarrow> (\<And>e. R (RErr e)) \<Longrightarrow> (\<And>r. keeps R k x (cont r)) \<Longrightarrow>
     keeps R k x (redis_call exec (c # j # args) cont)"
  by (rule keeps_same) (simp_all add: db_frame)

lemma keeps_EXISTS: "keeps R k x (cont (RInt 1)) \<Longrightarrow> keeps R k x (redis_call exec [''EXISTS'', k] cont)"
  by (simp add: keeps_def call_EXISTS)

lemma keeps_GET:
  assumes "\<And>e. R (RErr e)" and "\<And>v eo. x = (VStr v, eo) \<Longrightarrow> keeps R k x (cont (RStr v))"
  shows "keeps R k x (redis_call exec [''GET'', k] cont)"
proof (cases x)
  case (Pair y eo)
  show ?thesis
  proof (cases y)
    case (VStr v)
    with Pair assms(2) show ?thesis by (simp add: keeps_def call_GET holder_def is_list_def)
  next
    case (VList q)
    with Pair assms(1) show ?thesis by (simp add: keeps_def call_GET holder_def is_list_def)
  qed
qed

lemma keeps_PTTL: "(\<And>e. R (RErr e)) \<Longrightarrow> (\<And>r. keeps R k x (cont r)) \<Longrightarrow> keeps R k x (redis_call exec [''PTTL'', k] cont)"
  by (rule keeps_same) simp_all

lemma keeps_if: "(b \<Longrightarrow> keeps R k x p) \<Longrightarrow> (\<not> b \<Longrightarrow> keeps R k x q) \<Longrightarrow> keeps R k x (if b then p else q)"
  by simp

lemmas nth_args = nth_Cons_0 nth_Cons_Suc One_nat_def numeral_2_eq_2

lemmas keeps_rules = keeps_return keeps_EXISTS keeps_GET keeps_PTTL keeps_if keeps_other

definition no_grant :: "reply \<Rightarrow> bool" where
  "no_grant r \<longleftrightarrow> (case r of RErr e \<Rightarrow> True | RInt n \<Rightarrow> n \<noteq> 1 | _ \<Rightarrow> False)"

lemma no_grant_simps [simp]: "\<not> no_grant (RStr w)" "no_grant (RErr e)" "no_grant (RInt n) \<longleftrightarrow> n \<noteq> 1"
  by (simp_all add: no_grant_def)

lemma no_grant_as_int: "no_grant (fst (script s)) \<Longrightarrow> as_int (fst (client_eval net script s)) \<noteq> Inr 1"
  by (cases net; cases "script s"; cases "fst (script s)") (auto simp: client_eval_def as_int_def)

text \<open>A held lock is granted to nobody, whatever the queue key holds.\<close>

lemma held_refused:
  assumes "k \<noteq> qk"
  shows "keeps no_grant k x (FairLockTryAcquireScript exec [k, qk] [v, wt, wq])"
    and "keeps no_grant k x (FairLockAcquireScript exec [k, qk] [v, wt])"
  using assms unfolding fair_scripts
  by (auto intro!: keeps_rules simp: truthy_def cong: if_cong)

lemma held_kept:
  assumes "k \<noteq> qk" and "\<And>w eo. x = (VStr w, eo) \<Longrightarrow> w \<noteq> v"
  shows "keeps (\<lambda>_. True) k x (FairLockReleaseScript exec [k, qk] [v])"
  unfolding fair_scripts nth_args
  by (rule keeps_GET) (auto intro!: keeps_return dest: assms(2))

lemma status_keeps:
  assumes "k \<noteq> qk"
  shows "keeps (\<lambda>_. True) k x (FairLockStatusScript exec [k, qk] args)"
  using assms unfolding fair_scripts Let_def nth_args
  by (auto intro!: keeps_rules)

lemma now_rf_script [simp]: "now_ms (snd (rf_script exec fmt key v oper s)) = now_ms s"
  by (cases oper) (simp_all add: rf_script_def Let_def)

lemma now_rf_step: "now_ms (snd (snd (rf_step exec fmt elapse keyof (d, i, net, ts, oper) st))) = now_ms (snd st) + int d"
  by (cases st) (simp add: rf_step_server now_client_eval)

lemma rf_ms_bounds: "rf_ms ttl < 2 ^ 60"
proof -
  have m: "sint Millisecond = 1000000" by (simp add: Millisecond_def)
  show ?thesis
  proof (cases "0 \<le> sint ttl")
    case True
    then have "rf_ms ttl = sint ttl div 1000000" using sint_go_div_pos [of ttl Millisecond] m by (simp add: rf_ms_def)
    with sint_i64_bounds(2) [of ttl] show ?thesis by simp
  next
    case False
    then have "sint ttl sdiv 1000000 \<le> 0 \<and> - (2 ^ 63) \<le> sint ttl sdiv 1000000"
      using sint_i64_bounds(1) [of ttl] by (simp add: signed_divide_int_def) linarith
    then show ?thesis by (simp add: rf_ms_def go_div_def m sint_of_int_i64)
  qed
qed

lemma rf_script_frame:
  assumes "j \<noteq> key" and "j \<noteq> fair_queue_key key"
  shows "db (snd (rf_script exec fmt key v oper s)) j = db s j"
proof -
  have "leaves j (rf_script exec fmt key v oper)"
    using assms
    by (cases oper) (auto simp: rf_script_def fair_scripts Let_def leaves_def [of j "exec cmd" for cmd] intro!: leaves_rules)
  then show ?thesis by (rule leavesD)
qed

end


context redis_fair begin

lemma rf_script_live:
  assumes "db s key = Some (VStr v, Some E)"
    and "oper = UnlockF \<Longrightarrow> w \<noteq> v"
    and "\<And>ttl. oper = ExtendF ttl \<Longrightarrow> w = v \<Longrightarrow> E \<le> now_ms s + rf_ms ttl"
  shows "\<exists>E'\<ge>E. db (snd (rf_script exec fmt key w oper s)) key = Some (VStr v, Some E')"
proof -
  have h: "fair_holder db key s = Some v" "\<not> is_list s key"
    using assms(1) by (simp_all add: fair_holder_def is_list_def)
  have same: "db (snd (rf_script exec fmt key w oper s)) key = Some (VStr v, Some E)" if "\<And>ttl. oper \<noteq> ExtendF ttl"
  proof (cases oper)
    case CleanupF
    have "leaves key (rf_script exec fmt key w oper)"
      by (auto simp: CleanupF rf_script_def fair_scripts Let_def intro!: leaves_rules)
    with assms(1) show ?thesis by (simp add: leavesD)
  next
    case UnlockF
    with assms(2) have "w \<noteq> v" by simp
    then show ?thesis
      using keepsD [OF held_kept [of key "fair_queue_key key" "(VStr v, Some E)" w] assms(1)]
      by (auto simp: UnlockF rf_script_def Let_def)
  qed (use assms(1) that keepsD [OF held_refused(1) assms(1)] keepsD [OF held_refused(2) assms(1)]
      keepsD [OF status_keeps assms(1)] in \<open>simp_all add: rf_script_def Let_def\<close>)
  show ?thesis
  proof (cases "\<exists>ttl. oper = ExtendF ttl")
    case True
    then obtain ttl where oper: "oper = ExtendF ttl" ..
    show ?thesis
    proof (cases "w = v")
      case True
      with assms(3) [OF oper] have le: "E \<le> now_ms s + rf_ms ttl" by simp
      moreover have "now_ms s < E" using alive [OF assms(1)] .
      ultimately show ?thesis using True h rf_ms_bounds [of ttl]
        by (simp add: oper rf_script_def Let_def extend_script_fair)
    next
      case False
      with h assms(1) rf_ms_bounds [of ttl] show ?thesis
        by (simp add: oper rf_script_def Let_def extend_script_fair)
    qed
  next
    case False
    with same show ?thesis by blast
  qed
qed

lemma rf_lease_kept:
  assumes clash: "\<And>i. fair_queue_key (keyof i) \<noteq> key"
    and "rs_lease db key st = Some (v, E)"
    and "now_ms (snd (snd (rf_step exec fmt elapse keyof e st))) \<le> E"
    and "\<not> rf_yields db now_ms keyof key e st"
  shows "\<not> rf_granted keyof key e (fst (rf_step exec fmt elapse keyof e st)) \<and>
    (\<exists>E'\<ge>E. rs_lease db key (snd (rf_step exec fmt elapse keyof e st)) = Some (v, E'))"
proof -
  obtain vals s where st: "st = (vals, s)" by (cases st)
  obtain d i net ts oper where e: "e = (d, i, net, ts, oper)" by (cases e)
  have key: "db s key = Some (VStr v, Some (E + 1))"
    using assms(2) by (auto simp: rs_lease_def st split: option.splits rval.splits prod.splits)
  have live: "db (elapse d s) key = Some (VStr v, Some (E + 1))"
    using assms(3) unfolding e st now_rf_step by (intro db_elapse_live [OF key]) simp
  have refused: "keeps no_grant key (VStr v, Some (E + 1)) (rf_script exec fmt key (vals i) oper)"
    if "(\<exists>opts uv. oper = TryLockF opts uv) \<or> (\<exists>ttl. oper = AcquireF ttl)"
    using that by (auto simp: rf_script_def Let_def held_refused)
  have "\<not> rf_granted keyof key e (fst (rf_step exec fmt elapse keyof e st))"
  proof
    assume "rf_granted keyof key e (fst (rf_step exec fmt elapse keyof e st))"
    from rf_granted_script [OF this [unfolded e st]]
      no_grant_as_int [of "rf_script exec fmt key (vals i) oper" "elapse d s" net]
      keepsD [OF refused live] show False by blast
  qed
  moreover have "\<exists>E'\<ge>E + 1. db (snd (rf_script exec fmt (keyof i) (vals i) oper (elapse d s))) key = Some (VStr v, Some E')"
  proof (cases "keyof i = key")
    case True
    have "oper = UnlockF \<Longrightarrow> vals i \<noteq> v"
      using assms(4) True key by (auto simp: e st fair_holder_def)
    moreover have "E + 1 \<le> now_ms (elapse d s) + rf_ms ttl" if "oper = ExtendF ttl" "vals i = v" for ttl
      using assms(4) True key that by (auto simp: e st fair_holder_def)
    ultimately show ?thesis using rf_script_live [OF live] True by blast
  next
    case False
    with live show ?thesis using clash [of i] by (simp add: rf_script_frame)
  qed
  then have "\<exists>E'\<ge>E + 1. db (snd (snd (rf_step exec fmt elapse keyof e st))) key = Some (VStr v, Some E')"
    using db_client_eval [of net "rf_script exec fmt (keyof i) (vals i) oper" "elapse d s"] live
    unfolding e st rf_step_server by auto
  ultimately show ?thesis by (force simp: rs_lease_def)
qed

lemma rf_lockTTL_pos: "0 < sint (rf_lockTTL config)" "0 < sint (rf_queueTTL config)"
  by (auto simp: rf_lockTTL_def rf_queueTTL_def Second_def Minute_def)

lemma rf_grant_lease:
  assumes "rf_step exec fmt elapse keyof (d, i, net, ts, TryLockF opts uv) st = (BoolRes True e, st1)"
    and "keyof i = key"
  obtains E where "rs_lease db key st1 = Some (Value (ApplyLockOptions opts uv), E)"
    and "now_ms (snd st1) + sint (rf_lockTTL (ApplyLockOptions opts uv)) div 1000000 - 1 \<le> E"
proof -
  obtain vals s where st: "st = (vals, s)" by (cases st)
  let ?c = "ApplyLockOptions opts uv" and ?s = "elapse d s"
  let ?sc = "rf_script exec fmt key (vals i) (TryLockF opts uv)"
  have "rf_granted keyof key (d, i, net, ts, TryLockF opts uv)
      (fst (rf_step exec fmt elapse keyof (d, i, net, ts, TryLockF opts uv) (vals, s)))"
    using assms by (simp add: st)
  note g = rf_granted_script(2) [OF this]
  have net: "net = Delivered" using g by (cases net) (auto simp: client_eval_def as_int_def)
  have grant: "\<not> no_grant (fst (?sc ?s))" using g no_grant_as_int [of ?sc ?s net] by auto
  have free: "db ?s key = None"
  proof (rule ccontr)
    assume "db ?s key \<noteq> None"
    then obtain x where "db ?s key = Some x" by blast
    from keepsD [OF held_refused(1) this] grant show False by (auto simp: rf_script_def Let_def)
  qed
  have st1: "snd st1 = snd (?sc ?s)"
    using rf_step_server [of exec fmt elapse keyof d i net ts "TryLockF opts uv" vals s] assms net
    by (simp add: st client_eval_state)
  from fmt show thesis
  proof (cases rule: seconds_format_cases [where d = "rf_lockTTL ?c"])
    case (valid n)
    with st1 free have "rs_lease db key st1 = Some (Value ?c, now_ms (snd st1) + 1000 * n - 1)"
      by (simp add: rs_lease_def rf_script_def Let_def try_acquire_free)
    with valid(4) show thesis by (intro that) (assumption, linarith)
  next
    case (past n)
    with rf_lockTTL_pos(1) [of ?c] show thesis by simp
  next
    case fraction
    with grant try_acquire_free_bad(1) [OF free fraction(2), of "fair_queue_key key" "Value ?c" "fmt (rf_queueTTL ?c)"]
    show thesis by (auto simp: rf_script_def Let_def elim: is_errE)
  qed
qed

end

text \<open>
  A fair lock on \<open>key\<close> is a lease as long as \<open>key\<close> is not itself the queue of a client's key, and
  no client's key is the queue of \<open>key\<close>.
\<close>

locale redis_fair_key = redis_fair exec db now_ms elapse fmt
  for exec :: "'s server" and db :: "'s \<Rightarrow> keyspace" and now_ms :: "'s \<Rightarrow> int"
    and elapse :: "nat \<Rightarrow> 's \<Rightarrow> 's" and fmt :: "duration \<Rightarrow> string" +
  fixes keyof :: "nat \<Rightarrow> string" and key :: string
  assumes no_clash: "fair_queue_key (keyof i) \<noteq> key" and no_clash': "keyof i \<noteq> fair_queue_key key"

sublocale redis_fair_key < fair_lock: leased "rf_step exec fmt elapse keyof" "\<lambda>st. now_ms (snd st)"
    "rs_lease db key" "rf_granted keyof key" "rf_yields db now_ms keyof key"
proof unfold_locales
  fix st :: "(nat \<Rightarrow> string) \<times> 's" and e :: "rf_op sent"
  obtain d i net ts oper where e: "e = (d, i, net, ts, oper)" by (cases e)
  show "now_ms (snd st) \<le> now_ms (snd (snd (rf_step exec fmt elapse keyof e st)))"
    unfolding e now_rf_step by simp
qed (rule rf_lease_kept [OF no_clash])

context redis_fair_key begin

lemma rf_grant_then_exclusion:
  assumes "keyof i = key"
    and "rf_step exec fmt elapse keyof (d, i, net, ts, TryLockF opts uv) st = (BoolRes True e, st1)"
    and "along (\<lambda>ev st. \<not> rf_yields db now_ms keyof key ev st) (rf_step exec fmt elapse keyof) evs st1"
    and "run (rf_step exec fmt elapse keyof) evs st1 = (rs, st2)"
    and "now_ms (snd st2) < now_ms (snd st1) + sint (rf_lockTTL (ApplyLockOptions opts uv)) div 1000000"
  shows "(\<forall>(ev, r) \<in> set (zip evs rs). \<not> rf_granted keyof key ev r) \<and>
    (\<exists>E. rs_lease db key st2 = Some (Value (ApplyLockOptions opts uv), E))"
proof -
  obtain E where E: "rs_lease db key st1 = Some (Value (ApplyLockOptions opts uv), E)"
    and le: "now_ms (snd st1) + sint (rf_lockTTL (ApplyLockOptions opts uv)) div 1000000 - 1 \<le> E"
    by (rule rf_grant_lease [OF assms(2,1)])
  from le assms(5) have "now_ms (snd st2) \<le> E" by simp
  with fair_lock.exclusion [OF E assms(3)] assms(4) show ?thesis by auto
qed

end


interpretation ref_fair: redis_fair ref_exec ref_db rs_now ref_elapse ref_fmt
  by unfold_locales

interpretation ref_fair_key: redis_fair_key ref_exec ref_db rs_now ref_elapse ref_fmt "\<lambda>_. ''k''" "''k''"
  by unfold_locales simp_all

end
