(* ===== verification/RedisFairQueue.thy ===== *)
theory RedisFairQueue
  imports RedisFair "HOL-Library.Sublist"
begin

text \<open>
  What the distributed fair lock of \<open>RedisFair\<close> promises: it refines a holder with a queue, serves
  the queue in order, can be blocked by a waiter that does not come back, and its blocking \<open>Lock\<close>
  returns; and the properties of the fair lock.
\<close>

section \<open>Refinement of a lock with a queue\<close>

text \<open>
  What the fair lock promises, without keys, scripts or messages: a holder with the milliseconds left
  of its lease (\<open>None\<close> if it never ends), and a queue. \<open>v\<close> is the value in the caller's handle.
\<close>

type_synonym fair_state = "(string \<times> int option) option \<times> string list"

definition ttl_ms :: "duration \<Rightarrow> int" where
  "ttl_ms d = sint d div 1000000"

fun fair_spec :: "string \<Rightarrow> gotime \<Rightarrow> string \<Rightarrow> rf_op \<Rightarrow> fair_state \<Rightarrow> op_result \<times> fair_state" where
  "fair_spec key ts v (TryLockF opts uv) (h, q) =
     (let c = ApplyLockOptions opts uv in
      if h = None then (BoolRes True None, Some (Value c, Some (ttl_ms (rf_lockTTL c))), q)
      else (BoolRes False None, h, q @ [Value c]))"
| "fair_spec key ts v (AcquireF ttl) (h, q) =
     (if q \<noteq> [] \<and> hd q = v \<and> h = None then (BoolRes True None, Some (v, Some (ttl_ms ttl)), tl q)
      else (BoolRes False None, h, q))"
| "fair_spec key ts v CleanupF (h, q) = (ErrRes None, h, removeAll v q)"
| "fair_spec key ts v UnlockF (h, q) =
     (if map_option fst h = Some v then (ErrRes None, None, removeAll v q)
      else (ErrRes (Some (NewLockNotFoundError key ts)), h, q))"
| "fair_spec key ts v (ExtendF ttl) (h, q) =
     (if map_option fst h = Some v
      then (BoolRes True None, if rf_ms ttl \<le> 0 then None else Some (v, Some (rf_ms ttl)), q)
      else (BoolRes False None, h, q))"
| "fair_spec key ts v IsLockedF (h, q) = (BoolRes (h \<noteq> None) None, h, q)"
| "fair_spec key ts v GetTTLF (h, q) =
     (case h of
        None \<Rightarrow> DurRes 0 (Some (NewLockNotFoundError key ts))
      | Some (_, None) \<Rightarrow> DurRes (- 1) None
      | Some (_, Some ms) \<Rightarrow> DurRes (duration_of ms Millisecond) None, h, q)"
| "fair_spec key ts v GetQueuePositionF (h, q) =
     (NumRes (if v \<in> set q then int (length (takeWhile (\<lambda>x. x \<noteq> v) q)) else - 1) None, h, q)"
| "fair_spec key ts v GetQueueLengthF (h, q) = (NumRes (int (length q)) None, h, q)"
| "fair_spec key ts v GetQueueInfoF (h, q) = (ListRes q None, h, q)"

definition fair_view :: "('s \<Rightarrow> keyspace) \<Rightarrow> ('s \<Rightarrow> int) \<Rightarrow> string \<Rightarrow> 's \<Rightarrow> fair_state" where
  "fair_view db now_ms key s =
     (case db s key of Some (VStr v, eo) \<Rightarrow> Some (v, map_option (\<lambda>E. E - now_ms s) eo) | _ \<Rightarrow> None,
      waiting db (fair_queue_key key) s)"

text \<open>The values in the handles: a request to lock stores its own.\<close>

fun new_vals :: "nat \<Rightarrow> rf_op \<Rightarrow> (nat \<Rightarrow> string) \<Rightarrow> nat \<Rightarrow> string" where
  "new_vals i (TryLockF opts uv) vals = vals(i := Value (ApplyLockOptions opts uv))"
| "new_vals i oper vals = vals"

lemma ipairs_find_index:
  "ipairs_find i v (map RStr q) = (if v \<in> set q then i + int (length (takeWhile (\<lambda>x. x \<noteq> v) q)) else - 1)"
  by (induction q arbitrary: i) auto

text \<open>The TTLs an operation sends are positive whole numbers of seconds.\<close>

definition whole :: "duration \<Rightarrow> bool" where
  "whole d \<longleftrightarrow> 0 < sint d \<and> sint d mod 1000000000 = 0"

fun whole_op :: "rf_op \<Rightarrow> bool" where
  "whole_op (TryLockF opts uv) =
     (whole (rf_lockTTL (ApplyLockOptions opts uv)) \<and> whole (rf_queueTTL (ApplyLockOptions opts uv)))"
| "whole_op (AcquireF ttl) = whole ttl"
| "whole_op oper = True"

context redis_fair begin

lemma whole_expiry: "whole d \<Longrightarrow> \<exists>n. expiry (fmt d) = Some n"
  using seconds_format_whole [OF fmt] by (auto simp: whole_def)

text \<open>Each update the scripts make keeps the keys well-formed and moves the view.\<close>

lemma fair_ok_upd:
  assumes "fair_ok db k qk s"
  shows "db s' = db s \<Longrightarrow> fair_ok db k qk s'"
    and "db s' = (db s)(k \<mapsto> (VStr v, eo)) \<Longrightarrow> fair_ok db k qk s'"
    and "db s' = (db s)(k := None) \<Longrightarrow> fair_ok db k qk s'"
    and "db s' = (db s)(qk \<mapsto> (VList q, eo)) \<Longrightarrow> fair_ok db k qk s'"
    and "db s' = (db s)(qk := None) \<Longrightarrow> fair_ok db k qk s'"
    and "db s' = (db s)(k \<mapsto> (VStr v, eo), qk \<mapsto> (VList q, eo')) \<Longrightarrow> fair_ok db k qk s'"
    and "db s' = (db s)(k \<mapsto> (VStr v, eo), qk := None) \<Longrightarrow> fair_ok db k qk s'"
    and "db s' = (db s)(k := None, qk \<mapsto> (VList q, eo')) \<Longrightarrow> fair_ok db k qk s'"
    and "db s' = (db s)(k := None, qk := None) \<Longrightarrow> fair_ok db k qk s'"
  using assms by (auto simp: fair_ok_def)

lemma fair_ok_elapse: "fair_ok db k qk s \<Longrightarrow> fair_ok db k qk (elapse d s)"
  by (auto simp: fair_ok_def db_elapse split: option.splits rval.splits)

lemma fair_holder_None: "fair_ok db k qk s \<Longrightarrow> db s k = None \<longleftrightarrow> fair_holder db k s = None"
  by (simp add: fair_ok_views(2))

lemma fair_view_holder:
  assumes "fair_ok db key (fair_queue_key key) s"
  shows "fst (fair_view db now_ms key s) = None \<longleftrightarrow> db s key = None"
    and "map_option fst (fst (fair_view db now_ms key s)) = fair_holder db key s"
    and "snd (fair_view db now_ms key s) = wait (fair_queue_key key) s"
  using assms by (auto simp: fair_view_def fair_ok_def fair_holder_def split: option.splits rval.splits)

lemma whole_ms:
  assumes "whole d"
  obtains n where "expiry (fmt d) = Some n" and "1000 * n = ttl_ms d"
  using seconds_exact [of d thesis] assms by (auto simp: whole_def ttl_ms_def)

lemma refines_script:
  assumes ok: "fair_ok db key (fair_queue_key key) s" and "whole_op oper"
    and r: "fair_spec key ts v oper (fair_view db now_ms key s) = (res, h, q)"
  shows "fair_ok db key (fair_queue_key key) (snd (rf_script exec fmt key v oper s)) \<and>
    fair_view db now_ms key (snd (rf_script exec fmt key v oper s)) = (h, q)"
proof -
  let ?qk = "fair_queue_key key" and ?s' = "snd (rf_script exec fmt key v oper s)"
  note parts = fair_ok_parts [OF ok]
  have same: "fair_ok db key ?qk ?s' \<and> fair_view db now_ms key ?s' = fair_view db now_ms key s" if "db ?s' = db s"
    using that ok by (simp add: fair_ok_def fair_view_def waiting_def split: option.split rval.split)
  from ok show ?thesis
  proof (cases oper)
    case (TryLockF opts uv)
    let ?c = "ApplyLockOptions opts uv"
    obtain n m where n: "expiry (fmt (rf_lockTTL ?c)) = Some n" "1000 * n = ttl_ms (rf_lockTTL ?c)"
      and m: "expiry (fmt (rf_queueTTL ?c)) = Some m"
      using assms(2) TryLockF by (auto elim!: whole_ms)
    then have m': "parse_int (fmt (rf_queueTTL ?c)) = Some m" "0 < m"
      by (auto simp: expiry_def split: option.splits if_splits)
    from try_acquire_free(2) [OF _ n(1), of s key ?qk "Value ?c" "fmt (rf_queueTTL ?c)"]
      try_acquire_held(2) [OF ok _ m, of "Value ?c" "fmt (rf_lockTTL ?c)"]
    have "db ?s' = (if db s key = None then (db s)(key \<mapsto> (VStr (Value ?c), Some (now_ms s + ttl_ms (rf_lockTTL ?c))))
        else (db s)(?qk \<mapsto> (VList (wait ?qk s @ [Value ?c]), Some (now_ms s + 1000 * m))))"
      using m' n(2) by (simp add: TryLockF rf_script_def Let_def pushed_def)
    then show ?thesis using r parts(1,2)
      by (cases rule: fair_ok_cases [OF ok]) (auto simp: TryLockF fair_ok_def Let_def fair_view_def waiting_def)
  next
    case (AcquireF ttl)
    obtain n where n: "expiry (fmt ttl) = Some n" "1000 * n = ttl_ms ttl"
      using assms(2) AcquireF by (auto elim!: whole_ms)
    have "db ?s' = (if wait ?qk s \<noteq> [] \<and> hd (wait ?qk s) = v \<and> db s key = None
       then (db s)(key \<mapsto> (VStr v, Some (now_ms s + ttl_ms ttl)),
                   ?qk := if tl (wait ?qk s) = [] then None else Some (VList (tl (wait ?qk s)), q_exp ?qk s))
       else db s)"
      using acquire_script_fair(2) [OF ok n(1), of v] n(2) by (simp add: AcquireF rf_script_def Let_def)
    then show ?thesis using r parts(1,2)
      by (cases rule: fair_ok_cases [OF ok])
         (auto simp: AcquireF fair_ok_def fair_view_def waiting_def split: if_splits)
  next
    case CleanupF
    have "db ?s' = (db s)(?qk := removed v ?qk s)"
      using cleanup_script(2) [OF parts(4), of v] by (simp add: CleanupF rf_script_def Let_def)
    then show ?thesis using r parts(1,2)
      by (cases rule: fair_ok_cases [OF ok])
         (auto simp: CleanupF fair_ok_def fair_view_def waiting_def removed_def split: if_splits)
  next
    case UnlockF
    have "db ?s' = (if fair_holder db key s = Some v then (db s)(key := None, ?qk := removed v ?qk s) else db s)"
      using release_script_fair(2) [OF ok, of v] by (simp add: UnlockF rf_script_def Let_def)
    then show ?thesis using r parts(1,2)
      by (cases rule: fair_ok_cases [OF ok])
         (auto simp: UnlockF fair_ok_def fair_view_def fair_holder_def waiting_def removed_def split: if_splits)
  next
    case (ExtendF ttl)
    have "db ?s' = (if fair_holder db key s = Some v
        then (db s)(key := if 0 < rf_ms ttl then Some (VStr v, Some (now_ms s + rf_ms ttl)) else None) else db s)"
      using extend_script_fair(2) [OF parts(3) rf_ms_bounds, of v ttl] by (simp add: ExtendF rf_script_def Let_def)
    then show ?thesis using r parts(1,2)
      by (cases rule: fair_ok_cases [OF ok])
         (auto simp: ExtendF fair_ok_def fair_view_def fair_holder_def waiting_def split: if_splits)
  qed (use same r status_script_fair(2) [OF parts(4)] in
      \<open>cases "fair_view db now_ms key s"; simp add: rf_script_def Let_def\<close>)+
qed

end


context redis_fair begin

lemma refines_result:
  assumes ok: "fair_ok db (keyof i) (fair_queue_key (keyof i)) (elapse d s)" and "whole_op oper"
    and r: "fair_spec (keyof i) ts (vals i) oper (fair_view db now_ms (keyof i) (elapse d s)) = (res, view)"
  shows "fst (rf_step exec fmt elapse keyof (d, i, Delivered, ts, oper) (vals, s)) = res"
proof -
  let ?s = "elapse d s" and ?k = "keyof i" and ?qk = "fair_queue_key (keyof i)"
  note parts = fair_ok_parts [OF ok]
  obtain h q where hq: "fair_view db now_ms ?k ?s = (h, q)" by (cases "fair_view db now_ms ?k ?s")
  then have view: "h = None \<longleftrightarrow> db ?s ?k = None" "map_option fst h = fair_holder db ?k ?s" "q = wait ?qk ?s"
    using fair_view_holder [OF ok] by simp_all
  note r = r [unfolded hq]
  show ?thesis
  proof (cases oper)
    case (TryLockF opts uv)
    let ?c = "ApplyLockOptions opts uv"
    obtain n m where ex: "expiry (fmt (rf_lockTTL ?c)) = Some n" "expiry (fmt (rf_queueTTL ?c)) = Some m"
      using assms(2) whole_expiry TryLockF by fastforce
    show ?thesis
    proof (cases "db ?s ?k")
      case None
      with view try_acquire_free(1) [OF None ex(1), of ?qk "Value ?c" "fmt (rf_queueTTL ?c)"] r
      show ?thesis by (simp add: TryLockF rf_step.simps RF_TryLock_def Let_def client_eval_Delivered as_int_def)
    next
      case (Some y)
      with view try_acquire_held(1) [OF ok _ ex(2), of "Value ?c" "fmt (rf_lockTTL ?c)"] r
      show ?thesis by (auto simp: TryLockF rf_step.simps RF_TryLock_def Let_def client_eval_Delivered as_int_def)
    qed
  next
    case (AcquireF ttl)
    obtain n where ex: "expiry (fmt ttl) = Some n" using assms(2) whole_expiry AcquireF by auto
    show ?thesis
      using acquire_script_fair(1) [OF ok ex, of "vals i"] view r
      by (auto simp: AcquireF rf_step.simps Let_def client_eval_Delivered as_int_def split: if_splits)
  next
    case CleanupF
    with r show ?thesis by (simp add: rf_step.simps Let_def)
  next
    case UnlockF
    show ?thesis
      using release_script_fair(1) [OF ok, of "vals i"] view(2) r
      by (simp add: UnlockF rf_step.simps RF_Unlock_def Let_def client_eval_Delivered as_int_def split: if_splits)
  next
    case (ExtendF ttl)
    show ?thesis
      using extend_script_fair(1) [OF parts(3) rf_ms_bounds, of "vals i" ttl] view(2) r
      by (simp add: ExtendF rf_step.simps RF_Extend_def rf_ms_def Let_def client_eval_Delivered as_int_def
          split: if_splits)
  next
    case GetTTLF
    have h: "h = (case db ?s ?k of Some (VStr v, eo) \<Rightarrow> Some (v, map_option (\<lambda>E. E - now_ms ?s) eo) | _ \<Rightarrow> None)"
      using hq by (simp add: fair_view_def)
    show ?thesis
      using r h status_script_fair(1) [OF parts(4), of ?k "[]"] alive [of ?s ?k]
      by (cases rule: fair_ok_cases [OF ok]) (auto simp: GetTTLF rf_step.simps RF_GetTTL_def Let_def
          client_eval_Delivered as_slice_def pttl_def split: option.splits)
  next
    case GetQueueInfoF
    have "fst (exec [''LRANGE'', ?qk, ''0'', ''-1''] ?s) = RList (map RStr q)"
      using exec_LRANGE(1) [of ?s ?qk] exec_LRANGE(2) [of ?s ?qk] view(3)
      by (cases rule: queue_cases [OF parts(4)]) simp_all
    with r show ?thesis
      by (simp add: GetQueueInfoF rf_step.simps RF_GetQueueInfo_def Let_def client_eval_Delivered as_strings_def
          as_slice_def case_prod_beta o_def)
  qed (use status_script_fair(1) [OF parts(4)] r view in
      \<open>auto simp: rf_step.simps RF_IsLocked_def RF_GetQueuePosition_def RF_GetQueueLength_def
         Let_def client_eval_Delivered as_slice_def case_prod_beta position_def ipairs_find_index\<close>)
qed

lemma rf_step_vals:
  "fst (snd (rf_step exec fmt elapse keyof (d, i, net, ts, oper) (vals, s))) = new_vals i oper vals"
  by (cases oper) (simp_all add: rf_step.simps Let_def case_prod_beta RF_TryLock_def split: sum.split)

lemma rf_step_refines:
  assumes "fair_ok db (keyof i) (fair_queue_key (keyof i)) s" and "whole_op oper"
    and "rf_step exec fmt elapse keyof (d, i, Delivered, ts, oper) (vals, s) = (r, vals', s')"
    and "fair_spec (keyof i) ts (vals i) oper (fair_view db now_ms (keyof i) (elapse d s)) = (res, view)"
  shows "fair_ok db (keyof i) (fair_queue_key (keyof i)) s' \<and> fair_view db now_ms (keyof i) s' = view \<and>
    r = res \<and> vals' = new_vals i oper vals"
proof -
  have ok: "fair_ok db (keyof i) (fair_queue_key (keyof i)) (elapse d s)" by (rule fair_ok_elapse [OF assms(1)])
  have "s' = snd (rf_script exec fmt (keyof i) (vals i) oper (elapse d s))"
    using rf_step_server [of exec fmt elapse keyof d i Delivered ts oper vals s] assms(3)
    by (simp add: client_eval_Delivered)
  moreover obtain h q where view: "view = (h, q)" by (cases view)
  ultimately have "fair_ok db (keyof i) (fair_queue_key (keyof i)) s' \<and> fair_view db now_ms (keyof i) s' = view"
    using refines_script [OF ok assms(2), of ts "vals i"] assms(4) by simp
  moreover have "r = res"
    using refines_result [where keyof = keyof and i = i and ts = ts and vals = vals, OF ok assms(2,4)] assms(3) by simp
  moreover have "vals' = new_vals i oper vals"
    using rf_step_vals [of keyof d i Delivered ts oper vals s] assms(3) by simp
  ultimately show ?thesis by blast
qed

end

section \<open>First in, first out\<close>

text \<open>
  The values that are granted through the queue along a run, and the values that are put at its
  end or try to be.
\<close>

fun served ::
    "(rf_op sent \<Rightarrow> (nat \<Rightarrow> string) \<times> 's \<Rightarrow> op_result \<times> ((nat \<Rightarrow> string) \<times> 's)) \<Rightarrow> (nat \<Rightarrow> string) \<Rightarrow> string
       \<Rightarrow> rf_op sent list \<Rightarrow> (nat \<Rightarrow> string) \<times> 's \<Rightarrow> string list" where
  "served step keyof key [] st = []"
| "served step keyof key (ev # evs) st =
     (case ev of (d, i, net, ts, oper) \<Rightarrow>
        (case (oper, fst (step ev st)) of
           (AcquireF ttl, BoolRes True e) \<Rightarrow> if keyof i = key then [fst st i] else []
         | _ \<Rightarrow> [])) @ served step keyof key evs (snd (step ev st))"

fun queued :: "(nat \<Rightarrow> string) \<Rightarrow> string \<Rightarrow> rf_op sent list \<Rightarrow> string list" where
  "queued keyof key [] = []"
| "queued keyof key ((d, i, net, ts, oper) # evs) =
     (case oper of
        TryLockF opts uv \<Rightarrow> if keyof i = key then [Value (ApplyLockOptions opts uv)] else []
      | _ \<Rightarrow> []) @ queued keyof key evs"

context redis_fair begin

lemma subseq_removeAll: "subseq (removeAll v q) q"
  unfolding removeAll_filter_not_eq by (rule subseq_filter_left)

lemma not_expiry_bad:
  assumes "expiry (fmt d) = None"
  shows "bad_expiry (fmt d)"
  using fmt by (cases rule: seconds_format_cases [where d = d]) (simp_all add: assms)

lemma wait_elapse: "wait qk (elapse d s) = wait qk s \<or> wait qk (elapse d s) = []"
  by (auto simp: waiting_def db_elapse split: option.split rval.split)

lemma acquire_script_fair_bad:
  assumes "fair_ok db k qk s" and "bad_expiry wt"
  shows "no_grant (fst (FairLockAcquireScript exec [k, qk] [v, wt] s))"
    and "db (snd (FairLockAcquireScript exec [k, qk] [v, wt] s)) = db s"
proof -
  note ok = fair_ok_parts [OF assms(1)]
  define s1 where "s1 = snd (exec [''LINDEX'', qk, ''0''] s)"
  have s1: "db s1 = db s" by (simp add: s1_def)
  then have h: "\<not> is_list s1 k" using ok(3) by (simp add: is_list_def)
  have e: "is_err (fst (redis_call exec [''SET'', k, v, ''EX'', wt] cont t))"
    "db (snd (redis_call exec [''SET'', k, v, ''EX'', wt] cont t)) = db t" for cont t
    using exec_SET_err [OF assms(2), of k v t] db_SET_err [OF assms(2), of k v t]
    by (simp_all add: redis_call_is_err)
  have i: "redis_call exec [''LINDEX'', qk, ''0''] cont s = cont (case wait qk s of [] \<Rightarrow> RNil | v # q \<Rightarrow> RStr v) s1" for cont
    using call_LINDEX [OF ok(4)] by (simp add: s1_def)
  have "is_err r \<Longrightarrow> no_grant r" for r by (auto elim: is_errE)
  with e s1 show "no_grant (fst (FairLockAcquireScript exec [k, qk] [v, wt] s))"
    "db (snd (FairLockAcquireScript exec [k, qk] [v, wt] s)) = db s"
    by (auto simp: FairLockAcquireScript_def i call_GET_holder [OF h] lua_return_def truthy_def)
qed

text \<open>One script, with any TTLs: the queue moves on in order.\<close>

definition in_order :: "string \<Rightarrow> 's \<Rightarrow> string list \<Rightarrow> string list \<Rightarrow> 's \<Rightarrow> bool" where
  "in_order key s gone new s' \<longleftrightarrow> fair_ok db key (fair_queue_key key) s' \<and>
     subseq (gone @ wait (fair_queue_key key) s') (wait (fair_queue_key key) s @ new)"

lemma in_order_wait:
  assumes "fair_ok db key (fair_queue_key key) s" and "db s' = (db s)(fair_queue_key key := x)"
    and "x = None \<or> (\<exists>q eo. x = Some (VList q, eo) \<and> subseq q (wait (fair_queue_key key) s @ new))"
  shows "in_order key s [] new s'"
  using assms by (auto simp: in_order_def waiting_def fair_ok_def)

lemma in_order_same:
  assumes "fair_ok db key (fair_queue_key key) s"
    and "db s' (fair_queue_key key) = db s (fair_queue_key key)"
    and "db s' key = db s key \<or> db s' key = None \<or> (\<exists>v eo. db s' key = Some (VStr v, eo))"
  shows "in_order key s [] new s'"
  using assms by (auto simp: in_order_def waiting_def fair_ok_def)

text \<open>A request to lock a held lock puts its value at the end of the queue, whatever its TTLs.\<close>

lemma pushes:
  assumes "fair_ok db k qk s" and "db s k \<noteq> None"
  shows "db (snd (FairLockTryAcquireScript exec [k, qk] [v, wt, fmt (rf_queueTTL c)] s)) =
    (db s)(qk := pushed v qk s (fmt (rf_queueTTL c)))"
  using fmt
proof (cases rule: seconds_format_cases [where d = "rf_queueTTL c"])
  case (valid n)
  with try_acquire_held(2) [OF assms valid(1)] show ?thesis by simp
next
  case (past n)
  with rf_lockTTL_pos(2) [of c] show ?thesis by simp
next
  case fraction
  with try_acquire_held_fraction(2) [OF assms fraction(1)] show ?thesis by simp
qed

lemma pushed_queue: "\<exists>eo. pushed v qk s (fmt (rf_queueTTL c)) = Some (VList (wait qk s @ [v]), eo)"
  using fmt
proof (cases rule: seconds_format_cases [where d = "rf_queueTTL c"])
  case (past n)
  with rf_lockTTL_pos(2) [of c] show ?thesis by simp
next
  case (valid n)
  then have "0 < n" by (auto simp: expiry_def split: option.splits if_splits)
  with valid show ?thesis by (simp add: pushed_def)
qed (simp add: pushed_def)

lemma rf_script_in_order:
  assumes ok: "fair_ok db key (fair_queue_key key) s"
  shows "in_order key s [] (case oper of TryLockF opts uv \<Rightarrow> [Value (ApplyLockOptions opts uv)] | _ \<Rightarrow> [])
      (snd (rf_script exec fmt key v oper s))"
    and "oper = AcquireF ttl \<Longrightarrow> fst (rf_script exec fmt key v oper s) = RInt 1 \<Longrightarrow> in_order key s [v] []
      (snd (rf_script exec fmt key v oper s))"
proof -
  let ?qk = "fair_queue_key key"
  note parts = fair_ok_parts [OF ok]
  have acquire: "in_order key s (if fst (FairLockAcquireScript exec [key, ?qk] [v, fmt ttl] s) = RInt 1 then [v] else [])
      [] (snd (FairLockAcquireScript exec [key, ?qk] [v, fmt ttl] s))" for ttl
  proof (cases "expiry (fmt ttl)")
    case (Some n)
    show ?thesis
      using ok parts(1) acquire_script_fair [OF ok Some, of v] tl_Nil [of "wait ?qk s"]
      by (cases "wait ?qk s") (auto simp: in_order_def fair_ok_def waiting_def)
  next
    case None
    then have bad: "bad_expiry (fmt ttl)" by (rule not_expiry_bad)
    have "fst (FairLockAcquireScript exec [key, ?qk] [v, fmt ttl] s) \<noteq> RInt 1"
      using acquire_script_fair_bad(1) [OF ok bad, of v] by auto
    then show ?thesis using acquire_script_fair_bad(2) [OF ok bad, of v] in_order_same [OF ok] by simp
  qed
  show "in_order key s [] (case oper of TryLockF opts uv \<Rightarrow> [Value (ApplyLockOptions opts uv)] | _ \<Rightarrow> [])
      (snd (rf_script exec fmt key v oper s))"
  proof (cases oper)
    case (TryLockF opts uv)
    let ?c = "ApplyLockOptions opts uv"
    let ?t = "snd (FairLockTryAcquireScript exec [key, ?qk] [Value ?c, fmt (rf_lockTTL ?c), fmt (rf_queueTTL ?c)] s)"
    have "in_order key s [] [Value ?c] ?t"
    proof (cases "db s key")
      case None
      show ?thesis
      proof (cases "expiry (fmt (rf_lockTTL ?c))")
        case (Some n)
        show ?thesis
          using in_order_same [OF ok] parts(2) try_acquire_free(2) [OF None Some, of ?qk "Value ?c" "fmt (rf_queueTTL ?c)"]
          by simp
      next
        case e: None
        from in_order_same [OF ok] try_acquire_free_bad(2) [OF None not_expiry_bad [OF e], of ?qk "Value ?c" "fmt (rf_queueTTL ?c)"]
        show ?thesis by simp
      qed
    next
      case (Some y)
      have "db ?t = (db s)(?qk := pushed (Value ?c) ?qk s (fmt (rf_queueTTL ?c)))"
        by (rule pushes [OF ok]) (simp add: Some)
      then show ?thesis by (rule in_order_wait [OF ok]) (auto simp: pushed_def split: option.split)
    qed
    then show ?thesis by (simp add: TryLockF rf_script_def Let_def)
  next
    case (AcquireF ttl)
    have "in_order key s [v] [] t \<Longrightarrow> in_order key s [] [] t" for t
      by (auto simp: in_order_def intro: subseq_Cons')
    with acquire [of ttl] show ?thesis by (auto simp: AcquireF rf_script_def Let_def split: if_splits)
  next
    case CleanupF
    show ?thesis
      unfolding CleanupF rf_script_def Let_def rf_op.case
      by (rule in_order_wait [OF ok cleanup_script(2) [OF parts(4)]]) (simp add: removed_def subseq_removeAll)
  next
    case UnlockF
    show ?thesis
      using ok release_script_fair(2) [OF ok, of v]
      by (auto simp: UnlockF rf_script_def Let_def removed_def subseq_removeAll in_order_def fair_ok_def waiting_def)
  next
    case (ExtendF ttl)
    show ?thesis
      using extend_script_fair(2) [OF parts(3) rf_ms_bounds, of v ttl] parts(2)
      by (auto simp: ExtendF rf_script_def Let_def intro!: in_order_same [OF ok])
  qed (use status_script_fair(2) [OF parts(4)] in
      \<open>auto simp: rf_script_def Let_def intro!: in_order_same [OF ok]\<close>)
  show "in_order key s [v] []
      (snd (rf_script exec fmt key v oper s))" if "oper = AcquireF ttl" "fst (rf_script exec fmt key v oper s) = RInt 1"
    using acquire [of ttl] that by (simp add: rf_script_def Let_def)
qed

end


context redis_fair begin

lemma acquire_granted:
  assumes "fair_ok db k qk s" and "\<not> no_grant (fst (FairLockAcquireScript exec [k, qk] [v, fmt ttl] s))"
  shows "fst (FairLockAcquireScript exec [k, qk] [v, fmt ttl] s) = RInt 1"
proof (cases "expiry (fmt ttl)")
  case (Some n)
  with acquire_script_fair(1) [OF assms(1) Some, of v] assms(2) show ?thesis by (simp split: if_splits)
next
  case None
  with acquire_script_fair_bad(1) [OF assms(1) not_expiry_bad] assms(2) show ?thesis by blast
qed

lemma fair_queue_key_inject: "fair_queue_key k = fair_queue_key k' \<longleftrightarrow> k = k'"
  by (simp add: fair_queue_key_def newRedisFairLock_def)

lemma wait_elapse_subseq: "subseq (wait qk (elapse d s)) (wait qk s)"
  using wait_elapse [of qk d s] by auto

lemma rf_step_in_order:
  assumes ok: "fair_ok db key (fair_queue_key key) s"
    and clash: "fair_queue_key (keyof i) \<noteq> key" "keyof i \<noteq> fair_queue_key key"
    and e: "e = (d, i, net, ts, oper)"
  shows "in_order key s (served (rf_step exec fmt elapse keyof) keyof key [e] (vals, s)) (queued keyof key [e])
    (snd (snd (rf_step exec fmt elapse keyof e (vals, s))))"
proof -
  let ?s = "elapse d s" and ?qk = "fair_queue_key key"
  let ?sc = "rf_script exec fmt (keyof i) (vals i) oper"
  let ?new = "case oper of TryLockF opts uv \<Rightarrow> if keyof i = key then [Value (ApplyLockOptions opts uv)] else [] | _ \<Rightarrow> []"
  have ok': "fair_ok db key ?qk ?s" by (rule fair_ok_elapse [OF ok])
  have new: "queued keyof key [e] = ?new" by (simp add: e split: rf_op.split)
  have earlier: "in_order key s gone more t" if "in_order key ?s gone more t" for gone more t
    using that subseq_order.trans [OF _ list_emb_append_mono [OF wait_elapse_subseq subseq_order.refl]]
    by (auto simp: in_order_def)
  have more: "in_order key u [] more t" if "in_order key u [] [] t" for u more t
    using that subseq_order.trans by (fastforce simp: in_order_def)
  have idle: "in_order key ?s [] more ?s" for more
    using ok' by (simp add: in_order_def prefix_imp_subseq)
  have state: "snd (snd (rf_step exec fmt elapse keyof e (vals, s))) = (case net of NotSent x \<Rightarrow> ?s | _ \<Rightarrow> snd (?sc ?s))"
    by (simp add: e rf_step_server client_eval_state)
  have moved: "in_order key ?s [] ?new (snd (?sc ?s))"
  proof (cases "keyof i = key")
    case True
    have "?new = (case oper of TryLockF opts uv \<Rightarrow> [Value (ApplyLockOptions opts uv)] | _ \<Rightarrow> [])"
      using True by (cases oper) auto
    with rf_script_in_order(1) [OF ok', where v = "vals i" and oper = oper] True show ?thesis by simp
  next
    case False
    then have "db (snd (?sc ?s)) key = db ?s key" "db (snd (?sc ?s)) ?qk = db ?s ?qk"
      using clash by (simp_all add: rf_script_frame fair_queue_key_inject)
    then have "in_order key ?s [] [] (snd (?sc ?s))" by (intro in_order_same [OF ok']) simp_all
    then show ?thesis by (rule more)
  qed
  show ?thesis
  proof (cases "served (rf_step exec fmt elapse keyof) keyof key [e] (vals, s) = []")
    case True
    with moved idle show ?thesis unfolding new state by (auto intro: earlier split: net.split)
  next
    case False
    then obtain ttl er where oper: "oper = AcquireF ttl" and k: "keyof i = key"
      and res: "fst (rf_step exec fmt elapse keyof e (vals, s)) = BoolRes True er"
      by (auto simp: e split: rf_op.splits op_result.splits bool.splits if_splits)
    then have s: "served (rf_step exec fmt elapse keyof) keyof key [e] (vals, s) = [vals i]" by (simp add: e)
    have "rf_granted keyof key e (fst (rf_step exec fmt elapse keyof e (vals, s)))" using res k by (simp add: e oper)
    note g = rf_granted_script(2) [OF this [unfolded e]]
    have net: "net = Delivered" using g by (cases net) (auto simp: client_eval_def as_int_def)
    have "\<not> no_grant (fst (?sc ?s))" using g no_grant_as_int [of ?sc ?s net] k by auto
    then have "fst (?sc ?s) = RInt 1"
      using acquire_granted [OF ok', of "vals i" ttl] by (simp add: oper k rf_script_def Let_def)
    from rf_script_in_order(2) [OF ok' oper, where v = "vals i"] this k
    have "in_order key ?s [vals i] [] (snd (?sc ?s))" by simp
    then show ?thesis unfolding s new state by (simp add: net oper earlier)
  qed
qed

lemma rf_run_in_order:
  assumes "fair_ok db key (fair_queue_key key) (snd st)"
    and "\<And>i. fair_queue_key (keyof i) \<noteq> key" and "\<And>i. keyof i \<noteq> fair_queue_key key"
  shows "in_order key (snd st) (served (rf_step exec fmt elapse keyof) keyof key evs st) (queued keyof key evs)
    (snd (snd (run (rf_step exec fmt elapse keyof) evs st)))"
  using assms(1)
proof (induction evs arbitrary: st)
  case Nil
  then show ?case by (simp add: in_order_def)
next
  case (Cons e evs)
  obtain vals s where st: "st = (vals, s)" by (cases st)
  obtain d i net ts oper where e: "e = (d, i, net, ts, oper)" by (cases e)
  let ?step = "rf_step exec fmt elapse keyof" and ?q = "wait (fair_queue_key key)"
  let ?st1 = "snd (?step e st)" and ?st2 = "snd (run ?step (e # evs) st)"
  have st2: "?st2 = snd (run ?step evs ?st1)" by (rule run_Cons_snd)
  define g1 n1 where "g1 = served ?step keyof key [e] st" and "n1 = queued keyof key [e]"
  define g2 n2 where "g2 = served ?step keyof key evs ?st1" and "n2 = queued keyof key evs"
  have one: "in_order key s g1 n1 (snd ?st1)"
    using rf_step_in_order [where s = s and vals = vals, OF _ assms(2,3) e] Cons.prems by (simp add: st g1_def n1_def)
  then have "in_order key (snd ?st1) g2 n2 (snd ?st2)"
    unfolding st2 g2_def n2_def by (intro Cons.IH) (simp add: in_order_def)
  then have two: "fair_ok db key (fair_queue_key key) (snd ?st2)" "subseq (g2 @ ?q (snd ?st2)) (?q (snd ?st1) @ n2)"
    by (simp_all add: in_order_def)
  have "subseq (g1 @ g2 @ ?q (snd ?st2)) (g1 @ ?q (snd ?st1) @ n2)"
    by (rule list_emb_append_mono [OF subseq_order.refl two(2)])
  also have "subseq \<dots> (?q s @ n1 @ n2)"
    using list_emb_append_mono [OF conjunct2 [OF one [unfolded in_order_def]] subseq_order.refl [of n2]] by simp
  finally have "subseq ((g1 @ g2) @ ?q (snd ?st2)) (?q s @ n1 @ n2)" by simp
  moreover have "served ?step keyof key (e # evs) st = g1 @ g2" "queued keyof key (e # evs) = n1 @ n2"
    by (simp_all add: g1_def g2_def n1_def n2_def e)
  ultimately show ?case using two(1) by (simp add: in_order_def st)
qed

end


section \<open>A queue whose head does not come back\<close>

text \<open>
  While the lock is free and \<open>w\<close> is first in the queue, that place is a lease too, until the queue
  expires: only a request of \<open>w\<close> itself, or a new \<open>TryLock\<close>, ends it.
\<close>

definition head_lease :: "('s \<Rightarrow> keyspace) \<Rightarrow> string \<Rightarrow> (nat \<Rightarrow> string) \<times> 's \<Rightarrow> (string \<times> int) option" where
  "head_lease db key st =
     (case (db (snd st) key, db (snd st) (fair_queue_key key)) of
        (None, Some (VList (w # q), Some E)) \<Rightarrow> Some (w, E - 1)
      | _ \<Rightarrow> None)"

fun head_yields ::
    "('s \<Rightarrow> keyspace) \<Rightarrow> (nat \<Rightarrow> string) \<Rightarrow> string \<Rightarrow> rf_op sent \<Rightarrow> (nat \<Rightarrow> string) \<times> 's \<Rightarrow> bool" where
  "head_yields db keyof key (d, i, net, ts, oper) (vals, s) =
     (keyof i = key \<and>
      (case oper of
         TryLockF opts uv \<Rightarrow> True
       | AcquireF ttl \<Rightarrow> vals i = hd (waiting db (fair_queue_key key) s)
       | CleanupF \<Rightarrow> vals i = hd (waiting db (fair_queue_key key) s)
       | _ \<Rightarrow> False))"

context redis_fair begin

lemma rf_script_blocked:
  assumes "db s key = None" and "db s (fair_queue_key key) = Some (VList (w # q), Some E)"
    and "\<And>opts uv. oper \<noteq> TryLockF opts uv"
    and "(\<exists>ttl. oper = AcquireF ttl) \<or> oper = CleanupF \<Longrightarrow> v \<noteq> w"
  shows "db (snd (rf_script exec fmt key v oper s)) key = None \<and>
    (\<exists>q'. db (snd (rf_script exec fmt key v oper s)) (fair_queue_key key) = Some (VList (w # q'), Some E)) \<and>
    ((\<exists>ttl. oper = AcquireF ttl) \<longrightarrow> no_grant (fst (rf_script exec fmt key v oper s)))"
proof -
  let ?qk = "fair_queue_key key"
  have ok: "fair_ok db key ?qk s" using assms(1,2) by (simp add: fair_ok_def)
  note parts = fair_ok_parts [OF ok]
  have wait: "wait ?qk s = w # q" "q_exp ?qk s = Some E" "fair_holder db key s = None"
    using assms(1,2) by (simp_all add: waiting_def queue_expiry_def fair_holder_def)
  show ?thesis
  proof (cases oper)
    case (AcquireF ttl)
    with assms(4) have "v \<noteq> w" by blast
    then have "no_grant (fst (FairLockAcquireScript exec [key, ?qk] [v, fmt ttl] s)) \<and>
        db (snd (FairLockAcquireScript exec [key, ?qk] [v, fmt ttl] s)) = db s"
      using acquire_script_fair [OF ok, of "fmt ttl" _ v] acquire_script_fair_bad [OF ok not_expiry_bad, of ttl v] wait
      by (cases "expiry (fmt ttl)") auto
    with assms(1,2) show ?thesis by (simp add: AcquireF rf_script_def Let_def)
  next
    case CleanupF
    with assms(4) have "v \<noteq> w" by blast
    with cleanup_script(2) [OF parts(4), of v] wait assms(1) show ?thesis
      by (simp add: CleanupF rf_script_def Let_def removed_def)
  next
    case UnlockF
    then show ?thesis using release_script_fair(2) [OF ok, of v] wait assms(1,2)
      by (simp add: rf_script_def Let_def)
  next
    case (ExtendF ttl)
    then show ?thesis using extend_script_fair(2) [OF parts(3) rf_ms_bounds, of v ttl] wait assms(1,2)
      by (simp add: rf_script_def Let_def)
  qed (use assms(1-3) status_script_fair(2) [OF parts(4)] in \<open>simp_all add: rf_script_def Let_def\<close>)
qed

end

context redis_fair_key begin

lemma head_lease_kept:
  assumes "head_lease db key st = Some (w, E)"
    and "now_ms (snd (snd (rf_step exec fmt elapse keyof e st))) \<le> E"
    and "\<not> head_yields db keyof key e st"
  shows "\<not> rf_granted keyof key e (fst (rf_step exec fmt elapse keyof e st)) \<and>
    (\<exists>E'\<ge>E. head_lease db key (snd (rf_step exec fmt elapse keyof e st)) = Some (w, E'))"
proof -
  let ?qk = "fair_queue_key key"
  obtain vals s where st: "st = (vals, s)" by (cases st)
  obtain d i net ts oper where e: "e = (d, i, net, ts, oper)" by (cases e)
  let ?s = "elapse d s" and ?sc = "rf_script exec fmt (keyof i) (vals i) oper"
  obtain q where key: "db s key = None" "db s ?qk = Some (VList (w # q), Some (E + 1))"
    using assms(1) by (auto simp: head_lease_def st split: option.splits rval.splits prod.splits list.splits)
  then have wait: "wait ?qk s = w # q" by (simp add: waiting_def)
  have live: "db ?s key = None" "db ?s ?qk = Some (VList (w # q), Some (E + 1))"
    using assms(2) key unfolding e st now_rf_step by (simp_all add: db_elapse)
  have here: "(\<forall>opts uv. oper \<noteq> TryLockF opts uv) \<and> ((\<exists>ttl. oper = AcquireF ttl) \<or> oper = CleanupF \<longrightarrow> vals i \<noteq> w)"
    if "keyof i = key"
    using assms(3) that wait by (auto simp: e st)
  have script: "db (snd (?sc ?s)) key = None \<and> (\<exists>q'. db (snd (?sc ?s)) ?qk = Some (VList (w # q'), Some (E + 1)))"
  proof (cases "keyof i = key")
    case True
    with rf_script_blocked [OF live, of oper "vals i"] here show ?thesis by blast
  next
    case False
    with live no_clash [of i] no_clash' [of i] show ?thesis
      by (simp add: rf_script_frame fair_queue_key_inject)
  qed
  have "\<not> rf_granted keyof key e (fst (rf_step exec fmt elapse keyof e st))"
  proof
    assume "rf_granted keyof key e (fst (rf_step exec fmt elapse keyof e st))"
    note g = rf_granted_script [OF this [unfolded e st]]
    with here have "no_grant (fst (rf_script exec fmt key (vals i) oper ?s))"
      using rf_script_blocked [OF live, of oper "vals i"] by blast
    with g(2) no_grant_as_int [of "rf_script exec fmt key (vals i) oper" ?s net] show False by blast
  qed
  moreover have "\<exists>q'. db (snd (snd (rf_step exec fmt elapse keyof e st))) key = None \<and>
      db (snd (snd (rf_step exec fmt elapse keyof e st))) ?qk = Some (VList (w # q'), Some (E + 1))"
    using db_client_eval [of net ?sc ?s] live script unfolding e st rf_step_server by auto
  ultimately show ?thesis by (auto simp: head_lease_def)
qed

end

sublocale redis_fair_key < queue_head: leased "rf_step exec fmt elapse keyof" "\<lambda>st. now_ms (snd st)"
    "head_lease db key" "rf_granted keyof key" "head_yields db keyof key"
proof unfold_locales
  fix st :: "(nat \<Rightarrow> string) \<times> 's" and e :: "rf_op sent"
  show "now_ms (snd st) \<le> now_ms (snd (snd (rf_step exec fmt elapse keyof e st)))"
    by (rule fair_lock.clock_mono)
qed (rule head_lease_kept)

text \<open>
  What takes \<open>w\<close> out of the queue of \<open>key\<close>: the queue expires before the event, or a client whose
  handle has \<open>w\<close> reaches the server and polls while the lock is free, or cleans up, or unlocks a lock
  that \<open>w\<close> holds. A poll that is refused because the lock is held, or lost, does not.
\<close>

fun drops ::
    "('s \<Rightarrow> keyspace) \<Rightarrow> (nat \<Rightarrow> 's \<Rightarrow> 's) \<Rightarrow> (nat \<Rightarrow> string) \<Rightarrow> string \<Rightarrow> string \<Rightarrow> rf_op sent
       \<Rightarrow> (nat \<Rightarrow> string) \<times> 's \<Rightarrow> bool" where
  "drops db elapse keyof key w (d, j, net, ts, oper) (vals, s) =
     (db (elapse d s) (fair_queue_key key) = None \<or>
      keyof j = key \<and> vals j = w \<and> (case net of NotSent m \<Rightarrow> False | _ \<Rightarrow> True) \<and>
      (case oper of
         AcquireF ttl \<Rightarrow> db (elapse d s) key = None
       | CleanupF \<Rightarrow> True
       | UnlockF \<Rightarrow> fair_holder db key (elapse d s) = Some w
       | _ \<Rightarrow> False))"

context redis_fair begin

lemma rf_script_stays:
  assumes ok: "fair_ok db key (fair_queue_key key) s" and w: "w \<in> set (wait (fair_queue_key key) s)"
    and "v = w \<Longrightarrow> (case oper of AcquireF ttl \<Rightarrow> db s key \<noteq> None | CleanupF \<Rightarrow> False
      | UnlockF \<Rightarrow> fair_holder db key s \<noteq> Some w | _ \<Rightarrow> True)"
  shows "w \<in> set (wait (fair_queue_key key) (snd (rf_script exec fmt key v oper s)))"
proof -
  let ?qk = "fair_queue_key key" and ?s' = "snd (rf_script exec fmt key v oper s)"
  note parts = fair_ok_parts [OF ok]
  have same: ?thesis if "db ?s' ?qk = db s ?qk" using that w by (simp add: waiting_def)
  have removed: ?thesis if "v \<noteq> w" "db ?s' ?qk = removed v ?qk s"
  proof -
    have "w \<in> set (removeAll v (wait ?qk s))" using that(1) w by simp
    moreover have "wait ?qk ?s' = removeAll v (wait ?qk s)"
      unfolding waiting_def [of _ _ ?s'] that(2) by (simp add: removed_def)
    ultimately show ?thesis by simp
  qed
  show ?thesis
  proof (cases oper)
    case (TryLockF opts uv)
    let ?c = "ApplyLockOptions opts uv"
    let ?t = "FairLockTryAcquireScript exec [key, ?qk] [Value ?c, fmt (rf_lockTTL ?c), fmt (rf_queueTTL ?c)] s"
    have t: "?s' = snd ?t" by (simp add: TryLockF rf_script_def Let_def)
    show ?thesis
    proof (cases "db s key")
      case None
      then have "db (snd ?t) ?qk = db s ?qk"
        using try_acquire_free(2) [OF None, of "fmt (rf_lockTTL ?c)" _ ?qk "Value ?c" "fmt (rf_queueTTL ?c)"]
          try_acquire_free_bad(2) [OF None not_expiry_bad, of "rf_lockTTL ?c" ?qk "Value ?c" "fmt (rf_queueTTL ?c)"]
        by (cases "expiry (fmt (rf_lockTTL ?c))") simp_all
      with same t show ?thesis by simp
    next
      case (Some y)
      have "db (snd ?t) = (db s)(?qk := pushed (Value ?c) ?qk s (fmt (rf_queueTTL ?c)))"
        using Some by (intro pushes [OF ok]) simp
      with w show ?thesis
        using pushed_queue [of "Value ?c" ?qk s ?c] by (auto simp: t waiting_def [of _ _ "snd ?t"])
    qed
  next
    case (AcquireF ttl)
    show ?thesis
    proof (cases "expiry (fmt ttl)")
      case (Some n)
      from acquire_script_fair(2) [OF ok Some, of v] have
        "db ?s' = (if wait ?qk s \<noteq> [] \<and> hd (wait ?qk s) = v \<and> db s key = None
          then (db s)(key \<mapsto> (VStr v, Some (now_ms s + 1000 * n)),
            ?qk := if tl (wait ?qk s) = [] then None else Some (VList (tl (wait ?qk s)), q_exp ?qk s)) else db s)"
        by (simp add: AcquireF rf_script_def Let_def)
      note d = this
      show ?thesis
      proof (cases "wait ?qk s \<noteq> [] \<and> hd (wait ?qk s) = v \<and> db s key = None")
        case True
        with assms(3) have "v \<noteq> w" by (auto simp: AcquireF)
        with True w have "w \<in> set (tl (wait ?qk s))" by (cases "wait ?qk s") auto
        moreover have "db ?s' ?qk = (if tl (wait ?qk s) = [] then None else Some (VList (tl (wait ?qk s)), q_exp ?qk s))"
          unfolding d using True by simp
        then have "wait ?qk ?s' = tl (wait ?qk s)" by (simp add: waiting_def [of _ _ ?s'])
        ultimately show ?thesis by simp
      next
        case False
        with d have "db ?s' = db s" by (simp only: if_False)
        then show ?thesis by (simp add: same)
      qed
    next
      case None
      from acquire_script_fair_bad(2) [OF ok not_expiry_bad [OF None], of v] show ?thesis
        by (intro same) (simp add: AcquireF rf_script_def Let_def)
    qed
  next
    case CleanupF
    with assms(3) have "v \<noteq> w" by auto
    with cleanup_script(2) [OF parts(4), of v] show ?thesis
      by (intro removed) (simp_all add: CleanupF rf_script_def Let_def)
  next
    case UnlockF
    show ?thesis
    proof (cases "fair_holder db key s = Some v")
      case True
      with assms(3) UnlockF have "v \<noteq> w" by auto
      with release_script_fair(2) [OF ok, of v] True show ?thesis
        by (intro removed) (simp_all add: UnlockF rf_script_def Let_def)
    next
      case False
      with release_script_fair(2) [OF ok, of v] show ?thesis
        by (intro same) (simp add: UnlockF rf_script_def Let_def)
    qed
  next
    case (ExtendF ttl)
    with extend_script_fair(2) [OF parts(3) rf_ms_bounds, of v ttl] show ?thesis
      by (intro same) (simp add: rf_script_def Let_def)
  qed (use same status_script_fair(2) [OF parts(4)] in \<open>simp_all add: rf_script_def Let_def\<close>)
qed

end

context redis_fair_key begin

lemma stays_step:
  assumes ok: "fair_ok db key (fair_queue_key key) (snd st)" and w: "w \<in> set (wait (fair_queue_key key) (snd st))"
    and "\<not> drops db elapse keyof key w e st"
  shows "fair_ok db key (fair_queue_key key) (snd (snd (rf_step exec fmt elapse keyof e st))) \<and>
    w \<in> set (wait (fair_queue_key key) (snd (snd (rf_step exec fmt elapse keyof e st))))"
proof -
  let ?qk = "fair_queue_key key"
  obtain vals s where st: "st = (vals, s)" by (cases st)
  obtain d i net ts oper where e: "e = (d, i, net, ts, oper)" by (cases e)
  let ?s = "elapse d s" and ?sc = "rf_script exec fmt (keyof i) (vals i) oper"
  have ok': "fair_ok db key ?qk ?s" using ok by (simp add: st fair_ok_elapse)
  have "db ?s ?qk \<noteq> None" using assms(3) by (simp add: e st)
  then have w': "w \<in> set (wait ?qk ?s)"
    using w by (auto simp: st waiting_def db_elapse split: option.splits rval.splits if_splits)
  have "w \<in> set (wait ?qk (snd (?sc ?s)))" if net: "case net of NotSent m \<Rightarrow> False | _ \<Rightarrow> True"
  proof (cases "keyof i = key")
    case True
    have "vals i = w \<Longrightarrow> (case oper of AcquireF ttl \<Rightarrow> db ?s key \<noteq> None | CleanupF \<Rightarrow> False
      | UnlockF \<Rightarrow> fair_holder db key ?s \<noteq> Some w | _ \<Rightarrow> True)"
      using assms(3) net True by (cases oper) (auto simp: e st)
    with rf_script_stays [OF ok' w', of "vals i" oper] True show ?thesis by simp
  next
    case False
    with no_clash [of i] no_clash' [of i] have "db (snd (?sc ?s)) ?qk = db ?s ?qk"
      by (simp add: rf_script_frame fair_queue_key_inject)
    with w' show ?thesis by (simp add: waiting_def)
  qed
  then have "w \<in> set (wait ?qk (snd (snd (rf_step exec fmt elapse keyof e st))))"
    using w' by (auto simp: e st rf_step_server client_eval_state split: net.split)
  moreover have "fair_ok db key ?qk (snd (snd (rf_step exec fmt elapse keyof e st)))"
    using rf_step_in_order [where s = s and vals = vals, OF _ no_clash no_clash' e] ok
    by (simp add: st in_order_def)
  ultimately show ?thesis by blast
qed

lemma stays_run:
  assumes "fair_ok db key (fair_queue_key key) (snd st)" and "w \<in> set (wait (fair_queue_key key) (snd st))"
    and "along (\<lambda>ev st. \<not> drops db elapse keyof key w ev st) (rf_step exec fmt elapse keyof) evs st"
  shows "fair_ok db key (fair_queue_key key) (snd (snd (run (rf_step exec fmt elapse keyof) evs st))) \<and>
    w \<in> set (wait (fair_queue_key key) (snd (snd (run (rf_step exec fmt elapse keyof) evs st))))"
  using assms
proof (induction evs arbitrary: st)
  case (Cons e evs)
  then have "\<not> drops db elapse keyof key w e st"
    "along (\<lambda>ev st. \<not> drops db elapse keyof key w ev st) (rf_step exec fmt elapse keyof) evs (snd (rf_step exec fmt elapse keyof e st))"
    by simp_all
  with stays_step [OF Cons.prems(1,2)] Cons.IH show ?case by (simp add: run_Cons_snd del: run.simps(2))
qed simp

text \<open>A request to lock that reaches the server while the lock is held is refused or fails, and is queued.\<close>

lemma refused_queued:
  assumes ok: "fair_ok db (keyof i) (fair_queue_key (keyof i)) (snd st)"
    and held: "db (elapse d (snd st)) (keyof i) \<noteq> None" and c: "c = ApplyLockOptions opts uv"
    and net: "net = Delivered \<or> net = ReplyLost m"
    and step: "rf_step exec fmt elapse keyof (d, i, net, ts, TryLockF opts uv) st = (r, st1)"
  shows "\<exists>er. r = BoolRes False er \<and> (net = Delivered \<and> whole (rf_queueTTL c) \<longrightarrow> er = None) \<and>
      (net = ReplyLost m \<longrightarrow> er = Some (WrapNetworkError (Some (PlainErr m)) ''try_acquire_fair_lock'' ts))"
    and "wait (fair_queue_key (keyof i)) (snd st1) = wait (fair_queue_key (keyof i)) (elapse d (snd st)) @ [Value c]"
    and "fair_ok db (keyof i) (fair_queue_key (keyof i)) (snd st1)"
proof -
  obtain vals s where st: "st = (vals, s)" by (cases st)
  let ?k = "keyof i" and ?qk = "fair_queue_key (keyof i)" and ?s = "elapse d s"
  let ?sc = "FairLockTryAcquireScript exec [?k, ?qk] [Value c, fmt (rf_lockTTL c), fmt (rf_queueTTL c)]"
  have ok': "fair_ok db ?k ?qk ?s" using ok by (simp add: st fair_ok_elapse)
  have held': "db ?s ?k \<noteq> None" using held by (simp add: st)
  have db: "db (snd (?sc ?s)) = (db ?s)(?qk := pushed (Value c) ?qk ?s (fmt (rf_queueTTL c)))"
    by (rule pushes [OF ok' held'])
  have st1: "snd st1 = snd (?sc ?s)"
    using rf_step_server [of exec fmt elapse keyof d i net ts "TryLockF opts uv" vals s] step net
    by (auto simp: st c rf_script_def Let_def client_eval_state)
  have no: "no_grant (fst (?sc ?s))"
    using held' keepsD [OF held_refused(1) [of ?k ?qk]] by (auto simp: Let_def)
  have whole: "fst (?sc ?s) = RInt (- 1)" if "whole (rf_queueTTL c)"
    using try_acquire_held(1) [OF ok' held'] whole_expiry [OF that] by blast
  have r: "r = (case as_int (fst (client_eval net ?sc ?s)) of
      Inl e \<Rightarrow> BoolRes False (Some (WrapNetworkError (Some e) ''try_acquire_fair_lock'' ts))
    | Inr n \<Rightarrow> BoolRes (n = 1) None)"
    using step by (auto simp: st c rf_step.simps Let_def RF_TryLock_def split: prod.splits sum.splits)
  show "\<exists>er. r = BoolRes False er \<and> (net = Delivered \<and> whole (rf_queueTTL c) \<longrightarrow> er = None) \<and>
      (net = ReplyLost m \<longrightarrow> er = Some (WrapNetworkError (Some (PlainErr m)) ''try_acquire_fair_lock'' ts))"
  proof (cases "net = Delivered")
    case True
    have "as_int (fst (client_eval net ?sc ?s)) \<noteq> Inr 1" using no_grant_as_int [of ?sc ?s net] no by blast
    moreover have "as_int (fst (client_eval net ?sc ?s)) = Inr (- 1)" if "whole (rf_queueTTL c)"
      using whole [OF that] True by (simp add: client_eval_Delivered as_int_def)
    ultimately show ?thesis using r True by (auto split: sum.splits)
  next
    case False
    with net r show ?thesis by (simp add: client_eval_def as_int_def)
  qed
  show "wait ?qk (snd st1) = wait ?qk (elapse d (snd st)) @ [Value c]"
    using pushed_queue [of "Value c" ?qk ?s c] by (auto simp: st1 db st waiting_def [of _ _ "snd (?sc ?s)"])
  show "fair_ok db ?k ?qk (snd st1)"
    using pushed_queue [of "Value c" ?qk ?s c] fair_ok_upd(4) [OF ok'] by (auto simp: st1 db)
qed

end

section \<open>The blocking \<open>Lock\<close> returns\<close>

lemma rf_wait_returns:
  assumes rt: "go_runtime rt clk"
    and send: "\<And>w. clk w \<le> clk (snd (send w))" and put: "\<And>x w. clk w \<le> clk (put x w)"
  shows "\<exists>r. rf_wait rt exec fmt send get put acquireTimeout lockTTL deadline w = Some r"
proof (induction "nat (deadline + 50000000 - clk w)" arbitrary: w rule: less_induct)
  case less
  let ?script = "\<lambda>l. FairLockAcquireScript exec [rf_key l, rf_queueKey l] [rf_value l, fmt lockTTL]"
  obtain x w1 where e: "rf_eval send get put ?script w = (x, w1)" by (cases "rf_eval send get put ?script w")
  obtain t w2 where n: "rt_now rt w1 = (t, w2)" by (cases "rt_now rt w1")
  obtain y where "w1 = put y (snd (send w))"
    using e by (auto simp: rf_eval_def case_prod_beta)
  then have w1: "clk w \<le> clk w1" using send [of w] put [of "snd (send w)" y] by simp
  have t: "clk w1 \<le> t" "t \<le> clk w2"
    using go_runtime.now_lower [OF rt, of w1] go_runtime.now_upper [OF rt, of w1] n by simp_all
  have "sint (50 * Millisecond) = 50000000" by (simp add: Millisecond_def)
  then have sleep: "clk w2 + 50000000 \<le> clk (rt_sleep rt (50 * Millisecond) w2)"
    using go_runtime.sleep_pauses [OF rt, of w2 "50 * Millisecond"] by simp
  have "\<exists>r. rf_wait rt exec fmt send get put acquireTimeout lockTTL deadline (rt_sleep rt (50 * Millisecond) w2) = Some r"
    if "\<not> time_after t deadline"
    using that w1 t sleep by (intro less) (auto simp: time_after_def)
  with e n show ?case
    by (subst rf_wait.simps) (auto split: sum.split prod.split)
qed

text \<open>
  How the waiting loop ends: its last request failed, and its error is returned; or that request was
  granted; or it was refused after the deadline, the value was taken out of the queue and a timeout
  is returned.
\<close>

definition rf_wait_ends ::
    "'w go_rt \<Rightarrow> 's server \<Rightarrow> (duration \<Rightarrow> string) \<Rightarrow> ('w \<Rightarrow> net \<times> 'w) \<Rightarrow> ('w \<Rightarrow> redisFairLock \<times> 's)
       \<Rightarrow> (redisFairLock \<times> 's \<Rightarrow> 'w \<Rightarrow> 'w) \<Rightarrow> duration \<Rightarrow> duration \<Rightarrow> gotime \<Rightarrow> err option \<times> 'w \<Rightarrow> bool" where
  "rf_wait_ends rt exec fmt send get put acquireTimeout lockTTL deadline out \<longleftrightarrow>
     (\<exists>w1 x w2. rf_eval send get put (\<lambda>l. FairLockAcquireScript exec [rf_key l, rf_queueKey l] [rf_value l, fmt lockTTL]) w1 = (x, w2) \<and>
        (case as_int x of
           Inl e \<Rightarrow> \<exists>ts w3. rt_now rt w2 = (ts, w3) \<and>
             out = (Some (WrapNetworkError (Some e) ''fair_lock_acquire_attempt'' ts), w3)
         | Inr n \<Rightarrow>
             if n = 1 then out = (None, w2)
             else \<exists>t w3 c w4 ts w5. rt_now rt w2 = (t, w3) \<and> deadline < t \<and>
               rf_eval send get put (\<lambda>l. FairLockCleanupScript exec [rf_queueKey l] [rf_value l]) w3 = (c, w4) \<and>
               rt_now rt w4 = (ts, w5) \<and>
               out = (Some (NewAcquireTimeoutError (rf_key (fst (get w5))) acquireTimeout ts), w5)))"

lemma rf_wait_outcome:
  assumes "rf_wait rt exec fmt send get put acquireTimeout lockTTL deadline w = Some out"
  shows "rf_wait_ends rt exec fmt send get put acquireTimeout lockTTL deadline out"
proof (rule rf_wait.raw_induct
    [where P = "\<lambda>rt exec fmt send get put acquireTimeout lockTTL deadline w out.
        rf_wait_ends rt exec fmt send get put acquireTimeout lockTTL deadline out", OF _ assms])
  fix f and rt :: "'w go_rt" and exec :: "'s server" and fmt send get put acquireTimeout lockTTL deadline w out
  assume IH: "\<And>rt exec fmt send get put acquireTimeout lockTTL deadline w out.
      f rt exec fmt send get put acquireTimeout lockTTL deadline w = Some out \<Longrightarrow>
      rf_wait_ends rt exec fmt send get put acquireTimeout lockTTL deadline out"
    and step: "(case rf_eval send get put (\<lambda>l. FairLockAcquireScript exec [rf_key l, rf_queueKey l] [rf_value l, fmt lockTTL]) w of
        (x, w1) \<Rightarrow>
          (case as_int x of
             Inl e \<Rightarrow> (case rt_now rt w1 of (ts, w2) \<Rightarrow>
                         Some (Some (WrapNetworkError (Some e) ''fair_lock_acquire_attempt'' ts), w2))
           | Inr result \<Rightarrow>
               if result = 1 then Some (None, w1)
               else (case rt_now rt w1 of (t, w2) \<Rightarrow>
                  if time_after t deadline then
                    (case rf_eval send get put (\<lambda>l. FairLockCleanupScript exec [rf_queueKey l] [rf_value l]) w2 of
                       (_, w3) \<Rightarrow> (case rt_now rt w3 of (ts, w4) \<Rightarrow>
                          Some (Some (NewAcquireTimeoutError (rf_key (fst (get w4))) acquireTimeout ts), w4)))
                  else f rt exec fmt send get put acquireTimeout lockTTL deadline
                         (rt_sleep rt (50 * Millisecond) w2)))) = Some out"
  obtain x w1 where e: "rf_eval send get put (\<lambda>l. FairLockAcquireScript exec [rf_key l, rf_queueKey l] [rf_value l, fmt lockTTL]) w = (x, w1)" by (rule prod.exhaust)
  obtain t w2 where n: "rt_now rt w1 = (t, w2)" by (rule prod.exhaust)
  obtain c w3 where cl: "rf_eval send get put (\<lambda>l. FairLockCleanupScript exec [rf_queueKey l] [rf_value l]) w2 = (c, w3)" by (rule prod.exhaust)
  obtain ts w4 where n': "rt_now rt w3 = (ts, w4)" by (rule prod.exhaust)
  show "rf_wait_ends rt exec fmt send get put acquireTimeout lockTTL deadline out"
  proof (cases "as_int x")
    case (Inl er)
    with step e n have "out = (Some (WrapNetworkError (Some er) ''fair_lock_acquire_attempt'' t), w2)" by simp
    with e n Inl show ?thesis
      unfolding rf_wait_ends_def by (intro exI [of _ w] exI [of _ x] exI [of _ w1]) simp
  next
    case (Inr r)
    show ?thesis
    proof (cases "r = 1")
      case True
      with step e Inr have "out = (None, w1)" by simp
      with e Inr True show ?thesis
        unfolding rf_wait_ends_def by (intro exI [of _ w] exI [of _ x] exI [of _ w1]) simp
    next
      case False
      show ?thesis
      proof (cases "time_after t deadline")
        case True
        with step e n cl n' Inr False
        have "out = (Some (NewAcquireTimeoutError (rf_key (fst (get w4))) acquireTimeout ts), w4)" by simp
        then have "\<exists>t w3 c w4 ts w5. rt_now rt w1 = (t, w3) \<and> deadline < t \<and>
            rf_eval send get put (\<lambda>l. FairLockCleanupScript exec [rf_queueKey l] [rf_value l]) w3 = (c, w4) \<and>
            rt_now rt w4 = (ts, w5) \<and>
            out = (Some (NewAcquireTimeoutError (rf_key (fst (get w5))) acquireTimeout ts), w5)"
          using n cl n' True by (intro exI conjI) (assumption | simp add: time_after_def)+
        with e Inr False show ?thesis
          unfolding rf_wait_ends_def by (intro exI [of _ w] exI [of _ x] exI [of _ w1]) (simp only: sum.case if_False simp_thms)
      next
        case late: False
        with step e n Inr False have "f rt exec fmt send get put acquireTimeout lockTTL deadline
            (rt_sleep rt (50 * Millisecond) w2) = Some out" by simp
        then show ?thesis by (rule IH)
      qed
    qed
  qed
qed

lemma rf_Lock_total:
  assumes rt: "go_runtime rt clk"
    and "\<And>w. clk w \<le> clk (snd (send w))" and "\<And>x w. clk w \<le> clk (put x w)"
  shows "\<exists>r. RF_Lock rt exec fmt send get put opts w = Some r"
  using rf_wait_returns [where clk = clk and send = send and put = put and rt = rt, OF assms]
  by (auto simp: RF_Lock_def Let_def RetryWithCustomLogic_def split: prod.split sum.split)


context redis_fair begin

lemma index_of_new: "v \<notin> set q \<Longrightarrow> ipairs_find i v (map RStr (q @ [v])) = i + int (length q)"
  by (induction q arbitrary: i) auto

lemma refused_position:
  assumes "fair_ok db (rf_key l) (rf_queueKey l) s" and "db s (rf_key l) \<noteq> None"
    and "whole (rf_queueTTL (ApplyLockOptions opts uv))"
    and "Value (ApplyLockOptions opts uv) \<notin> set (wait (rf_queueKey l) s)"
    and "RF_TryLock exec fmt Delivered opts uv ts l s = (r, l', s1)"
  shows "r = (False, None) \<and> fst (RF_GetQueuePosition exec Delivered ts' l' s1) = (int (length (wait (rf_queueKey l) s)), None) \<and>
    fst (RF_GetQueueLength exec Delivered ts' l' s1) = (int (length (wait (rf_queueKey l) s)) + 1, None)"
proof -
  let ?c = "ApplyLockOptions opts uv"
  let ?sc = "FairLockTryAcquireScript exec [rf_key l, rf_queueKey l] [Value ?c, fmt (rf_lockTTL ?c), fmt (rf_queueTTL ?c)]"
  obtain m where m: "expiry (fmt (rf_queueTTL ?c)) = Some m" using whole_expiry assms(3) by blast
  then have m': "parse_int (fmt (rf_queueTTL ?c)) = Some m" "0 < m"
    by (auto simp: expiry_def split: option.splits if_splits)
  note held = try_acquire_held [OF assms(1,2) m, of "Value ?c" "fmt (rf_lockTTL ?c)"]
  have r: "r = (False, None)" "l' = l\<lparr>rf_value := Value ?c\<rparr>" "s1 = snd (?sc s)"
    using assms(5) held(1) by (simp_all add: RF_TryLock_def Let_def client_eval_Delivered as_int_def)
  have q: "queue_ok (rf_queueKey l) s1" "wait (rf_queueKey l) s1 = wait (rf_queueKey l) s @ [Value ?c]"
    using held(2) m' by (simp_all add: r(3) pushed_def queue_ok_def waiting_def)
  show ?thesis
    using r(1) q(2) index_of_new [OF assms(4), of 0]
    by (simp add: RF_GetQueuePosition_def RF_GetQueueLength_def r(2) client_eval_Delivered as_slice_def
        status_script_fair(1) [OF q(1)] position_def)
qed

end

context redis_fair_key begin

lemma head_excludes:
  assumes "db (snd st) key = None"
    and "db (snd st) (fair_queue_key key) = Some (VList (w # q), Some E)"
    and "along (\<lambda>ev st. \<not> head_yields db keyof key ev st) (rf_step exec fmt elapse keyof) evs st"
    and "run (rf_step exec fmt elapse keyof) evs st = (rs, st')" and "now_ms (snd st') < E"
  shows "(\<forall>(ev, r) \<in> set (zip evs rs). \<not> rf_granted keyof key ev r) \<and>
    (\<exists>E. head_lease db key st' = Some (w, E))"
proof -
  have "head_lease db key st = Some (w, E - 1)" using assms(1,2) by (simp add: head_lease_def)
  from queue_head.exclusion [OF this assms(3)] assms(4,5) show ?thesis by auto
qed

end

section \<open>Properties\<close>

text \<open>
  C6: exclusion of the distributed fair lock. Once \<open>TryLock\<close> (or the first request of \<open>Lock\<close>)
  has been granted \<open>key\<close> with TTL \<open>d\<close>, nobody else is granted it before \<open>d\<close> has passed, through
  the queue or past it, along every run of any number of clients with any delays and losses,
  unless a client whose handle has the holder's value unlocks or shortens the lease. The one
  condition on keys is that no client's key is the queue of \<open>key\<close> or the other way round.
\<close>
theorem redis_fair_lease_excludes:
  assumes "redis_fair_key exec db now_ms elapse fmt keyof key" and "keyof i = key"
    and "rf_step exec fmt elapse keyof (d, i, net, ts, TryLockF opts uv) st = (BoolRes True e, st1)"
    and "along (\<lambda>ev st. \<not> rf_yields db now_ms keyof key ev st) (rf_step exec fmt elapse keyof) evs st1"
    and "run (rf_step exec fmt elapse keyof) evs st1 = (rs, st2)"
    and "now_ms (snd st2) < now_ms (snd st1) + sint (rf_lockTTL (ApplyLockOptions opts uv)) div 1000000"
  shows "(\<forall>(ev, r) \<in> set (zip evs rs). \<not> rf_granted keyof key ev r) \<and>
    (\<exists>E. rs_lease db key st2 = Some (Value (ApplyLockOptions opts uv), E))"
  by (rule redis_fair_key.rf_grant_then_exclusion [OF assms])

lemma default_fair_ttls [simp]:
  "rf_lockTTL (ApplyLockOptions [] uv) = 30 * Second" "rf_queueTTL (ApplyLockOptions [] uv) = 5 * Minute"
  by (simp_all add: rf_lockTTL_def rf_queueTTL_def ApplyLockOptions_def default_config_def DefaultLockTTL_def DefaultQueueTTL_def dur_defs)

lemma whole_defaults [simp]: "whole (30 * Second)" "whole (5 * Minute)"
  by (simp_all add: whole_def dur_defs)

theorem redis_fair_lease_excludes_witness:
  "\<exists>st1 E. rf_step ref_exec ref_fmt ref_elapse (\<lambda>_. ''k'') (0, 1, Delivered, 0, TryLockF [] ''a'')
       (\<lambda>_. '''', ref_empty) = (BoolRes True None, st1) \<and>
     rs_lease ref_db ''k'' (snd (run (rf_step ref_exec ref_fmt ref_elapse (\<lambda>_. ''k''))
       [(5, 2, Delivered, 0, TryLockF [] ''b''), (9, 2, ReplyLost ''eof'', 0, CleanupF)] st1)) = Some (''a'', E)"
proof -
  let ?step = "rf_step ref_exec ref_fmt ref_elapse (\<lambda>_. ''k'')"
  let ?e = "(0, 1, Delivered, 0, TryLockF [] ''a'') :: rf_op sent"
  let ?evs = "[(5, 2, Delivered, 0, TryLockF [] ''b''), (9, 2, ReplyLost ''eof'', 0, CleanupF)] :: rf_op sent list"
  let ?s = "ref_elapse 0 ref_empty"
  have el: "ref_db ?s = Map.empty" by (simp add: ref_db_elapse live_def fun_eq_iff)
  then have ok: "fair_ok ref_db ''k'' (fair_queue_key ''k'') ?s" by (simp add: fair_ok_def)
  obtain st1 where st1: "?step ?e (\<lambda>_. '''', ref_empty) = (BoolRes True None, st1)"
    using ref_fair.refines_result [where keyof = "\<lambda>_. ''k''" and i = 1 and oper = "TryLockF [] ''a''" and vals = "\<lambda>_. ''''"
        and s = ref_empty and d = 0 and ts = 0] ok el
    by (cases "?step ?e (\<lambda>_. '''', ref_empty)") (auto simp: fair_view_def Let_def default_value)
  have n1: "rs_now (snd st1) = 0"
    using ref_fair.now_rf_step [of "\<lambda>_. ''k''" 0 1 Delivered 0 "TryLockF [] ''a''" "(\<lambda>_. '''', ref_empty)"] st1
    by simp
  have n2: "rs_now (snd (snd (run ?step ?evs st1))) = 14"
    by (simp add: run_Cons_snd ref_fair.now_rf_step n1 del: run.simps(2))
  have "along (\<lambda>ev st. \<not> rf_yields ref_db rs_now (\<lambda>_. ''k'') ''k'' ev st) ?step ?evs st1"
    by simp
  moreover have "rs_now (snd (snd (run ?step ?evs st1))) <
      rs_now (snd st1) + sint (rf_lockTTL (ApplyLockOptions [] ''a'')) div 1000000"
    unfolding n2 by (simp add: n1 dur_defs)
  ultimately show ?thesis
    using redis_fair_lease_excludes [OF ref_fair_key.redis_fair_key_axioms refl st1 _ surjective_pairing] st1
    unfolding default_value by blast
qed

text \<open>
  C8: refinement. On keys that hold what the fair lock puts there, with whole-second TTLs and no
  lost message, every operation implements the abstract lock with a queue: its answer - granted or
  refused, the error, the remaining time, the position, the length and the contents of the queue -
  and what it makes of the holder, of the time left to the holder, of the queue and of the value in
  the caller's handle are what \<open>fair_spec\<close> says for the state at the time of the request (time may
  have removed an expired holder or queue before); and the keys stay well-formed.
\<close>
theorem redis_fair_refines:
  assumes "redis_fair exec db now_ms elapse fmt" and "keyof i = key"
    and "fair_ok db key (fair_queue_key key) s" and "whole_op oper"
    and "rf_step exec fmt elapse keyof (d, i, Delivered, ts, oper) (vals, s) = (r, vals', s')"
    and "fair_spec key ts (vals i) oper (fair_view db now_ms key (elapse d s)) = (res, view)"
  shows "r = res \<and> fair_view db now_ms key s' = view \<and> fair_ok db key (fair_queue_key key) s' \<and>
    vals' = new_vals i oper vals"
  using redis_fair.rf_step_refines [OF assms(1) _ assms(4,5)] assms(2,3,6) by blast

theorem redis_fair_refines_witness:
  "fair_view ref_db rs_now ''k'' (snd (snd (rf_step ref_exec ref_fmt ref_elapse (\<lambda>_. ''k'') (0, 1, Delivered, 0, TryLockF [] ''b'')
     (\<lambda>_. '''', ref_single ''k'' (VStr ''a''))))) = (Some (''a'', Some 60000), [''b''])"
proof -
  let ?s = "ref_single ''k'' (VStr ''a'')"
  let ?r = "rf_step ref_exec ref_fmt ref_elapse (\<lambda>_. ''k'') (0, 1, Delivered, 0, TryLockF [] ''b'') (\<lambda>_. '''', ?s)"
  have ok: "fair_ok ref_db ''k'' (fair_queue_key ''k'') ?s" by (simp add: fair_ok_def)
  have "fair_view ref_db rs_now ''k'' (ref_elapse 0 ?s) = (Some (''a'', Some 60000), [])"
    by (simp add: fair_view_def waiting_def ref_db_elapse live_def)
  then have "fair_spec ''k'' 0 ((\<lambda>_. '''') 1) (TryLockF [] ''b'') (fair_view ref_db rs_now ''k'' (ref_elapse 0 ?s)) =
      (BoolRes False None, Some (''a'', Some 60000), [''b''])"
    by (simp add: default_value)
  from redis_fair_refines [where keyof = "\<lambda>_. ''k''" and i = 1 and vals = "\<lambda>_. ''''" and s = ?s and d = 0 and ts = 0
      and oper = "TryLockF [] ''b''" and r = "fst ?r" and vals' = "fst (snd ?r)" and s' = "snd (snd ?r)",
      OF ref_fair.redis_fair_axioms refl ok _ _ this]
  show ?thesis by simp
qed

text \<open>
  C9: first in, first out. Along every run, with any number of clients, any TTLs, delays and lost
  messages: the values granted through the queue, in the order of the grants, followed by those
  that still wait, are a subsequence of the values that waited at the beginning followed by those
  that asked since, in the order in which they asked. No waiter is granted before one that
  stands ahead of it.
\<close>
theorem redis_fair_queue_fifo:
  assumes "redis_fair_key exec db now_ms elapse fmt keyof key"
    and "fair_ok db key (fair_queue_key key) (snd st)"
    and "run (rf_step exec fmt elapse keyof) evs st = (rs, st')"
  shows "subseq (served (rf_step exec fmt elapse keyof) keyof key evs st @ waiting db (fair_queue_key key) (snd st'))
    (waiting db (fair_queue_key key) (snd st) @ queued keyof key evs)"
proof -
  note fair = redis_fair_key.axioms(1) [OF assms(1)]
    and clash = redis_fair_key.no_clash [OF assms(1)] redis_fair_key.no_clash' [OF assms(1)]
  have "snd (run (rf_step exec fmt elapse keyof) evs st) = st'" using assms(3) by simp
  with redis_fair.rf_run_in_order [where evs = evs and keyof = keyof, OF fair assms(2) clash] show ?thesis
    by (simp add: redis_fair.in_order_def [OF fair])
qed

theorem redis_fair_queue_fifo_witness:
  "subseq (waiting ref_db (fair_queue_key ''k'') (snd (snd (run (rf_step ref_exec ref_fmt ref_elapse (\<lambda>_. ''k''))
       [(0, 1, Delivered, 0, TryLockF [] ''b''), (0, 2, Delivered, 0, TryLockF [] ''c'')]
       (\<lambda>_. '''', ref_single ''k'' (VStr ''a'')))))) [''b'', ''c'']"
proof -
  have "fair_ok ref_db ''k'' (fair_queue_key ''k'') (snd (\<lambda>_::nat. '''', ref_single ''k'' (VStr ''a'')))"
    by (simp add: fair_ok_def)
  from redis_fair_queue_fifo [OF ref_fair_key.redis_fair_key_axioms this surjective_pairing,
      of "[(0, 1, Delivered, 0, TryLockF [] ''b''), (0, 2, Delivered, 0, TryLockF [] ''c'')]"]
  show ?thesis by (simp add: waiting_def [of _ _ "ref_single _ _"] default_value del: run.simps)
qed

text \<open>
  not first come, first served. Whenever the holder's key is gone - it unlocked, or its TTL ran
  out - a \<open>TryLock\<close> by a newcomer is granted at once although others have been waiting, and the
  queue is as before: the newcomer overtakes them all.
\<close>
theorem redis_fair_newcomer_overtakes:
  assumes "redis_fair exec db now_ms elapse fmt"
    and "db s (rf_key l) = None" and "rf_key l \<noteq> rf_queueKey l"
    and "waiting db (rf_queueKey l) s = w # q" and "w \<noteq> Value (ApplyLockOptions opts uv)"
    and "whole (rf_lockTTL (ApplyLockOptions opts uv))"
    and "RF_TryLock exec fmt Delivered opts uv ts l s = (r, l', s')"
  shows "r = (True, None) \<and> fair_holder db (rf_key l) s' = Some (Value (ApplyLockOptions opts uv)) \<and>
    waiting db (rf_queueKey l) s' = w # q"
proof -
  let ?c = "ApplyLockOptions opts uv"
  obtain n where n: "expiry (fmt (rf_lockTTL ?c)) = Some n"
    using redis_fair.whole_expiry [OF assms(1,6)] by blast
  from redis_fair.try_acquire_free [OF assms(1,2) n, of "rf_queueKey l" "Value ?c" "fmt (rf_queueTTL ?c)"] assms(3,4,7)
  show ?thesis
    by (auto simp: RF_TryLock_def Let_def client_eval_Delivered as_int_def fair_holder_def waiting_def)
qed

theorem redis_fair_newcomer_overtakes_witness:
  "fst (RF_TryLock ref_exec ref_fmt Delivered [] ''new'' 0 (newRedisFairLock ''k'')
     (ref_single (fair_queue_key ''k'') (VList [''old'']))) = (True, None)"
proof -
  let ?s = "ref_single (fair_queue_key ''k'') (VList [''old''])" and ?l = "newRedisFairLock ''k''"
  have "ref_db ?s (rf_key ?l) = None" "waiting ref_db (rf_queueKey ?l) ?s = [''old'']"
    by (simp_all add: waiting_def)
  moreover obtain r l' s' where t: "RF_TryLock ref_exec ref_fmt Delivered [] ''new'' 0 ?l ?s = (r, l', s')"
    by (metis prod.collapse)
  ultimately show ?thesis
    using redis_fair_newcomer_overtakes [OF ref_fair.redis_fair_axioms _ _ _ _ _ t] by (simp add: default_value)
qed

text \<open>
  C35: an abandoned place blocks the queue. The keys hold what the fair lock puts there, and no client's
  key is the queue of another (as in C6). Client \<open>i\<close> asks for \<open>key\<close>, with \<open>TryLock\<close> or with the first
  request of \<open>Lock\<close>, while somebody holds it. The request is not granted - refused, or a network
  error if its reply is lost - and it stays in the queue, as the last (\<open>w\<close> is its value). So it does
  along every run of all clients until the queue expires, if nobody speaks for \<open>w\<close>: polls of \<open>w\<close> that
  are refused because the lock is held, or are lost - as those of a \<open>Lock\<close> that ends with a network
  error, which makes no further request (C15) - leave it there. When the lock is then free and \<open>w\<close> has come
  to the front, no waiter is granted the lock until the queue expires, along every run in which
  neither \<open>w\<close> asks again nor a newcomer calls \<open>TryLock\<close> or \<open>Lock\<close>: the free lock starves them all.
\<close>
theorem redis_fair_abandoned_head_blocks:
  assumes "redis_fair_key exec db now_ms elapse fmt keyof key" and "keyof i = key"
    and "fair_ok db key (fair_queue_key key) (snd st)" and "db (elapse d (snd st)) key \<noteq> None"
    and "c = ApplyLockOptions opts uv" and "w = Value c" and "net = Delivered \<or> net = ReplyLost m"
    and "rf_step exec fmt elapse keyof (d, i, net, ts, TryLockF opts uv) st = (r, st1)"
    and "along (\<lambda>ev st. \<not> drops db elapse keyof key w ev st) (rf_step exec fmt elapse keyof) evs1 st1"
    and "run (rf_step exec fmt elapse keyof) evs1 st1 = (rs1, st2)"
  shows "(\<exists>er. r = BoolRes False er \<and> (net = Delivered \<and> whole (rf_queueTTL c) \<longrightarrow> er = None) \<and>
        (net = ReplyLost m \<longrightarrow> er = Some (WrapNetworkError (Some (PlainErr m)) ''try_acquire_fair_lock'' ts))) \<and>
    waiting db (fair_queue_key key) (snd st1) = waiting db (fair_queue_key key) (elapse d (snd st)) @ [w] \<and>
    w \<in> set (waiting db (fair_queue_key key) (snd st2)) \<and>
    (db (snd st2) key = None \<and> hd (waiting db (fair_queue_key key) (snd st2)) = w \<and>
       queue_expiry db (fair_queue_key key) (snd st2) = Some E \<and>
       along (\<lambda>ev st. \<not> head_yields db keyof key ev st) (rf_step exec fmt elapse keyof) evs2 st2 \<and>
       run (rf_step exec fmt elapse keyof) evs2 st2 = (rs2, st3) \<and> now_ms (snd st3) < E \<longrightarrow>
     (\<forall>(ev, r) \<in> set (zip evs2 rs2). \<not> rf_granted keyof key ev r) \<and>
     (\<exists>E. head_lease db key st3 = Some (w, E)))"
proof -
  let ?qk = "fair_queue_key key"
  note queued = redis_fair_key.refused_queued [OF assms(1), of i st d c opts uv net m ts r st1,
      unfolded assms(2), OF assms(3,4,5,7,8)]
  have in1: "w \<in> set (waiting db ?qk (snd st1))" using queued(2) assms(6) by simp
  from redis_fair_key.stays_run [OF assms(1) queued(3) in1 assms(9)] assms(10)
  have ok2: "fair_ok db key ?qk (snd st2)" and in2: "w \<in> set (waiting db ?qk (snd st2))" by simp_all
  have "(\<forall>(ev, r) \<in> set (zip evs2 rs2). \<not> rf_granted keyof key ev r) \<and> (\<exists>E. head_lease db key st3 = Some (w, E))"
    if h: "db (snd st2) key = None" "hd (waiting db ?qk (snd st2)) = w" "queue_expiry db ?qk (snd st2) = Some E"
      "along (\<lambda>ev st. \<not> head_yields db keyof key ev st) (rf_step exec fmt elapse keyof) evs2 st2"
      "run (rf_step exec fmt elapse keyof) evs2 st2 = (rs2, st3)" "now_ms (snd st3) < E"
  proof -
    obtain q where q: "waiting db ?qk (snd st2) = w # q" using h(2) in2 by (cases "waiting db ?qk (snd st2)") auto
    have "db (snd st2) ?qk = Some (VList (w # q), Some E)"
      using fair_ok_views(3) [OF ok2] h(3) q in2 by (auto simp: waiting_def)
    from redis_fair_key.head_excludes [OF assms(1) h(1) this h(4-6)] show ?thesis .
  qed
  with queued(1,2) in2 assms(6) show ?thesis by blast
qed

theorem redis_fair_abandoned_head_blocks_witness:
  "\<exists>r st1 st2 E. rf_step ref_exec ref_fmt ref_elapse (\<lambda>_. ''k'') (0, 1, Delivered, 0, TryLockF [] ''b'')
       (\<lambda>_. ''c'', ref_single ''k'' (VStr ''a'')) = (BoolRes False None, st1) \<and>
     snd (rf_step ref_exec ref_fmt ref_elapse (\<lambda>_. ''k'') (70000, 2, Delivered, 0, IsLockedF) st1) = st2 \<and>
     \<not> rf_granted (\<lambda>_. ''k'') ''k'' (7, 3, Delivered, 0, AcquireF (30 * Second))
       (fst (rf_step ref_exec ref_fmt ref_elapse (\<lambda>_. ''k'') (7, 3, Delivered, 0, AcquireF (30 * Second)) st2)) \<and>
     head_lease ref_db ''k'' (snd (rf_step ref_exec ref_fmt ref_elapse (\<lambda>_. ''k'') (7, 3, Delivered, 0, AcquireF (30 * Second)) st2)) =
       Some (''b'', E)"
proof -
  let ?step = "rf_step ref_exec ref_fmt ref_elapse (\<lambda>_. ''k'')" and ?qk = "fair_queue_key ''k''"
  let ?s = "ref_single ''k'' (VStr ''a'')" and ?c = "ApplyLockOptions [] ''b''"
  let ?st = "(\<lambda>_. ''c'', ?s) :: (nat \<Rightarrow> string) \<times> ref_state"
  let ?ev2 = "(70000, 2, Delivered, 0, IsLockedF) :: rf_op sent"
  let ?ev3 = "(7, 3, Delivered, 0, AcquireF (30 * Second)) :: rf_op sent"
  have s0: "ref_db (ref_elapse 0 ?s) = ref_db ?s" by (simp add: ref_db_elapse live_def fun_eq_iff)
  have ok: "fair_ok ref_db ''k'' ?qk (snd ?st)" "fair_ok ref_db ''k'' ?qk (ref_elapse 0 ?s)"
    by (simp_all add: fair_ok_def s0)
  have held: "ref_db (ref_elapse 0 (snd ?st)) ''k'' \<noteq> None" by (simp add: s0)
  have m: "expiry (ref_fmt (rf_queueTTL ?c)) = Some 300"
    using seconds_format_whole [OF ref_format, of "5 * Minute"] by (simp add: dur_defs)
  then have m': "parse_int (ref_fmt (rf_queueTTL ?c)) = Some 300" by (auto simp: expiry_def split: option.splits if_splits)
  obtain r st1 where one: "?step (0, 1, Delivered, 0, TryLockF [] ''b'') ?st = (r, st1)" by (rule prod.exhaust)
  have v1: "fst st1 = (\<lambda>_. ''c'')(1 := ''b'')"
    using ref_fair.rf_step_vals [of "\<lambda>_. ''k''" 0 1 Delivered 0 "TryLockF [] ''b''" "fst ?st" "snd ?st"] one
    by (simp add: default_value)
  have "snd st1 = snd (FairLockTryAcquireScript ref_exec [''k'', ?qk] [Value ?c, ref_fmt (rf_lockTTL ?c), ref_fmt (rf_queueTTL ?c)] (ref_elapse 0 ?s))"
    using rf_step_server [of ref_exec ref_fmt ref_elapse "\<lambda>_. ''k''" 0 1 Delivered 0 "TryLockF [] ''b''" "fst ?st" ?s] one
    by (simp add: rf_script_def Let_def client_eval_state)
  then have d1: "ref_db (snd st1) = (ref_db ?s)(?qk \<mapsto> (VList [''b''], Some 300000))"
    using ref_fair.try_acquire_held(2) [OF ok(2) _ m, of "Value ?c" "ref_fmt (rf_lockTTL ?c)"] m'
    by (simp add: s0 ref_fair.pushed_def waiting_def default_value)
  have n1: "rs_now (snd st1) = 0"
    using ref_fair.now_rf_step [of "\<lambda>_. ''k''" 0 1 Delivered 0 "TryLockF [] ''b''" ?st] one by simp
  let ?st2 = "snd (?step ?ev2 st1)"
  have d2: "ref_db (snd ?st2) ''k'' = None" "ref_db (snd ?st2) ?qk = Some (VList [''b''], Some 300000)"
  proof -
    have e: "ref_db (ref_elapse 70000 (snd st1)) ''k'' = None"
      "ref_db (ref_elapse 70000 (snd st1)) ?qk = Some (VList [''b''], Some 300000)"
      by (simp_all add: ref.db_elapse d1 n1)
    then have q: "ref_fair.queue_ok ?qk (ref_elapse 70000 (snd st1))" by (simp add: ref_fair.queue_ok_def)
    have "ref_db (snd ?st2) = ref_db (ref_elapse 70000 (snd st1))"
      using rf_step_server [of ref_exec ref_fmt ref_elapse "\<lambda>_. ''k''" 70000 2 Delivered 0 IsLockedF "fst st1" "snd st1"]
        ref_fair.status_script_fair(2) [OF q, of "''k''" "[]"]
      by (simp add: rf_script_def Let_def client_eval_state)
    with e show "ref_db (snd ?st2) ''k'' = None" "ref_db (snd ?st2) ?qk = Some (VList [''b''], Some 300000)" by simp_all
  qed
  have a1: "along (\<lambda>ev st. \<not> drops ref_db ref_elapse (\<lambda>_. ''k'') ''k'' ''b'' ev st) ?step [?ev2] st1"
    by (cases st1) (simp add: ref.db_elapse, use d1 n1 in auto)
  have v2: "fst ?st2 = fst st1"
    using ref_fair.rf_step_vals [of "\<lambda>_. ''k''" 70000 2 Delivered 0 IsLockedF "fst st1" "snd st1"] by simp
  have a2: "along (\<lambda>ev st. \<not> head_yields ref_db (\<lambda>_. ''k'') ''k'' ev st) ?step [?ev3] ?st2"
    using v1 v2 d2 by (cases ?st2) (simp add: waiting_def)
  have r1: "run ?step [?ev2] st1 = ([fst (?step ?ev2 st1)], ?st2)"
    and r2: "run ?step [?ev3] ?st2 = ([fst (?step ?ev3 ?st2)], snd (?step ?ev3 ?st2))" by (simp_all add: case_prod_beta)
  have "rs_now (snd (snd (?step ?ev3 ?st2))) < 300000" by (simp add: ref_fair.now_rf_step n1)
  with redis_fair_abandoned_head_blocks [OF ref_fair_key.redis_fair_key_axioms refl ok(1) held refl refl _ one _ r1,
      of undefined 300000 "[?ev3]" "[fst (?step ?ev3 ?st2)]" "snd (?step ?ev3 ?st2)"] a1 a2 r2 d2
  have "r = BoolRes False None \<and> \<not> rf_granted (\<lambda>_. ''k'') ''k'' ?ev3 (fst (?step ?ev3 ?st2)) \<and>
      (\<exists>E. head_lease ref_db ''k'' (snd (?step ?ev3 ?st2)) = Some (''b'', E))"
    by (simp add: default_value waiting_def queue_expiry_def del: rf_granted.simps)
  with one show ?thesis by blast
qed

text \<open>
  C15: \<open>Lock\<close> returns, and how. Whatever the server answers and the other clients do, with a clock
  that works as Go documents it, \<open>Lock\<close> ends. If its first request failed, it returns that network
  error at once; if the request was granted, it returns no error; otherwise it waits, and ends with
  its last request: with no error if that one was granted, with its network error if it failed,
  and with a timeout if it was refused when the acquire timeout had passed since the waiting began,
  after one more request that takes the value out of the queue. \<open>config\<close> are the options of
  the call, \<open>x\<close> the result of the first request.
\<close>
theorem redis_fair_Lock_returns:
  assumes "go_runtime rt clk"
    and "\<And>w. clk w \<le> clk (snd (send w))" and "\<And>x w. clk w \<le> clk (put x w)"
    and "rt_unique rt w = (uv, w0)" and "config = ApplyLockOptions opts uv" and "get w0 = (l, s)"
    and "rf_eval send get put (\<lambda>l. FairLockTryAcquireScript exec [rf_key l, rf_queueKey l]
        [rf_value l, fmt (rf_lockTTL config), fmt (rf_queueTTL config)]) (put (l\<lparr>rf_value := Value config\<rparr>, s) w0) = (x, w2)"
  shows "\<exists>e w'. RF_Lock rt exec fmt send get put opts w = Some (e, w') \<and>
    (case as_int x of
       Inl er \<Rightarrow> (e, w') = (Some (WrapNetworkError (Some er) ''fair_lock_initial_attempt'' (fst (rt_now rt w2))), snd (rt_now rt w2))
     | Inr n \<Rightarrow>
         if n = 1 then (e, w') = (None, w2)
         else rf_wait_ends rt exec fmt send get put (rf_acquireTimeout config) (rf_lockTTL config)
           (time_add (fst (rt_now rt w2)) (rf_acquireTimeout config)) (e, w'))"
proof -
  obtain e w' where lock: "RF_Lock rt exec fmt send get put opts w = Some (e, w')"
    using rf_Lock_total [where clk = clk and send = send and put = put and rt = rt, OF assms(1-3)]
    by (metis prod.collapse)
  show ?thesis
  proof (intro exI conjI)
    show "RF_Lock rt exec fmt send get put opts w = Some (e, w')" by (rule lock)
    show "case as_int x of
       Inl er \<Rightarrow> (e, w') = (Some (WrapNetworkError (Some er) ''fair_lock_initial_attempt'' (fst (rt_now rt w2))), snd (rt_now rt w2))
     | Inr n \<Rightarrow>
         if n = 1 then (e, w') = (None, w2)
         else rf_wait_ends rt exec fmt send get put (rf_acquireTimeout config) (rf_lockTTL config)
           (time_add (fst (rt_now rt w2)) (rf_acquireTimeout config)) (e, w')"
      using lock assms(4,6,7) rf_wait_outcome
      by (auto simp: RF_Lock_def Let_def RetryWithCustomLogic_def assms(5) case_prod_beta split: sum.splits if_splits)
  qed
qed

theorem redis_fair_Lock_returns_witness:
  "\<exists>e w'. RF_Lock sim_rt ref_exec ref_fmt (\<lambda>w. (NotSent ''dial'', w)) sim_data (\<lambda>x w. w\<lparr>sim_data := x\<rparr>) []
     \<lparr>sim_clock = 5, sim_cancel = None, sim_serial = 0, sim_data = (newRedisFairLock ''k'', ref_empty)\<rparr> = Some (e, w') \<and>
   e = Some (WrapNetworkError (Some (PlainErr ''dial'')) ''fair_lock_initial_attempt'' 5)"
proof -
  let ?w = "\<lparr>sim_clock = 5, sim_cancel = None, sim_serial = 0, sim_data = (newRedisFairLock ''k'', ref_empty)\<rparr> :: (redisFairLock \<times> ref_state) sim"
  have u: "rt_unique sim_rt ?w = (generateUniqueValue ''host'' None 0, ?w\<lparr>sim_serial := 1\<rparr>)"
    by (simp add: sim_rt_simps)
  have g: "sim_data (?w\<lparr>sim_serial := 1\<rparr>) = (newRedisFairLock ''k'', ref_empty)" by simp
  show ?thesis
    using redis_fair_Lock_returns [where clk = sim_clock and rt = sim_rt and get = sim_data and exec = ref_exec and fmt = ref_fmt and send = "\<lambda>w. (NotSent ''dial'', w)"
        and put = "\<lambda>x w. w\<lparr>sim_data := x\<rparr>" and opts = "[]", OF alone.go_runtime_axioms _ _ u refl g surjective_pairing]
    by (simp add: rf_eval_def client_eval_def as_int_def sim_rt_simps)
qed

text \<open>
  the place in the queue. After a refused \<open>TryLock\<close> with a value that was not waiting,
  \<open>GetQueuePosition\<close> through the same handle answers the number of values that waited before,
  and \<open>GetQueueLength\<close> one more.
\<close>
theorem redis_fair_position:
  assumes "redis_fair exec db now_ms elapse fmt"
    and "fair_ok db (rf_key l) (rf_queueKey l) s" and "db s (rf_key l) \<noteq> None"
    and "whole (rf_queueTTL (ApplyLockOptions opts uv))"
    and "Value (ApplyLockOptions opts uv) \<notin> set (waiting db (rf_queueKey l) s)"
    and "RF_TryLock exec fmt Delivered opts uv ts l s = (r, l', s1)"
  shows "r = (False, None) \<and>
    fst (RF_GetQueuePosition exec Delivered ts' l' s1) = (int (length (waiting db (rf_queueKey l) s)), None) \<and>
    fst (RF_GetQueueLength exec Delivered ts' l' s1) = (int (length (waiting db (rf_queueKey l) s)) + 1, None)"
  by (rule redis_fair.refused_position [OF assms])

theorem redis_fair_position_witness:
  "\<exists>l' s1. RF_TryLock ref_exec ref_fmt Delivered [] ''b'' 0 (newRedisFairLock ''k'') (ref_single ''k'' (VStr ''a'')) =
      ((False, None), l', s1) \<and> fst (RF_GetQueuePosition ref_exec Delivered 0 l' s1) = (0, None)"
proof -
  let ?s = "ref_single ''k'' (VStr ''a'')" and ?l = "newRedisFairLock ''k''"
  obtain r l' s1 where t: "RF_TryLock ref_exec ref_fmt Delivered [] ''b'' 0 ?l ?s = (r, l', s1)"
    by (metis prod.collapse)
  have "fair_ok ref_db (rf_key ?l) (rf_queueKey ?l) ?s" "waiting ref_db (rf_queueKey ?l) ?s = []"
    by (simp_all add: fair_ok_def waiting_def)
  with redis_fair_position [OF ref_fair.redis_fair_axioms _ _ _ _ t, of 0] t show ?thesis by simp
qed

end
