(* ===== verification/Interfaces.thy ===== *)
theory Interfaces
  imports Config
begin

text \<open>
  The interfaces of \<open>src/lock.go\<close>, lines 443-511: a value of a Go interface is a record of its
  methods over a world \<open>'w\<close>. The blocking methods may not return (\<open>None\<close>).
\<close>

record 'w Lock =
  lk_Lock :: "LockOption list \<Rightarrow> 'w \<Rightarrow> (err option \<times> 'w) option"
  lk_TryLock :: "LockOption list \<Rightarrow> 'w \<Rightarrow> (bool \<times> err option) \<times> 'w"
  lk_Unlock :: "'w \<Rightarrow> err option \<times> 'w"
  lk_Extend :: "duration \<Rightarrow> 'w \<Rightarrow> (bool \<times> err option) \<times> 'w"
  lk_IsLocked :: "'w \<Rightarrow> (bool \<times> err option) \<times> 'w"
  lk_GetTTL :: "'w \<Rightarrow> (duration \<times> err option) \<times> 'w"
  lk_GetKey :: "'w \<Rightarrow> string"
  lk_GetValue :: "'w \<Rightarrow> string"

record 'w RWLock =
  ri_RLock :: "LockOption list \<Rightarrow> 'w \<Rightarrow> (err option \<times> 'w) option"
  ri_TryRLock :: "LockOption list \<Rightarrow> 'w \<Rightarrow> (bool \<times> err option) \<times> 'w"
  ri_RUnlock :: "'w \<Rightarrow> err option \<times> 'w"
  ri_WLock :: "LockOption list \<Rightarrow> 'w \<Rightarrow> (err option \<times> 'w) option"
  ri_TryWLock :: "LockOption list \<Rightarrow> 'w \<Rightarrow> (bool \<times> err option) \<times> 'w"
  ri_WUnlock :: "'w \<Rightarrow> err option \<times> 'w"
  ri_GetReadCount :: "'w \<Rightarrow> (i64 \<times> err option) \<times> 'w"
  ri_IsWriteLocked :: "'w \<Rightarrow> (bool \<times> err option) \<times> 'w"
  ri_GetKey :: "'w \<Rightarrow> string"

record 'w FairLock = "'w Lock" +
  fi_GetQueuePosition :: "'w \<Rightarrow> (i64 \<times> err option) \<times> 'w"
  fi_GetQueueLength :: "'w \<Rightarrow> (i64 \<times> err option) \<times> 'w"
  fi_GetQueueInfo :: "'w \<Rightarrow> (string list \<times> err option) \<times> 'w"

end
