(* ===== verification/Metrics.thy ===== *)
theory Metrics
  imports Prelude
begin

text \<open>
  \<open>src/metrics.go\<close>: the counters. The interface \<open>Metrics\<close> is the datatype of its calls; an
  implementation is a function from a call and a state to a state. \<open>float64\<close> is a parameter, a
  record of the operations \<open>GetStats\<close> uses. A method that is a sequence of atomic updates is one
  step here; a Go map is an association list, visited in its order.
\<close>

section \<open>The interface\<close>

datatype 'f metric_call =
    RecordLockAcquire string string bool duration
  | RecordLockRelease string string bool duration
  | RecordLockExtend string string bool duration
  | RecordLockTryAcquire string string bool duration
  | RecordError string string string string
  | RecordConcurrentLocks string string i64
  | RecordQueueLength string string i64
  | RecordWaitTime string string duration
  | RecordMemoryUsage string i64
  | RecordConnectionCount string i64
  | RecordGoroutineCount i64
  | RecordWatchdogExtend string string bool duration
  | RecordWatchdogStart string string
  | RecordWatchdogStop string string string
  | RecordShardDistribution i64 i64
  | RecordShardContention i64 'f
  | RecordRedisScriptExecution string bool duration
  | RecordRedisNetworkRoundtrips string i64

record 'f float_ops =
  f_of_int :: "int \<Rightarrow> 'f"
  f_add :: "'f \<Rightarrow> 'f \<Rightarrow> 'f"
  f_sub :: "'f \<Rightarrow> 'f \<Rightarrow> 'f"
  f_mul :: "'f \<Rightarrow> 'f \<Rightarrow> 'f"
  f_div :: "'f \<Rightarrow> 'f \<Rightarrow> 'f"
  f_pos :: "'f \<Rightarrow> bool"

section \<open>The default implementation\<close>

text \<open>The four counters the code keeps for each of acquire, release, extend and try-acquire.\<close>

record op_counter =
  oc_count :: i64
  oc_success :: i64
  oc_failed :: i64
  oc_timeSum :: i64

definition oc_zero :: op_counter where
  "oc_zero = \<lparr>oc_count = 0, oc_success = 0, oc_failed = 0, oc_timeSum = 0\<rparr>"

record 'f DefaultMetrics =
  dm_acquire :: op_counter
  dm_release :: op_counter
  dm_extend :: op_counter
  dm_tryAcquire :: op_counter
  totalErrors :: i64
  errorsByType :: "(string \<times> i64) list"
  errorsByCode :: "(string \<times> i64) list"
  errorsByBackend :: "(string \<times> i64) list"
  maxConcurrentLocks :: i64
  currentLocks :: i64
  maxQueueLength :: i64
  waitTimeSum :: i64
  waitCount :: i64
  maxMemoryUsage :: i64
  currentMemoryUsage :: i64
  maxConnectionCount :: i64
  currentConnections :: i64
  maxGoroutineCount :: i64
  currentGoroutines :: i64
  activeWatchdogs :: i64
  dm_watchdogExtend :: op_counter
  watchdogStarts :: i64
  watchdogStops :: i64
  shardDistribution :: "(i64 \<times> i64) list"
  shardContention :: "(i64 \<times> 'f) list"
  scriptExecutions :: "(string \<times> i64) list"
  scriptTimeSum :: "(string \<times> i64) list"
  scriptSuccessCount :: "(string \<times> i64) list"
  networkRoundtrips :: "(string \<times> i64) list"

definition NewDefaultMetrics :: "'f DefaultMetrics" where
  "NewDefaultMetrics = \<lparr>dm_acquire = oc_zero, dm_release = oc_zero, dm_extend = oc_zero, dm_tryAcquire = oc_zero,
     totalErrors = 0, errorsByType = [], errorsByCode = [], errorsByBackend = [],
     maxConcurrentLocks = 0, currentLocks = 0, maxQueueLength = 0, waitTimeSum = 0, waitCount = 0,
     maxMemoryUsage = 0, currentMemoryUsage = 0, maxConnectionCount = 0, currentConnections = 0,
     maxGoroutineCount = 0, currentGoroutines = 0, activeWatchdogs = 0, dm_watchdogExtend = oc_zero,
     watchdogStarts = 0, watchdogStops = 0, shardDistribution = [], shardContention = [],
     scriptExecutions = [], scriptTimeSum = [], scriptSuccessCount = [], networkRoundtrips = []\<rparr>"

text \<open>The two or three \<open>atomic.AddInt64\<close> of a timed operation.\<close>

definition oc_record :: "bool \<Rightarrow> duration \<Rightarrow> op_counter \<Rightarrow> op_counter" where
  "oc_record success d c =
     (let c1 = c\<lparr>oc_count := oc_count c + 1, oc_timeSum := oc_timeSum c + d\<rparr>
      in if success then c1\<lparr>oc_success := oc_success c1 + 1\<rparr> else c1\<lparr>oc_failed := oc_failed c1 + 1\<rparr>)"

definition DM_RecordLockAcquire :: "bool \<Rightarrow> duration \<Rightarrow> 'f DefaultMetrics \<Rightarrow> 'f DefaultMetrics" where
  "DM_RecordLockAcquire success d m = m\<lparr>dm_acquire := oc_record success d (dm_acquire m)\<rparr>"

definition DM_RecordLockRelease :: "bool \<Rightarrow> duration \<Rightarrow> 'f DefaultMetrics \<Rightarrow> 'f DefaultMetrics" where
  "DM_RecordLockRelease success d m = m\<lparr>dm_release := oc_record success d (dm_release m)\<rparr>"

definition DM_RecordLockExtend :: "bool \<Rightarrow> duration \<Rightarrow> 'f DefaultMetrics \<Rightarrow> 'f DefaultMetrics" where
  "DM_RecordLockExtend success d m = m\<lparr>dm_extend := oc_record success d (dm_extend m)\<rparr>"

definition DM_RecordLockTryAcquire :: "bool \<Rightarrow> duration \<Rightarrow> 'f DefaultMetrics \<Rightarrow> 'f DefaultMetrics" where
  "DM_RecordLockTryAcquire success d m = m\<lparr>dm_tryAcquire := oc_record success d (dm_tryAcquire m)\<rparr>"

text \<open>\<open>m[k] += n\<close> on a Go map of integers: a missing key counts as 0.\<close>

definition go_get :: "('k \<times> i64) list \<Rightarrow> 'k \<Rightarrow> i64" where
  "go_get m k = (case map_of m k of Some x \<Rightarrow> x | None \<Rightarrow> 0)"

definition add_to :: "'k \<Rightarrow> i64 \<Rightarrow> ('k \<times> i64) list \<Rightarrow> ('k \<times> i64) list" where
  "add_to k n m = AList.update k (go_get m k + n) m"

definition DM_RecordError :: "string \<Rightarrow> string \<Rightarrow> string \<Rightarrow> 'f DefaultMetrics \<Rightarrow> 'f DefaultMetrics" where
  "DM_RecordError backend errorCode errorType m =
     m\<lparr>totalErrors := totalErrors m + 1,
       errorsByType := add_to errorType 1 (errorsByType m),
       errorsByCode := add_to errorCode 1 (errorsByCode m),
       errorsByBackend := add_to backend 1 (errorsByBackend m)\<rparr>"

text \<open>The compare-and-swap loop that keeps a maximum.\<close>

definition cas_max :: "i64 \<Rightarrow> i64 \<Rightarrow> i64" where
  "cas_max n current = (if sint n \<le> sint current then current else n)"

definition DM_RecordConcurrentLocks :: "i64 \<Rightarrow> 'f DefaultMetrics \<Rightarrow> 'f DefaultMetrics" where
  "DM_RecordConcurrentLocks n m = m\<lparr>currentLocks := n, maxConcurrentLocks := cas_max n (maxConcurrentLocks m)\<rparr>"

definition DM_RecordQueueLength :: "i64 \<Rightarrow> 'f DefaultMetrics \<Rightarrow> 'f DefaultMetrics" where
  "DM_RecordQueueLength n m = m\<lparr>maxQueueLength := cas_max n (maxQueueLength m)\<rparr>"

definition DM_RecordWaitTime :: "duration \<Rightarrow> 'f DefaultMetrics \<Rightarrow> 'f DefaultMetrics" where
  "DM_RecordWaitTime d m = m\<lparr>waitTimeSum := waitTimeSum m + d, waitCount := waitCount m + 1\<rparr>"

definition DM_RecordMemoryUsage :: "i64 \<Rightarrow> 'f DefaultMetrics \<Rightarrow> 'f DefaultMetrics" where
  "DM_RecordMemoryUsage n m = m\<lparr>currentMemoryUsage := n, maxMemoryUsage := cas_max n (maxMemoryUsage m)\<rparr>"

definition DM_RecordConnectionCount :: "i64 \<Rightarrow> 'f DefaultMetrics \<Rightarrow> 'f DefaultMetrics" where
  "DM_RecordConnectionCount n m = m\<lparr>currentConnections := n, maxConnectionCount := cas_max n (maxConnectionCount m)\<rparr>"

definition DM_RecordGoroutineCount :: "i64 \<Rightarrow> 'f DefaultMetrics \<Rightarrow> 'f DefaultMetrics" where
  "DM_RecordGoroutineCount n m = m\<lparr>currentGoroutines := n, maxGoroutineCount := cas_max n (maxGoroutineCount m)\<rparr>"

definition DM_RecordWatchdogExtend :: "bool \<Rightarrow> duration \<Rightarrow> 'f DefaultMetrics \<Rightarrow> 'f DefaultMetrics" where
  "DM_RecordWatchdogExtend success d m = m\<lparr>dm_watchdogExtend := oc_record success d (dm_watchdogExtend m)\<rparr>"

definition DM_RecordWatchdogStart :: "'f DefaultMetrics \<Rightarrow> 'f DefaultMetrics" where
  "DM_RecordWatchdogStart m = m\<lparr>watchdogStarts := watchdogStarts m + 1, activeWatchdogs := activeWatchdogs m + 1\<rparr>"

definition DM_RecordWatchdogStop :: "'f DefaultMetrics \<Rightarrow> 'f DefaultMetrics" where
  "DM_RecordWatchdogStop m = m\<lparr>watchdogStops := watchdogStops m + 1, activeWatchdogs := activeWatchdogs m - 1\<rparr>"

definition DM_RecordShardDistribution :: "i64 \<Rightarrow> i64 \<Rightarrow> 'f DefaultMetrics \<Rightarrow> 'f DefaultMetrics" where
  "DM_RecordShardDistribution i n m = m\<lparr>shardDistribution := AList.update i n (shardDistribution m)\<rparr>"

definition DM_RecordShardContention :: "i64 \<Rightarrow> 'f \<Rightarrow> 'f DefaultMetrics \<Rightarrow> 'f DefaultMetrics" where
  "DM_RecordShardContention i c m = m\<lparr>shardContention := AList.update i c (shardContention m)\<rparr>"

definition DM_RecordRedisScriptExecution :: "string \<Rightarrow> bool \<Rightarrow> duration \<Rightarrow> 'f DefaultMetrics \<Rightarrow> 'f DefaultMetrics" where
  "DM_RecordRedisScriptExecution name success d m =
     (let m1 = m\<lparr>scriptExecutions := add_to name 1 (scriptExecutions m),
                 scriptTimeSum := add_to name d (scriptTimeSum m)\<rparr>
      in if success then m1\<lparr>scriptSuccessCount := add_to name 1 (scriptSuccessCount m1)\<rparr> else m1)"

definition DM_RecordRedisNetworkRoundtrips :: "string \<Rightarrow> i64 \<Rightarrow> 'f DefaultMetrics \<Rightarrow> 'f DefaultMetrics" where
  "DM_RecordRedisNetworkRoundtrips oper n m = m\<lparr>networkRoundtrips := add_to oper n (networkRoundtrips m)\<rparr>"

text \<open>\<open>DefaultMetrics\<close> as an implementation of the interface.\<close>

fun default_metrics :: "'f metric_call \<Rightarrow> 'f DefaultMetrics \<Rightarrow> 'f DefaultMetrics" where
  "default_metrics (RecordLockAcquire lt b success d) = DM_RecordLockAcquire success d"
| "default_metrics (RecordLockRelease lt b success d) = DM_RecordLockRelease success d"
| "default_metrics (RecordLockExtend lt b success d) = DM_RecordLockExtend success d"
| "default_metrics (RecordLockTryAcquire lt b success d) = DM_RecordLockTryAcquire success d"
| "default_metrics (RecordError lt b code typ) = DM_RecordError b code typ"
| "default_metrics (RecordConcurrentLocks lt b n) = DM_RecordConcurrentLocks n"
| "default_metrics (RecordQueueLength lt b n) = DM_RecordQueueLength n"
| "default_metrics (RecordWaitTime lt b d) = DM_RecordWaitTime d"
| "default_metrics (RecordMemoryUsage b n) = DM_RecordMemoryUsage n"
| "default_metrics (RecordConnectionCount b n) = DM_RecordConnectionCount n"
| "default_metrics (RecordGoroutineCount n) = DM_RecordGoroutineCount n"
| "default_metrics (RecordWatchdogExtend lt b success d) = DM_RecordWatchdogExtend success d"
| "default_metrics (RecordWatchdogStart lt b) = DM_RecordWatchdogStart"
| "default_metrics (RecordWatchdogStop lt b r) = DM_RecordWatchdogStop"
| "default_metrics (RecordShardDistribution i n) = DM_RecordShardDistribution i n"
| "default_metrics (RecordShardContention i c) = DM_RecordShardContention i c"
| "default_metrics (RecordRedisScriptExecution name success d) = DM_RecordRedisScriptExecution name success d"
| "default_metrics (RecordRedisNetworkRoundtrips oper n) = DM_RecordRedisNetworkRoundtrips oper n"

text \<open>\<open>Reset\<close> stores 0 in every counter and an empty map in every map, field by field.\<close>

definition Metrics_Reset :: "'f DefaultMetrics \<Rightarrow> 'f DefaultMetrics" where
  "Metrics_Reset m =
     m\<lparr>dm_acquire := oc_zero, dm_release := oc_zero, dm_extend := oc_zero, dm_tryAcquire := oc_zero,
       totalErrors := 0, maxConcurrentLocks := 0, currentLocks := 0, maxQueueLength := 0,
       waitTimeSum := 0, waitCount := 0, maxMemoryUsage := 0, currentMemoryUsage := 0,
       maxConnectionCount := 0, currentConnections := 0, maxGoroutineCount := 0, currentGoroutines := 0,
       activeWatchdogs := 0, dm_watchdogExtend := oc_zero, watchdogStarts := 0, watchdogStops := 0,
       errorsByType := [], errorsByCode := [], errorsByBackend := [], shardDistribution := [],
       shardContention := [], scriptExecutions := [], scriptTimeSum := [], scriptSuccessCount := [],
       networkRoundtrips := []\<rparr>"

section \<open>Statistics\<close>

record op_stats =
  os_Count :: i64
  os_Success :: i64
  os_Failed :: i64
  os_AverageTime :: duration

record LockOperationStats =
  lo_Acquire :: op_stats
  lo_Release :: op_stats
  lo_Extend :: op_stats
  lo_TryAcquire :: op_stats

record ErrorStats =
  es_TotalErrors :: i64
  es_ErrorsByType :: "(string \<times> i64) list"
  es_ErrorsByCode :: "(string \<times> i64) list"
  es_ErrorsByBackend :: "(string \<times> i64) list"

record ConcurrencyStats =
  cs_MaxConcurrentLocks :: i64
  cs_CurrentLocks :: i64
  cs_MaxQueueLength :: i64
  cs_AverageWaitTime :: duration
  cs_TotalWaitTime :: duration

record ResourceStats =
  res_MaxMemoryUsage :: i64
  res_CurrentMemoryUsage :: i64
  res_MaxConnectionCount :: i64
  res_CurrentConnections :: i64
  res_MaxGoroutineCount :: i64
  res_CurrentGoroutines :: i64

record WatchdogMetricsStats =
  wm_ActiveWatchdogs :: i64
  wm_Extends :: op_stats
  wm_WatchdogStarts :: i64
  wm_WatchdogStops :: i64

record 'f ShardingStats =
  ss_ShardCount :: nat
  ss_ShardDistribution :: "(i64 \<times> i64) list"
  ss_ShardContention :: "(i64 \<times> 'f) list"
  ss_MaxShardLoad :: i64
  ss_MinShardLoad :: i64
  ss_LoadStandardDev :: 'f

record 'f RedisMetricsStats =
  rm_ScriptExecutions :: "(string \<times> i64) list"
  rm_ScriptSuccessRate :: "(string \<times> 'f) list"
  rm_AverageScriptTime :: "(string \<times> duration) list"
  rm_NetworkRoundtrips :: "(string \<times> i64) list"
  rm_TotalRoundtrips :: i64

record 'f MetricsStats =
  LockOperations :: LockOperationStats
  ms_ErrorStats :: ErrorStats
  ms_ConcurrencyStats :: ConcurrencyStats
  ms_ResourceStats :: ResourceStats
  ms_WatchdogStats :: WatchdogMetricsStats
  ms_ShardingStats :: "'f ShardingStats"
  ms_RedisStats :: "'f RedisMetricsStats"

text \<open>The average of a positive count, 0 otherwise.\<close>

definition average :: "i64 \<Rightarrow> i64 \<Rightarrow> duration" where
  "average timeSum count = (if 0 < sint count then go_div timeSum count else 0)"

definition oc_stats :: "op_counter \<Rightarrow> op_stats" where
  "oc_stats c = \<lparr>os_Count = oc_count c, os_Success = oc_success c, os_Failed = oc_failed c,
     os_AverageTime = average (oc_timeSum c) (oc_count c)\<rparr>"

text \<open>The loops over the script map; a script whose count is not positive is left out.\<close>

definition success_rates :: "'f float_ops \<Rightarrow> 'f DefaultMetrics \<Rightarrow> (string \<times> 'f) list" where
  "success_rates F m =
     map (\<lambda>(k, execCount). (k, f_div F (f_of_int F (sint (go_get (scriptSuccessCount m) k))) (f_of_int F (sint execCount))))
       (filter (\<lambda>(k, execCount). 0 < sint execCount) (scriptExecutions m))"

definition script_averages :: "'f DefaultMetrics \<Rightarrow> (string \<times> duration) list" where
  "script_averages m =
     map (\<lambda>(k, execCount). (k, go_div (go_get (scriptTimeSum m) k) execCount))
       (filter (\<lambda>(k, execCount). 0 < sint execCount) (scriptExecutions m))"

text \<open>The loop over the shards: maximum, minimum, sum and sum of squares of the loads.\<close>

fun shard_loop :: "'f float_ops \<Rightarrow> i64 list \<Rightarrow> bool \<Rightarrow> i64 \<times> i64 \<times> 'f \<times> 'f \<Rightarrow> i64 \<times> i64 \<times> 'f \<times> 'f" where
  "shard_loop F [] first acc = acc"
| "shard_loop F (load # loads) first (mx, mn, s, s2) =
     shard_loop F loads False
       (if first \<or> sint mx < sint load then load else mx,
        if first \<or> sint load < sint mn then load else mn,
        f_add F s (f_of_int F (sint load)),
        f_add F s2 (f_mul F (f_of_int F (sint load)) (f_of_int F (sint load))))"

definition sharding_stats :: "'f float_ops \<Rightarrow> 'f DefaultMetrics \<Rightarrow> 'f ShardingStats" where
  "sharding_stats F m =
     (let shardCount = length (shardDistribution m); zero = f_of_int F 0;
          (mx, mn, loadSum, loadSumSquares) = shard_loop F (map snd (shardDistribution m)) True (0, 0, zero, zero);
          mean = f_div F loadSum (f_of_int F (int shardCount));
          variance = f_div F (f_sub F loadSumSquares (f_mul F loadSum mean)) (f_of_int F (int shardCount - 1))
      in \<lparr>ss_ShardCount = shardCount, ss_ShardDistribution = shardDistribution m,
          ss_ShardContention = shardContention m, ss_MaxShardLoad = mx, ss_MinShardLoad = mn,
          ss_LoadStandardDev = (if 1 < shardCount \<and> f_pos F variance then variance else zero)\<rparr>)"

definition Metrics_GetStats :: "'f float_ops \<Rightarrow> 'f DefaultMetrics \<Rightarrow> 'f MetricsStats" where
  "Metrics_GetStats F m =
     \<lparr>LockOperations = \<lparr>lo_Acquire = oc_stats (dm_acquire m), lo_Release = oc_stats (dm_release m),
        lo_Extend = oc_stats (dm_extend m), lo_TryAcquire = oc_stats (dm_tryAcquire m)\<rparr>,
      ms_ErrorStats = \<lparr>es_TotalErrors = totalErrors m, es_ErrorsByType = errorsByType m,
        es_ErrorsByCode = errorsByCode m, es_ErrorsByBackend = errorsByBackend m\<rparr>,
      ms_ConcurrencyStats = \<lparr>cs_MaxConcurrentLocks = maxConcurrentLocks m, cs_CurrentLocks = currentLocks m,
        cs_MaxQueueLength = maxQueueLength m, cs_AverageWaitTime = average (waitTimeSum m) (waitCount m),
        cs_TotalWaitTime = waitTimeSum m\<rparr>,
      ms_ResourceStats = \<lparr>res_MaxMemoryUsage = maxMemoryUsage m, res_CurrentMemoryUsage = currentMemoryUsage m,
        res_MaxConnectionCount = maxConnectionCount m, res_CurrentConnections = currentConnections m,
        res_MaxGoroutineCount = maxGoroutineCount m, res_CurrentGoroutines = currentGoroutines m\<rparr>,
      ms_WatchdogStats = \<lparr>wm_ActiveWatchdogs = activeWatchdogs m, wm_Extends = oc_stats (dm_watchdogExtend m),
        wm_WatchdogStarts = watchdogStarts m, wm_WatchdogStops = watchdogStops m\<rparr>,
      ms_ShardingStats = sharding_stats F m,
      ms_RedisStats = \<lparr>rm_ScriptExecutions = scriptExecutions m, rm_ScriptSuccessRate = success_rates F m,
        rm_AverageScriptTime = script_averages m, rm_NetworkRoundtrips = networkRoundtrips m,
        rm_TotalRoundtrips = foldl (+) 0 (map snd (networkRoundtrips m))\<rparr>\<rparr>"

section \<open>The global instance\<close>

text \<open>\<open>globalMetrics\<close>, possibly nil, and the \<open>sync.Once\<close> of \<open>EnableMetrics\<close>.\<close>

record 'm metrics_globals =
  globalMetrics :: "'m option"
  metricsOnce :: bool

definition metrics_init :: "'m \<Rightarrow> 'm metrics_globals" where
  "metrics_init fresh = \<lparr>globalMetrics = Some fresh, metricsOnce = False\<rparr>"

definition GetGlobalMetrics :: "'m metrics_globals \<Rightarrow> 'm option" where
  "GetGlobalMetrics g = globalMetrics g"

definition SetGlobalMetrics :: "'m option \<Rightarrow> 'm metrics_globals \<Rightarrow> 'm metrics_globals" where
  "SetGlobalMetrics m g = g\<lparr>globalMetrics := m\<rparr>"

definition EnableMetrics :: "'m \<Rightarrow> 'm metrics_globals \<Rightarrow> 'm metrics_globals" where
  "EnableMetrics fresh g =
     (if metricsOnce g then g
      else g\<lparr>metricsOnce := True,
             globalMetrics := (case globalMetrics g of None \<Rightarrow> Some fresh | Some m \<Rightarrow> Some m)\<rparr>)"

section \<open>What the counters count\<close>

text \<open>
  The calls since the last reset, as a list. An observer picks the calls of one counter with
  their success flag and duration.
\<close>

type_synonym 'f observer = "'f metric_call \<Rightarrow> (bool \<times> duration) option"

fun acquire_obs :: "'f observer" where
  "acquire_obs (RecordLockAcquire lt b ok d) = Some (ok, d)" | "acquire_obs c = None"
fun release_obs :: "'f observer" where
  "release_obs (RecordLockRelease lt b ok d) = Some (ok, d)" | "release_obs c = None"
fun extend_obs :: "'f observer" where
  "extend_obs (RecordLockExtend lt b ok d) = Some (ok, d)" | "extend_obs c = None"
fun tryAcquire_obs :: "'f observer" where
  "tryAcquire_obs (RecordLockTryAcquire lt b ok d) = Some (ok, d)" | "tryAcquire_obs c = None"
fun watchdog_obs :: "'f observer" where
  "watchdog_obs (RecordWatchdogExtend lt b ok d) = Some (ok, d)" | "watchdog_obs c = None"

definition observed :: "'f observer \<Rightarrow> 'f metric_call list \<Rightarrow> (bool \<times> duration) list" where
  "observed obs cs = List.map_filter obs cs"

text \<open>The counter that a list of observations stands for.\<close>

definition tally :: "(bool \<times> duration) list \<Rightarrow> op_counter" where
  "tally os = \<lparr>oc_count = of_nat (length os), oc_success = of_nat (length (filter fst os)),
     oc_failed = of_nat (length (filter (\<lambda>x. \<not> fst x) os)), oc_timeSum = sum_list (map snd os)\<rparr>"

definition record_all :: "'f metric_call list \<Rightarrow> 'f DefaultMetrics \<Rightarrow> 'f DefaultMetrics" where
  "record_all cs m = fold default_metrics cs m"

lemma tally_Nil: "tally [] = oc_zero"
  by (simp add: tally_def oc_zero_def)

lemma tally_snoc: "tally (os @ [(ok, d)]) = oc_record ok d (tally os)"
  by (simp add: tally_def oc_record_def)

lemma observed_snoc:
  "observed obs (cs @ [c]) = observed obs cs @ (case obs c of None \<Rightarrow> [] | Some x \<Rightarrow> [x])"
  by (simp add: observed_def map_filter_def split: option.split)

lemma record_all_snoc: "record_all (cs @ [c]) m = default_metrics c (record_all cs m)"
  by (simp add: record_all_def)

lemmas dm_defs = DM_RecordLockAcquire_def DM_RecordLockRelease_def DM_RecordLockExtend_def
  DM_RecordLockTryAcquire_def DM_RecordError_def DM_RecordConcurrentLocks_def DM_RecordQueueLength_def
  DM_RecordWaitTime_def DM_RecordMemoryUsage_def DM_RecordConnectionCount_def DM_RecordGoroutineCount_def
  DM_RecordWatchdogExtend_def DM_RecordWatchdogStart_def DM_RecordWatchdogStop_def
  DM_RecordShardDistribution_def DM_RecordShardContention_def DM_RecordRedisScriptExecution_def
  DM_RecordRedisNetworkRoundtrips_def

lemma Reset_is_new: "Metrics_Reset m = (NewDefaultMetrics :: 'f DefaultMetrics)"
  by (simp add: Metrics_Reset_def NewDefaultMetrics_def)

lemma counters_tally:
  "dm_acquire (record_all cs NewDefaultMetrics) = tally (observed acquire_obs cs)"
  "dm_release (record_all cs NewDefaultMetrics) = tally (observed release_obs cs)"
  "dm_extend (record_all cs NewDefaultMetrics) = tally (observed extend_obs cs)"
  "dm_tryAcquire (record_all cs NewDefaultMetrics) = tally (observed tryAcquire_obs cs)"
  "dm_watchdogExtend (record_all cs NewDefaultMetrics) = tally (observed watchdog_obs cs)"
proof -
  have "dm_acquire (record_all cs NewDefaultMetrics) = tally (observed acquire_obs cs) \<and>
    dm_release (record_all cs NewDefaultMetrics) = tally (observed release_obs cs) \<and>
    dm_extend (record_all cs NewDefaultMetrics) = tally (observed extend_obs cs) \<and>
    dm_tryAcquire (record_all cs NewDefaultMetrics) = tally (observed tryAcquire_obs cs) \<and>
    dm_watchdogExtend (record_all cs NewDefaultMetrics) = tally (observed watchdog_obs cs)"
  proof (induction cs rule: rev_induct)
    case Nil
    then show ?case by (simp add: record_all_def observed_def map_filter_def NewDefaultMetrics_def tally_Nil)
  next
    case (snoc c cs)
    then show ?case
      by (cases c) (simp_all add: record_all_snoc observed_snoc tally_snoc dm_defs Let_def)
  qed
  then show "dm_acquire (record_all cs NewDefaultMetrics) = tally (observed acquire_obs cs)"
    "dm_release (record_all cs NewDefaultMetrics) = tally (observed release_obs cs)"
    "dm_extend (record_all cs NewDefaultMetrics) = tally (observed extend_obs cs)"
    "dm_tryAcquire (record_all cs NewDefaultMetrics) = tally (observed tryAcquire_obs cs)"
    "dm_watchdogExtend (record_all cs NewDefaultMetrics) = tally (observed watchdog_obs cs)" by blast+
qed


lemma tally_total: "oc_count (tally os) = oc_success (tally os) + oc_failed (tally os)"
proof -
  have "of_nat (length os) = of_nat (length (filter fst os)) + (of_nat (length (filter (\<lambda>x. \<not> fst x) os)) :: i64)"
    unfolding of_nat_add [symmetric] sum_length_filter_compl ..
  then show ?thesis by (simp add: tally_def)
qed

lemma sint_sum_list:
  assumes "\<forall>d \<in> set ds. 0 \<le> sint d \<and> sint d \<le> hi" and "int (length ds) * hi < 2 ^ 63" and "0 \<le> hi"
  shows "sint (sum_list ds :: i64) = sum_list (map sint ds) \<and> 0 \<le> sum_list (map sint ds) \<and>
    sum_list (map sint ds) \<le> int (length ds) * hi"
  using assms
proof (induction ds)
  case (Cons d ds)
  have len: "int (length (d # ds)) * hi = hi + int (length ds) * hi" by (simp add: algebra_simps)
  with Cons.prems have "int (length ds) * hi < 2 ^ 63" by linarith
  with Cons have ih: "sint (sum_list ds :: i64) = sum_list (map sint ds)" "0 \<le> sum_list (map sint ds)"
    "sum_list (map sint ds) \<le> int (length ds) * hi" by simp_all
  have d: "0 \<le> sint d" "sint d \<le> hi" using Cons.prems(1) by simp_all
  let ?t = "sint d + sum_list (map sint ds)"
  have t: "0 \<le> ?t" "?t \<le> int (length (d # ds)) * hi" using d ih len by linarith+
  then have "?t < 2 ^ 63" using Cons.prems(2) by linarith
  then have "sint (word_of_int ?t :: i64) = ?t" using t(1) by (intro sint_of_int_i64) simp_all
  moreover have "sum_list (d # ds) = (word_of_int ?t :: i64)" using ih(1) [symmetric] by simp
  ultimately show ?case using t by simp
qed simp

lemma sum_list_at_least: "(\<And>x. x \<in> set xs \<Longrightarrow> (lo::int) \<le> f x) \<Longrightarrow> int (length xs) * lo \<le> sum_list (map f xs)"
proof (induction xs)
  case (Cons x xs)
  then have "lo \<le> f x" "int (length xs) * lo \<le> sum_list (map f xs)" by simp_all
  then show ?case by (simp add: algebra_simps)
qed simp

text \<open>The average of recorded durations lies between their bounds, if nothing overflows.\<close>

lemma average_tally:
  assumes "os \<noteq> []" and "\<forall>d \<in> set (map snd os). lo \<le> sint d \<and> sint d \<le> hi" and "0 \<le> lo"
    and "int (length os) * hi < 2 ^ 63" and "int (length os) < 2 ^ 63"
  shows "lo \<le> sint (average (oc_timeSum (tally os)) (oc_count (tally os))) \<and>
    sint (average (oc_timeSum (tally os)) (oc_count (tally os))) \<le> hi"
proof -
  let ?n = "int (length os)" and ?ds = "map snd os"
  have n: "0 < ?n" using assms(1) by simp
  have hi: "0 \<le> hi"
    using assms(1-3) by (cases os) auto
  have count: "sint (of_nat (length os) :: i64) = ?n"
    using sint_of_int_i64 [of ?n] assms(5) by simp
  have "\<forall>d \<in> set ?ds. 0 \<le> sint d \<and> sint d \<le> hi" using assms(2,3) by auto
  with sint_sum_list [of ?ds hi] assms(4) hi
  have sum: "sint (sum_list ?ds) = sum_list (map sint ?ds)" "0 \<le> sum_list (map sint ?ds)"
    "sum_list (map sint ?ds) \<le> ?n * hi" by simp_all
  have low: "?n * lo \<le> sum_list (map sint ?ds)"
    using sum_list_at_least [of ?ds lo sint] assms(2) by simp
  have avg: "sint (average (oc_timeSum (tally os)) (oc_count (tally os))) = sum_list (map sint ?ds) div ?n"
    using sint_go_div_pos [of "sum_list ?ds" "of_nat (length os)"] n sum count
    by (simp add: average_def tally_def del: of_nat_0_less_iff)
  have "lo = ?n * lo div ?n" "hi = ?n * hi div ?n" using n by simp_all
  with zdiv_mono1 [OF low n] zdiv_mono1 [OF sum(3) n] show ?thesis unfolding avg by linarith
qed

text \<open>The error maps.\<close>

fun error_of :: "'f metric_call \<Rightarrow> (string \<times> string \<times> string) option" where
  "error_of (RecordError lt b code typ) = Some (b, code, typ)" | "error_of c = None"

definition errors :: "'f metric_call list \<Rightarrow> (string \<times> string \<times> string) list" where
  "errors cs = List.map_filter error_of cs"

lemma errors_snoc: "errors (cs @ [c]) = errors cs @ (case error_of c of None \<Rightarrow> [] | Some x \<Rightarrow> [x])"
  by (simp add: errors_def map_filter_def split: option.split)

lemma go_get_add_to: "go_get (add_to k n m) j = go_get m j + (if j = k then n else 0)"
  by (simp add: go_get_def add_to_def)

definition how_many :: "('a \<Rightarrow> bool) \<Rightarrow> 'a list \<Rightarrow> i64" where
  "how_many P xs = of_nat (length (filter P xs))"

lemma how_many_snoc: "how_many P (xs @ [x]) = how_many P xs + (if P x then 1 else 0)"
  by (simp add: how_many_def)

lemma error_counts:
  "totalErrors (record_all cs NewDefaultMetrics) = of_nat (length (errors cs)) \<and>
   (\<forall>k. go_get (errorsByBackend (record_all cs NewDefaultMetrics)) k = how_many (\<lambda>(b, c, t). b = k) (errors cs)) \<and>
   (\<forall>k. go_get (errorsByCode (record_all cs NewDefaultMetrics)) k = how_many (\<lambda>(b, c, t). c = k) (errors cs)) \<and>
   (\<forall>k. go_get (errorsByType (record_all cs NewDefaultMetrics)) k = how_many (\<lambda>(b, c, t). t = k) (errors cs))"
proof (induction cs rule: rev_induct)
  case Nil
  then show ?case by (simp add: record_all_def errors_def map_filter_def NewDefaultMetrics_def go_get_def how_many_def)
next
  case (snoc c cs)
  show ?case
  proof (cases "error_of c")
    case None
    with snoc show ?thesis by (cases c) (simp_all add: record_all_snoc errors_snoc dm_defs Let_def)
  next
    case (Some x)
    then obtain lt b co ty where "c = RecordError lt b co ty" by (cases c) auto
    with snoc show ?thesis
      by (auto simp: record_all_snoc errors_snoc dm_defs go_get_add_to how_many_snoc)
  qed
qed

text \<open>The high-water marks.\<close>

fun goroutines_of :: "'f metric_call \<Rightarrow> i64 option" where
  "goroutines_of (RecordGoroutineCount n) = Some n" | "goroutines_of c = None"
fun locks_of :: "'f metric_call \<Rightarrow> i64 option" where
  "locks_of (RecordConcurrentLocks lt b n) = Some n" | "locks_of c = None"
fun queue_of :: "'f metric_call \<Rightarrow> i64 option" where
  "queue_of (RecordQueueLength lt b n) = Some n" | "queue_of c = None"

definition high_water :: "i64 list \<Rightarrow> int" where
  "high_water ns = fold max (map sint ns) 0"

lemma high_water_snoc: "high_water (ns @ [n]) = max (sint n) (high_water ns)"
  by (simp add: high_water_def)

lemma sint_cas_max: "sint (cas_max n m) = max (sint n) (sint m)"
  by (simp add: cas_max_def)

definition values_of :: "('f metric_call \<Rightarrow> i64 option) \<Rightarrow> 'f metric_call list \<Rightarrow> i64 list" where
  "values_of sel cs = List.map_filter sel cs"

lemma values_of_snoc: "values_of sel (cs @ [c]) = values_of sel cs @ (case sel c of None \<Rightarrow> [] | Some x \<Rightarrow> [x])"
  by (simp add: values_of_def map_filter_def split: option.split)

lemma high_waters:
  "sint (maxGoroutineCount (record_all cs NewDefaultMetrics)) = high_water (values_of goroutines_of cs) \<and>
   sint (maxConcurrentLocks (record_all cs NewDefaultMetrics)) = high_water (values_of locks_of cs) \<and>
   sint (maxQueueLength (record_all cs NewDefaultMetrics)) = high_water (values_of queue_of cs)"
proof (induction cs rule: rev_induct)
  case Nil
  then show ?case by (simp add: record_all_def values_of_def map_filter_def NewDefaultMetrics_def high_water_def)
next
  case (snoc c cs)
  then show ?case
    by (cases c) (simp_all add: record_all_snoc values_of_snoc dm_defs Let_def sint_cas_max high_water_snoc)
qed

section \<open>Properties\<close>

text \<open>
  C23: the operation statistics. After a reset and any list of calls, \<open>GetStats\<close> reports for each
  timed operation the number of its calls, of the successful and of the failed ones (modulo
  \<open>2^64\<close>, and the first is always the sum of the other two), and, when the sum of durations
  does not overflow, an average that lies between the shortest and the longest duration.
\<close>
theorem metrics_operation_stats:
  assumes "m = record_all cs (Metrics_Reset m0)" and "s = Metrics_GetStats F m"
    and "(st, obs) \<in> {(lo_Acquire (LockOperations s), acquire_obs), (lo_Release (LockOperations s), release_obs),
      (lo_Extend (LockOperations s), extend_obs), (lo_TryAcquire (LockOperations s), tryAcquire_obs),
      (wm_Extends (ms_WatchdogStats s), watchdog_obs)}"
    and "os = observed obs cs"
  shows "os_Count st = of_nat (length os) \<and> os_Success st = of_nat (length (filter fst os)) \<and>
    os_Count st = os_Success st + os_Failed st \<and>
    (os \<noteq> [] \<and> (\<forall>d \<in> set (map snd os). lo \<le> sint d \<and> sint d \<le> hi) \<and> 0 \<le> lo \<and>
       int (length os) * hi < 2 ^ 63 \<and> int (length os) < 2 ^ 63 \<longrightarrow>
     lo \<le> sint (os_AverageTime st) \<and> sint (os_AverageTime st) \<le> hi)"
proof -
  have "st = oc_stats (tally os)"
    using assms(3) unfolding assms(1,2,4) Reset_is_new
    by (auto simp: Metrics_GetStats_def counters_tally)
  then show ?thesis
    using average_tally [of os lo hi] tally_total [of os] by (auto simp: oc_stats_def tally_def)
qed

theorem metrics_operation_stats_witness:
  "\<forall>F (m0 :: int DefaultMetrics). os_Count (lo_Acquire (LockOperations (Metrics_GetStats F
     (record_all [RecordLockAcquire ''a'' ''b'' True 5, RecordLockAcquire ''a'' ''b'' False 9] (Metrics_Reset m0))))) = 2"
proof (intro allI)
  fix F :: "int float_ops" and m0 :: "int DefaultMetrics"
  let ?cs = "[RecordLockAcquire ''a'' ''b'' True 5, RecordLockAcquire ''a'' ''b'' False 9] :: int metric_call list"
  let ?st = "lo_Acquire (LockOperations (Metrics_GetStats F (record_all ?cs (Metrics_Reset m0))))"
  have "os_Count ?st = of_nat (length (observed acquire_obs ?cs))"
    by (rule metrics_operation_stats [where F = F, OF refl refl insertI1 refl, THEN conjunct1])
  then show "os_Count ?st = 2" by (simp add: observed_def map_filter_simps)
qed

text \<open>
  the error statistics. After a reset and any list of calls, the total is the number of errors
  recorded, and each of the three maps gives for each type, code and backend the number of
  errors recorded with it; the high-water marks are the largest values ever recorded (0 at
  least).
\<close>
theorem metrics_errors_and_peaks:
  "let s = Metrics_GetStats F (record_all cs (Metrics_Reset m0)) in
    es_TotalErrors (ms_ErrorStats s) = of_nat (length (errors cs)) \<and>
    go_get (es_ErrorsByBackend (ms_ErrorStats s)) k = how_many (\<lambda>(b, c, t). b = k) (errors cs) \<and>
    go_get (es_ErrorsByCode (ms_ErrorStats s)) k = how_many (\<lambda>(b, c, t). c = k) (errors cs) \<and>
    go_get (es_ErrorsByType (ms_ErrorStats s)) k = how_many (\<lambda>(b, c, t). t = k) (errors cs) \<and>
    sint (res_MaxGoroutineCount (ms_ResourceStats s)) = high_water (values_of goroutines_of cs) \<and>
    sint (cs_MaxConcurrentLocks (ms_ConcurrencyStats s)) = high_water (values_of locks_of cs) \<and>
    sint (cs_MaxQueueLength (ms_ConcurrencyStats s)) = high_water (values_of queue_of cs)"
  using error_counts [of cs] high_waters [of cs] unfolding Reset_is_new
  by (simp add: Metrics_GetStats_def Let_def)

end
