(* ===== verification/MetricsPeak.thy ===== *)
theory MetricsPeak
  imports Metrics
begin

text \<open>
  The compare-and-swap loops of \<open>src/metrics.go\<close> (the same loop in \<open>RecordConcurrentLocks\<close>,
  \<open>RecordQueueLength\<close>, \<open>RecordMemoryUsage\<close>, \<open>RecordConnectionCount\<close> and \<open>RecordGoroutineCount\<close>), one
  atomic access at a time: any number of goroutines run the loop on one counter, in any
  interleaving. \<open>Metrics\<close> takes the loop as the single step \<open>cas_max\<close>; here that is justified.
\<close>

section \<open>The loop, one access at a time\<close>

text \<open>
  Where a goroutine that records \<open>n\<close> is: before \<open>LoadInt64\<close>, before \<open>CompareAndSwapInt64\<close> with the value
  it loaded, or past the loop.
\<close>

datatype cas_pc = AtLoad | AtSwap i64 | Left

fun cas_access :: "i64 \<Rightarrow> cas_pc \<Rightarrow> i64 \<Rightarrow> cas_pc \<times> i64" where
  "cas_access n AtLoad counter = (if sint n \<le> sint counter then Left else AtSwap counter, counter)"
| "cas_access n (AtSwap current) counter = (if counter = current then (Left, n) else (AtLoad, counter))"
| "cas_access n Left counter = (Left, counter)"

text \<open>A goroutine is its argument and its place; a schedule names who makes the next access.\<close>

type_synonym cas_state = "i64 \<times> (i64 \<times> cas_pc) list"

definition cas_step :: "nat \<Rightarrow> cas_state \<Rightarrow> cas_state" where
  "cas_step i = (\<lambda>(counter, gs).
     if i < length gs then
       (case gs ! i of (n, pc) \<Rightarrow> case cas_access n pc counter of (pc', counter') \<Rightarrow> (counter', gs[i := (n, pc')]))
     else (counter, gs))"

definition cas_run :: "nat list \<Rightarrow> cas_state \<Rightarrow> cas_state" where "cas_run sched s = fold cas_step sched s"

definition all_left :: "cas_state \<Rightarrow> bool" where "all_left s \<longleftrightarrow> list_all (\<lambda>(n, pc). pc = Left) (snd s)"

definition entering :: "i64 list \<Rightarrow> (i64 \<times> cas_pc) list" where "entering ns = map (\<lambda>n. (n, AtLoad)) ns"

text \<open>
  The invariant: the counter is the first value or a recorded one, never below the first value or the
  value of a goroutine that has left; a value about to be swapped out is below the new one.
\<close>

definition cas_inv :: "i64 \<Rightarrow> i64 list \<Rightarrow> cas_state \<Rightarrow> bool" where
  "cas_inv first ns = (\<lambda>(counter, gs). map fst gs = ns \<and> counter \<in> insert first (set ns) \<and> sint first \<le> sint counter \<and>
     (\<forall>(n, pc) \<in> set gs. case pc of Left \<Rightarrow> sint n \<le> sint counter | AtSwap c \<Rightarrow> sint c < sint n | AtLoad \<Rightarrow> True))"

lemma cas_inv_entering: "cas_inv first ns (first, entering ns)"
  by (auto simp: cas_inv_def entering_def comp_def)

lemma cas_access_inv:
  assumes "cas_access n pc counter = (pc', counter')"
    and "case pc of Left \<Rightarrow> sint n \<le> sint counter | AtSwap c \<Rightarrow> sint c < sint n | AtLoad \<Rightarrow> True"
  shows "sint counter \<le> sint counter' \<and> counter' \<in> {counter, n} \<and>
    (case pc' of Left \<Rightarrow> sint n \<le> sint counter' | AtSwap c \<Rightarrow> sint c < sint n | AtLoad \<Rightarrow> True)"
  using assms by (cases pc) (auto split: if_splits)

lemma cas_inv_step:
  assumes "cas_inv first ns s"
  shows "cas_inv first ns (cas_step i s)"
proof -
  obtain counter gs where s: "s = (counter, gs)" by (cases s)
  show ?thesis
  proof (cases "i < length gs")
    case True
    obtain n pc where g: "gs ! i = (n, pc)" by (cases "gs ! i")
    obtain pc' counter' where a: "cas_access n pc counter = (pc', counter')" by (cases "cas_access n pc counter")
    have mem: "(n, pc) \<in> set gs" using True g by (metis nth_mem)
    then have n: "n \<in> set ns" using assms s by (force simp: cas_inv_def)
    have acc: "sint counter \<le> sint counter'" "counter' \<in> {counter, n}"
      "case pc' of Left \<Rightarrow> sint n \<le> sint counter' | AtSwap c \<Rightarrow> sint c < sint n | AtLoad \<Rightarrow> True"
      using cas_access_inv [OF a] assms mem s by (force simp: cas_inv_def)+
    have keys: "map fst (gs[i := (n, pc')]) = map fst gs"
      using True g by (simp add: map_update list_update_same_conv)
    have "case y of Left \<Rightarrow> sint x \<le> sint counter' | AtSwap c \<Rightarrow> sint c < sint x | AtLoad \<Rightarrow> True"
      if "(x, y) \<in> set (gs[i := (n, pc')])" for x y
    proof (cases "(x, y) = (n, pc')")
      case False
      with that set_update_subset_insert [of gs i "(n, pc')"] have "(x, y) \<in> set gs" by blast
      with assms s acc(1) show ?thesis by (force simp: cas_inv_def split: cas_pc.splits)
    qed (use acc(3) in auto)
    with assms s True g a acc(1,2) n keys show ?thesis
      by (auto simp: cas_inv_def cas_step_def)
  qed (use assms s in \<open>simp add: cas_step_def\<close>)
qed

lemma cas_inv_run: "cas_inv first ns s \<Longrightarrow> cas_inv first ns (cas_run sched s)"
  unfolding cas_run_def by (induction sched arbitrary: s) (simp_all add: cas_inv_step)

lemma cas_inv_left:
  assumes "cas_inv first ns s" and "all_left s"
  shows "sint (fst s) = fold max (map sint ns) (sint first)"
proof -
  obtain counter gs where s: "s = (counter, gs)" by (cases s)
  have "\<forall>n \<in> set ns. sint n \<le> sint counter" "counter \<in> insert first (set ns)" "sint first \<le> sint counter"
    using assms by (force simp: s cas_inv_def all_left_def list_all_iff)+
  then have "sint counter = Max (insert (sint first) (sint ` set ns))"
    by (intro Max_eqI [symmetric]) auto
  also have "\<dots> = fold max (map sint ns) (sint first)"
    using Max.set_eq_fold [of "sint first" "map sint ns"] by simp
  finally show ?thesis by (simp add: s)
qed

text \<open>Alone, a goroutine leaves within three accesses.\<close>

lemma cas_step_simps:
  "i < length gs \<Longrightarrow> cas_step i (counter, gs) =
     (snd (cas_access (fst (gs ! i)) (snd (gs ! i)) counter),
      gs[i := (fst (gs ! i), fst (cas_access (fst (gs ! i)) (snd (gs ! i)) counter))])"
  by (simp add: cas_step_def case_prod_beta)

lemma cas_alone:
  assumes "i < length gs"
  shows "\<exists>counter'. cas_run [i, i, i] (counter, gs) = (counter', gs[i := (fst (gs ! i), Left)])"
  using assms by (cases "snd (gs ! i)") (auto simp: cas_run_def cas_step_simps)

lemma cas_complete: "\<exists>sched. all_left (cas_run sched s)"
proof -
  have "\<exists>sched. length (snd (cas_run sched s)) = length (snd s) \<and>
      (\<forall>i < k. i < length (snd s) \<longrightarrow> snd (snd (cas_run sched s) ! i) = Left)" for k
  proof (induction k)
    case 0
    show ?case by (intro exI [of _ "[]"]) (simp add: cas_run_def)
  next
    case (Suc k)
    then obtain sched where sched: "length (snd (cas_run sched s)) = length (snd s)"
      "\<forall>i < k. i < length (snd s) \<longrightarrow> snd (snd (cas_run sched s) ! i) = Left" by blast
    show ?case
    proof (cases "k < length (snd s)")
      case True
      obtain counter gs where cg: "cas_run sched s = (counter, gs)" by (cases "cas_run sched s")
      with True sched(1) obtain counter' where "cas_run [k, k, k] (counter, gs) = (counter', gs[k := (fst (gs ! k), Left)])"
        using cas_alone [of k gs counter] by auto
      then have "cas_run (sched @ [k, k, k]) s = (counter', gs[k := (fst (gs ! k), Left)])"
        using cg by (simp add: cas_run_def)
      with sched True cg show ?thesis
        by (intro exI [of _ "sched @ [k, k, k]"]) (auto simp: nth_list_update less_Suc_eq)
    next
      case False
      with sched show ?thesis by (intro exI [of _ sched]) (auto simp: less_Suc_eq)
    qed
  qed
  from this [of "length (snd s)"] obtain sched where "\<forall>i < length (snd (cas_run sched s)). snd (snd (cas_run sched s) ! i) = Left"
    by metis
  then have "all_left (cas_run sched s)" by (auto simp: all_left_def list_all_length case_prod_beta)
  then show ?thesis ..
qed

lemma fold_cas_max: "sint (fold cas_max ns first) = fold max (map sint ns) (sint first)"
  by (induction ns arbitrary: first) (simp_all add: sint_cas_max)

section \<open>Properties\<close>

text \<open>
  C34: peaks under concurrency. Let any number of goroutines record values on one high-water mark at
  the same time, their loads and swaps interleaved in any way. Whenever all of them have
  returned, the mark is what recording the values one after the other gives, in any order, the largest
  of the first value and the recorded ones: no value is lost. And whatever has happened so far, the goroutines
  can all be brought to the end: the loop has no state it cannot leave.
\<close>
theorem concurrent_peak_exact:
  "(all_left (cas_run sched (first, entering ns)) \<longrightarrow>
      fst (cas_run sched (first, entering ns)) = fold cas_max ns first) \<and>
   (\<exists>more. all_left (cas_run (sched @ more) (first, entering ns)))"
proof
  show "all_left (cas_run sched (first, entering ns)) \<longrightarrow>
      fst (cas_run sched (first, entering ns)) = fold cas_max ns first"
    using cas_inv_left [OF cas_inv_run [OF cas_inv_entering], of sched first ns]
      fold_cas_max [of ns first] by (metis signed_word_eqI)
  show "\<exists>more. all_left (cas_run (sched @ more) (first, entering ns))"
    using cas_complete [of "cas_run sched (first, entering ns)"] by (simp add: cas_run_def)
qed

theorem concurrent_peak_exact_witness:
  "fst (cas_run [0, 1, 0, 1, 1, 1] (3, entering [5, 9])) = 9"
proof -
  have "all_left (cas_run [0, 1, 0, 1, 1, 1] (3, entering [5, 9]))"
    by (simp add: cas_run_def cas_step_def entering_def all_left_def)
  with concurrent_peak_exact [of "[0, 1, 0, 1, 1, 1]" 3 "[5, 9]"] show ?thesis by (simp add: cas_max_def)
qed

end
