(* ===== verification/MetricsWrapper.thy ===== *)
theory MetricsWrapper
  imports Interfaces Metrics
begin

text \<open>
  \<open>src/metrics_wrapper.go\<close>: a lock that passes every call on and records it. \<open>time.Now\<close> and
  \<open>runtime.NumGoroutine\<close> are the record \<open>mw_env\<close>; \<open>time.Since\<close> reads the clock again. A method is
  \<open>None\<close> when the call it passes on never returns, or when it records with metrics that are nil
  (a panic).
\<close>

record 'w mw_env =
  mr_now :: "'w \<Rightarrow> gotime \<times> 'w"
  mr_NumGoroutine :: "'w \<Rightarrow> i64 \<times> 'w"

type_synonym ('f, 'w) Metrics = "'f metric_call \<Rightarrow> 'w \<Rightarrow> 'w"

text \<open>The three wrappers differ in the type of the lock they hold.\<close>

record ('l, 'f, 'w) MetricsWrapper =
  mw_lock :: 'l
  mw_lockType :: string
  mw_backend :: string
  mw_metrics :: "('f, 'w) Metrics option"

type_synonym ('f, 'w) SimpleWrapper = "('w Lock, 'f, 'w) MetricsWrapper"
type_synonym ('f, 'w) RWWrapper = "('w RWLock, 'f, 'w) MetricsWrapper"
type_synonym ('f, 'w) FairWrapper = "('w FairLock, 'f, 'w) MetricsWrapper"

definition NewMetricsWrapper ::
    "('f, 'w) Metrics metrics_globals \<Rightarrow> 'l \<Rightarrow> string \<Rightarrow> string \<Rightarrow> ('f, 'w) Metrics option
       \<Rightarrow> ('l, 'f, 'w) MetricsWrapper" where
  "NewMetricsWrapper g lock lockType backend metrics =
     \<lparr>mw_lock = lock, mw_lockType = lockType, mw_backend = backend,
      mw_metrics = (case metrics of None \<Rightarrow> GetGlobalMetrics g | Some m \<Rightarrow> Some m)\<rparr>"

definition NewRWLockMetricsWrapper ::
    "('f, 'w) Metrics metrics_globals \<Rightarrow> 'w RWLock \<Rightarrow> string \<Rightarrow> ('f, 'w) Metrics option \<Rightarrow> ('f, 'w) RWWrapper" where
  "NewRWLockMetricsWrapper g lock backend metrics = NewMetricsWrapper g lock ''RWLock'' backend metrics"

definition NewFairLockMetricsWrapper ::
    "('f, 'w) Metrics metrics_globals \<Rightarrow> 'w FairLock \<Rightarrow> string \<Rightarrow> ('f, 'w) Metrics option \<Rightarrow> ('f, 'w) FairWrapper" where
  "NewFairLockMetricsWrapper g lock backend metrics = NewMetricsWrapper g lock ''FairLock'' backend metrics"

section \<open>Recording\<close>

text \<open>A call on the interface value \<open>w.metrics\<close>; on nil it panics.\<close>

definition emit :: "('l, 'f, 'w) MetricsWrapper \<Rightarrow> 'f metric_call \<Rightarrow> 'w \<Rightarrow> 'w option" where
  "emit w c s = map_option (\<lambda>m. m c s) (mw_metrics w)"

definition recordError :: "('l, 'f, 'w) MetricsWrapper \<Rightarrow> err \<Rightarrow> 'w \<Rightarrow> 'w option" where
  "recordError w e s =
     (case e of
        LockErr code msg sev ctx cause ts \<Rightarrow>
          emit w (RecordError (mw_lockType w) (mw_backend w) code (Severity_String sev)) s
      | _ \<Rightarrow> emit w (RecordError (mw_lockType w) (mw_backend w) ''UNKNOWN'' ''ERROR'') s)"

text \<open>The \<open>delta\<close> is not used: the number of goroutines is recorded instead.\<close>

definition updateConcurrentLocks :: "'w mw_env \<Rightarrow> ('l, 'f, 'w) MetricsWrapper \<Rightarrow> i64 \<Rightarrow> 'w \<Rightarrow> 'w option" where
  "updateConcurrentLocks E w delta s =
     (case mr_NumGoroutine E s of (goroutineCount, s') \<Rightarrow> emit w (RecordGoroutineCount goroutineCount) s')"

text \<open>
  The two shapes of the recording methods: those that return \<open>(bool, error)\<close>, of which the
  acquisitions update the concurrency, and those that return an \<open>error\<close>; \<open>mk\<close> is the call that
  records the operation, \<open>extra\<close> what is recorded besides.
\<close>

definition timed_try ::
    "'w mw_env \<Rightarrow> ('l, 'f, 'w) MetricsWrapper \<Rightarrow> (bool \<Rightarrow> duration \<Rightarrow> 'f metric_call) \<Rightarrow> bool
       \<Rightarrow> ('w \<Rightarrow> (bool \<times> err option) \<times> 'w) \<Rightarrow> 'w \<Rightarrow> ((bool \<times> err option) \<times> 'w) option" where
  "timed_try E w mk update inner s =
     (case mr_now E s of (start, s1) \<Rightarrow>
      case inner s1 of ((success, e), s2) \<Rightarrow>
      case mr_now E s2 of (stop, s3) \<Rightarrow>
        Option.bind (emit w (mk (success \<and> e = None) (time_sub stop start)) s3) (\<lambda>s4.
        Option.bind (case e of Some x \<Rightarrow> recordError w x s4 | None \<Rightarrow> Some s4) (\<lambda>s5.
        map_option (\<lambda>s6. ((success, e), s6))
          (if update \<and> success \<and> e = None then updateConcurrentLocks E w 1 s5 else Some s5))))"

definition timed_err ::
    "'w mw_env \<Rightarrow> ('l, 'f, 'w) MetricsWrapper \<Rightarrow> (bool \<Rightarrow> duration \<Rightarrow> 'f metric_call) \<Rightarrow> (duration \<Rightarrow> 'f metric_call list)
       \<Rightarrow> i64 \<Rightarrow> ('w \<Rightarrow> (err option \<times> 'w) option) \<Rightarrow> 'w \<Rightarrow> (err option \<times> 'w) option" where
  "timed_err E w mk extra delta inner s =
     (case mr_now E s of (start, s1) \<Rightarrow>
        Option.bind (inner s1) (\<lambda>(e, s2).
        (case mr_now E s2 of (stop, s3) \<Rightarrow>
          Option.bind (emit w (mk (e = None) (time_sub stop start)) s3) (\<lambda>s4.
          Option.bind (fold (\<lambda>c x. Option.bind x (emit w c)) (extra (time_sub stop start)) (Some s4)) (\<lambda>s5.
          map_option (\<lambda>s6. (e, s6))
            (case e of Some x \<Rightarrow> recordError w x s5 | None \<Rightarrow> updateConcurrentLocks E w delta s5))))))"

section \<open>The simple wrapper\<close>

definition MW_TryLock where
  "MW_TryLock E (w :: ('f, 'w) SimpleWrapper) opts =
     timed_try E w (RecordLockTryAcquire (mw_lockType w) (mw_backend w)) True (lk_TryLock (mw_lock w) opts)"

definition MW_Lock where
  "MW_Lock E (w :: ('f, 'w) SimpleWrapper) opts =
     timed_err E w (RecordLockAcquire (mw_lockType w) (mw_backend w)) (\<lambda>d. []) 1 (lk_Lock (mw_lock w) opts)"

definition MW_Unlock where
  "MW_Unlock E (w :: ('f, 'w) SimpleWrapper) =
     timed_err E w (RecordLockRelease (mw_lockType w) (mw_backend w)) (\<lambda>d. []) (- 1) (\<lambda>s. Some (lk_Unlock (mw_lock w) s))"

definition MW_Extend where
  "MW_Extend E (w :: ('f, 'w) SimpleWrapper) ttl =
     timed_try E w (RecordLockExtend (mw_lockType w) (mw_backend w)) False (lk_Extend (mw_lock w) ttl)"

definition MW_IsLocked where "MW_IsLocked (w :: ('f, 'w) SimpleWrapper) = lk_IsLocked (mw_lock w)"
definition MW_GetTTL where "MW_GetTTL (w :: ('f, 'w) SimpleWrapper) = lk_GetTTL (mw_lock w)"
definition MW_GetKey where "MW_GetKey (w :: ('f, 'w) SimpleWrapper) = lk_GetKey (mw_lock w)"
definition MW_GetValue where "MW_GetValue (w :: ('f, 'w) SimpleWrapper) = lk_GetValue (mw_lock w)"

section \<open>The read-write wrapper\<close>

definition MRW_RLock where
  "MRW_RLock E (w :: ('f, 'w) RWWrapper) opts =
     timed_err E w (RecordLockAcquire (mw_lockType w @ '':Read'') (mw_backend w)) (\<lambda>d. []) 1 (ri_RLock (mw_lock w) opts)"

definition MRW_TryRLock where
  "MRW_TryRLock E (w :: ('f, 'w) RWWrapper) opts =
     timed_try E w (RecordLockTryAcquire (mw_lockType w @ '':Read'') (mw_backend w)) True (ri_TryRLock (mw_lock w) opts)"

definition MRW_RUnlock where
  "MRW_RUnlock E (w :: ('f, 'w) RWWrapper) =
     timed_err E w (RecordLockRelease (mw_lockType w @ '':Read'') (mw_backend w)) (\<lambda>d. []) (- 1)
       (\<lambda>s. Some (ri_RUnlock (mw_lock w) s))"

definition MRW_WLock where
  "MRW_WLock E (w :: ('f, 'w) RWWrapper) opts =
     timed_err E w (RecordLockAcquire (mw_lockType w @ '':Write'') (mw_backend w)) (\<lambda>d. []) 1 (ri_WLock (mw_lock w) opts)"

definition MRW_TryWLock where
  "MRW_TryWLock E (w :: ('f, 'w) RWWrapper) opts =
     timed_try E w (RecordLockTryAcquire (mw_lockType w @ '':Write'') (mw_backend w)) True (ri_TryWLock (mw_lock w) opts)"

definition MRW_WUnlock where
  "MRW_WUnlock E (w :: ('f, 'w) RWWrapper) =
     timed_err E w (RecordLockRelease (mw_lockType w @ '':Write'') (mw_backend w)) (\<lambda>d. []) (- 1)
       (\<lambda>s. Some (ri_WUnlock (mw_lock w) s))"

text \<open>Counters are recorded as queue lengths, when there is no error.\<close>

definition counted ::
    "('l, 'f, 'w) MetricsWrapper \<Rightarrow> string \<Rightarrow> ('w \<Rightarrow> (i64 \<times> err option) \<times> 'w) \<Rightarrow> 'w \<Rightarrow> ((i64 \<times> err option) \<times> 'w) option" where
  "counted w lockType inner s =
     (case inner s of ((n, e), s1) \<Rightarrow>
        map_option (\<lambda>s2. ((n, e), s2))
          (if e = None then emit w (RecordQueueLength lockType (mw_backend w) n) s1 else Some s1))"

definition MRW_GetReadCount where
  "MRW_GetReadCount (w :: ('f, 'w) RWWrapper) = counted w (mw_lockType w @ '':Read'') (ri_GetReadCount (mw_lock w))"

definition MRW_IsWriteLocked where "MRW_IsWriteLocked (w :: ('f, 'w) RWWrapper) = ri_IsWriteLocked (mw_lock w)"
definition MRW_GetKey where "MRW_GetKey (w :: ('f, 'w) RWWrapper) = ri_GetKey (mw_lock w)"

section \<open>The fair wrapper\<close>

definition MF_TryLock where
  "MF_TryLock E (w :: ('f, 'w) FairWrapper) opts =
     timed_try E w (RecordLockTryAcquire (mw_lockType w) (mw_backend w)) True (lk_TryLock (mw_lock w) opts)"

definition MF_Lock where
  "MF_Lock E (w :: ('f, 'w) FairWrapper) opts =
     timed_err E w (RecordLockAcquire (mw_lockType w) (mw_backend w))
       (\<lambda>d. [RecordWaitTime (mw_lockType w) (mw_backend w) d]) 1 (lk_Lock (mw_lock w) opts)"

definition MF_Unlock where
  "MF_Unlock E (w :: ('f, 'w) FairWrapper) =
     timed_err E w (RecordLockRelease (mw_lockType w) (mw_backend w)) (\<lambda>d. []) (- 1) (\<lambda>s. Some (lk_Unlock (mw_lock w) s))"

definition MF_Extend where
  "MF_Extend E (w :: ('f, 'w) FairWrapper) ttl =
     timed_try E w (RecordLockExtend (mw_lockType w) (mw_backend w)) False (lk_Extend (mw_lock w) ttl)"

definition MF_IsLocked where "MF_IsLocked (w :: ('f, 'w) FairWrapper) = lk_IsLocked (mw_lock w)"
definition MF_GetTTL where "MF_GetTTL (w :: ('f, 'w) FairWrapper) = lk_GetTTL (mw_lock w)"
definition MF_GetKey where "MF_GetKey (w :: ('f, 'w) FairWrapper) = lk_GetKey (mw_lock w)"
definition MF_GetValue where "MF_GetValue (w :: ('f, 'w) FairWrapper) = lk_GetValue (mw_lock w)"

definition MF_GetQueueLength where
  "MF_GetQueueLength (w :: ('f, 'w) FairWrapper) = counted w (mw_lockType w) (fi_GetQueueLength (mw_lock w))"

definition MF_GetQueuePosition where "MF_GetQueuePosition (w :: ('f, 'w) FairWrapper) = fi_GetQueuePosition (mw_lock w)"
definition MF_GetQueueInfo where "MF_GetQueueInfo (w :: ('f, 'w) FairWrapper) = fi_GetQueueInfo (mw_lock w)"


section \<open>A wrapped lock with the default metrics\<close>

text \<open>
  The lock and the metrics share nothing: the world is a pair, the lock, the clock and the number
  of goroutines live in the first component, the counters in the second.
\<close>

definition lift_env :: "'x mw_env \<Rightarrow> ('x \<times> 'm) mw_env" where
  "lift_env E = \<lparr>mr_now = (\<lambda>(x, m). case mr_now E x of (t, x') \<Rightarrow> (t, (x', m))),
     mr_NumGoroutine = (\<lambda>(x, m). case mr_NumGoroutine E x of (n, x') \<Rightarrow> (n, (x', m)))\<rparr>"

definition lift_op :: "('x \<Rightarrow> 'r \<times> 'x) \<Rightarrow> 'x \<times> 'm \<Rightarrow> 'r \<times> ('x \<times> 'm)" where
  "lift_op f = (\<lambda>(x, m). case f x of (r, x') \<Rightarrow> (r, (x', m)))"

definition lift_lock :: "'x Lock \<Rightarrow> ('x \<times> 'm) Lock" where
  "lift_lock L = \<lparr>lk_Lock = (\<lambda>opts (x, m). map_option (\<lambda>(e, x'). (e, (x', m))) (lk_Lock L opts x)),
     lk_TryLock = (\<lambda>opts. lift_op (lk_TryLock L opts)), lk_Unlock = lift_op (lk_Unlock L),
     lk_Extend = (\<lambda>ttl. lift_op (lk_Extend L ttl)), lk_IsLocked = lift_op (lk_IsLocked L),
     lk_GetTTL = lift_op (lk_GetTTL L), lk_GetKey = (\<lambda>(x, m). lk_GetKey L x), lk_GetValue = (\<lambda>(x, m). lk_GetValue L x)\<rparr>"

definition default_impl :: "('f, 'x \<times> 'f DefaultMetrics) Metrics" where
  "default_impl c = (\<lambda>(x, m). (x, default_metrics c m))"

definition wrap :: "'x Lock \<Rightarrow> string \<Rightarrow> string \<Rightarrow> ('f, 'x \<times> 'f DefaultMetrics) SimpleWrapper" where
  "wrap L lockType backend =
     NewMetricsWrapper (metrics_init default_impl) (lift_lock L) lockType backend None"

datatype lock_call = CLock "LockOption list" | CTryLock "LockOption list" | CUnlock | CExtend duration

text \<open>A call on the lock itself, and on the wrapper; an \<open>error\<close> result counts as \<open>(True, error)\<close>.\<close>

fun plain_call :: "'w Lock \<Rightarrow> lock_call \<Rightarrow> 'w \<Rightarrow> ((bool \<times> err option) \<times> 'w) option" where
  "plain_call L (CLock opts) s = map_option (\<lambda>(e, s'). ((True, e), s')) (lk_Lock L opts s)"
| "plain_call L (CTryLock opts) s = Some (lk_TryLock L opts s)"
| "plain_call L CUnlock s = (case lk_Unlock L s of (e, s') \<Rightarrow> Some ((True, e), s'))"
| "plain_call L (CExtend ttl) s = Some (lk_Extend L ttl s)"

fun wrapped_call :: "'w mw_env \<Rightarrow> ('f, 'w) SimpleWrapper \<Rightarrow> lock_call \<Rightarrow> 'w \<Rightarrow> ((bool \<times> err option) \<times> 'w) option" where
  "wrapped_call E w (CLock opts) s = map_option (\<lambda>(e, s'). ((True, e), s')) (MW_Lock E w opts s)"
| "wrapped_call E w (CTryLock opts) s = MW_TryLock E w opts s"
| "wrapped_call E w CUnlock s = map_option (\<lambda>(e, s'). ((True, e), s')) (MW_Unlock E w s)"
| "wrapped_call E w (CExtend ttl) s = MW_Extend E w ttl s"

fun run_calls :: "('c \<Rightarrow> 'w \<Rightarrow> ('r \<times> 'w) option) \<Rightarrow> 'c list \<Rightarrow> 'w \<Rightarrow> ('r list \<times> 'w) option" where
  "run_calls f [] s = Some ([], s)"
| "run_calls f (c # cs) s = Option.bind (f c s) (\<lambda>(r, s1). map_option (\<lambda>(rs, s2). (r # rs, s2)) (run_calls f cs s1))"

text \<open>The outcomes of the calls of one kind: granted or done without an error.\<close>

definition outcomes :: "(lock_call \<Rightarrow> bool) \<Rightarrow> lock_call list \<Rightarrow> (bool \<times> err option) list \<Rightarrow> bool list" where
  "outcomes P cs rs = map (\<lambda>(c, b, e). b \<and> e = None) (filter (\<lambda>(c, r). P c) (zip cs rs))"

fun is_Lock where "is_Lock (CLock opts) = True" | "is_Lock c = False"
fun is_TryLock where "is_TryLock (CTryLock opts) = True" | "is_TryLock c = False"
fun is_Unlock where "is_Unlock CUnlock = True" | "is_Unlock c = False"
fun is_Extend where "is_Extend (CExtend ttl) = True" | "is_Extend c = False"

text \<open>What wrapped calls record.\<close>

definition logs :: "lock_call list \<Rightarrow> (bool \<times> err option) list \<Rightarrow> 'f metric_call list \<Rightarrow> bool" where
  "logs cs rs ms \<longleftrightarrow>
     map fst (observed acquire_obs ms) = outcomes is_Lock cs rs \<and>
     map fst (observed tryAcquire_obs ms) = outcomes is_TryLock cs rs \<and>
     map fst (observed release_obs ms) = outcomes is_Unlock cs rs \<and>
     map fst (observed extend_obs ms) = outcomes is_Extend cs rs \<and>
     length (errors ms) = length (filter (\<lambda>(b, e). e \<noteq> None) rs) \<and> values_of locks_of ms = []"

lemma wrap_simps [simp]:
  "emit (wrap L lt be) c (x, m) = Some (x, default_metrics c m)"
  "mw_lock (wrap L lt be) = lift_lock L" "mw_lockType (wrap L lt be) = lt" "mw_backend (wrap L lt be) = be"
  by (simp_all add: emit_def wrap_def NewMetricsWrapper_def GetGlobalMetrics_def metrics_init_def default_impl_def)

definition error_call :: "string \<Rightarrow> string \<Rightarrow> err \<Rightarrow> 'f metric_call" where
  "error_call lt be e = (case e of
       LockErr code msg sev ctx cause ts \<Rightarrow> RecordError lt be code (Severity_String sev)
     | _ \<Rightarrow> RecordError lt be ''UNKNOWN'' ''ERROR'')"

lemma error_call_obs:
  "acquire_obs (error_call lt be e) = None" "release_obs (error_call lt be e) = None"
  "extend_obs (error_call lt be e) = None" "tryAcquire_obs (error_call lt be e) = None"
  "locks_of (error_call lt be e) = None" "error_of (error_call lt be e) = Some (be, case e of LockErr code msg sev ctx cause ts \<Rightarrow> (code, Severity_String sev)
     | _ \<Rightarrow> (''UNKNOWN'', ''ERROR''))"
  by (cases e; simp add: error_call_def)+

lemma recordError_wrap:
  "recordError (wrap L lt be) e (x, m) = Some (x, default_metrics (error_call lt be e) m)"
  by (cases e) (simp_all add: recordError_def error_call_def)

lemma wrapped_call_logs:
  assumes now: "\<And>x. snd (mr_now E x) = x" and ng: "\<And>x. snd (mr_NumGoroutine E x) = x"
    and plain: "plain_call L c x = Some (r, x')"
  shows "\<exists>ms :: 'f metric_call list. logs [c] [r] ms \<and>
    (\<forall>m. wrapped_call (lift_env E) (wrap L lt be) c (x, m) = Some (r, (x', record_all ms m)))"
proof -
  have env: "mr_now (lift_env E) (y, m) = (fst (mr_now E y), (y, m))"
    "mr_NumGoroutine (lift_env E) (y, m) = (fst (mr_NumGoroutine E y), (y, m))" for y and m :: "'f DefaultMetrics"
    using now [of y] ng [of y] by (simp_all add: lift_env_def case_prod_beta)
  let ?d = "time_sub (fst (mr_now E x')) (fst (mr_now E x))"
  obtain b e where r: "r = (b, e)" by (cases r)
  let ?err = "case e of None \<Rightarrow> [] | Some y \<Rightarrow> [error_call lt be y]"
  let ?ng = "RecordGoroutineCount (fst (mr_NumGoroutine E x'))"
  define ms :: "'f metric_call list" where "ms = (case c of
      CLock opts \<Rightarrow> RecordLockAcquire lt be (e = None) ?d # ?err @ (if e = None then [?ng] else [])
    | CTryLock opts \<Rightarrow> RecordLockTryAcquire lt be (b \<and> e = None) ?d # ?err @ (if b \<and> e = None then [?ng] else [])
    | CUnlock \<Rightarrow> RecordLockRelease lt be (e = None) ?d # ?err @ (if e = None then [?ng] else [])
    | CExtend ttl \<Rightarrow> RecordLockExtend lt be (b \<and> e = None) ?d # ?err)"
  note helpers = env lift_lock_def lift_op_def timed_err_def timed_try_def recordError_wrap
    updateConcurrentLocks_def record_all_def
  have "wrapped_call (lift_env E) (wrap L lt be) c (x, m) = Some (r, (x', record_all ms m))" for m :: "'f DefaultMetrics"
    using plain
    by (cases c; cases e)
       (auto simp: r ms_def MW_Lock_def MW_TryLock_def MW_Unlock_def MW_Extend_def helpers split: prod.splits)
  moreover have "logs [c] [r] ms"
  proof -
    have b: "b" if "(\<exists>opts. c = CLock opts) \<or> c = CUnlock"
      using plain that by (auto simp: r split: prod.splits)
    show ?thesis
      using b
      by (cases c; cases e)
         (simp_all add: r logs_def ms_def outcomes_def observed_def errors_def values_of_def map_filter_simps error_call_obs)
  qed
  ultimately show ?thesis by blast
qed

lemma map_filter_append: "List.map_filter f (xs @ ys) = List.map_filter f xs @ List.map_filter f ys"
  by (simp add: map_filter_def)

lemma logs_append:
  assumes "logs [c] [r] ms" and "logs cs rs ms'"
  shows "logs (c # cs) (r # rs) (ms @ ms')"
  using assms by (auto simp: logs_def observed_def errors_def values_of_def outcomes_def map_filter_append)

lemma wrapped_run_logs:
  assumes now: "\<And>x. snd (mr_now E x) = x" and ng: "\<And>x. snd (mr_NumGoroutine E x) = x"
    and "run_calls (plain_call L) cs x = Some (rs, x')"
  shows "\<exists>ms :: 'f metric_call list. logs cs rs ms \<and>
    (\<forall>m. run_calls (wrapped_call (lift_env E) (wrap L lt be)) cs (x, m) = Some (rs, (x', record_all ms m)))"
  using assms(3)
proof (induction cs arbitrary: x rs)
  case Nil
  then show ?case
    by (intro exI [of _ "[]"]) (simp add: logs_def observed_def errors_def values_of_def outcomes_def record_all_def map_filter_simps)
next
  case (Cons c cs)
  then obtain r x1 rs1 where c: "plain_call L c x = Some (r, x1)" and rs: "rs = r # rs1"
    and rest: "run_calls (plain_call L) cs x1 = Some (rs1, x')"
    by (auto simp: bind_eq_Some_conv)
  obtain ms1 :: "'f metric_call list" where ms1: "logs [c] [r] ms1"
    "\<And>m. wrapped_call (lift_env E) (wrap L lt be) c (x, m) = Some (r, (x1, record_all ms1 m))"
    using wrapped_call_logs [where E = E and L = L and lt = lt and be = be, OF now ng c] by blast
  obtain ms2 :: "'f metric_call list" where ms2: "logs cs rs1 ms2"
    "\<And>m. run_calls (wrapped_call (lift_env E) (wrap L lt be)) cs (x1, m) = Some (rs1, (x', record_all ms2 m))"
    using Cons.IH [OF rest] by blast
  show ?case
    using ms1(2) ms2(2) logs_append [OF ms1(1) ms2(1)]
    by (intro exI [of _ "ms1 @ ms2"]) (simp add: rs record_all_def)
qed

lemma currentLocks_untouched:
  "values_of locks_of ms = [] \<Longrightarrow> currentLocks (record_all ms m) = currentLocks m"
proof (induction ms rule: rev_induct)
  case (snoc c ms)
  then show ?case
    by (cases c) (simp_all add: record_all_snoc values_of_snoc dm_defs Let_def)
qed (simp add: record_all_def)

lemma tally_flags:
  "map fst os = bs \<Longrightarrow> oc_count (tally os) = of_nat (length bs) \<and> oc_success (tally os) = of_nat (length (filter id bs)) \<and>
     oc_failed (tally os) = of_nat (length (filter Not bs))"
  by (auto simp: tally_def filter_map comp_def)

lemma sint_zero: "sint (w :: i64) = 0 \<Longrightarrow> w = 0"
  by (metis sint_0 signed_word_eqI)

section \<open>Properties\<close>

text \<open>
  C22: the wrapper is transparent and its statistics are true. Take any lock, wrapped with the default
  metrics (shared with nothing), and any list of calls through the wrapper. The answers and the
  lock's final state are those of the same calls on the lock itself; and afterwards \<open>GetStats\<close>
  reports for each operation how many calls were made and how many succeeded, and as many errors
  as calls failed with one. The number of concurrent locks, which the code means to track, stays
  0 whatever is locked.
\<close>
theorem metrics_wrapper_transparent:
  fixes L :: "'x Lock" and F :: "'f float_ops"
  assumes "\<And>x. snd (mr_now E x) = x" and "\<And>x. snd (mr_NumGoroutine E x) = x"
    and "run_calls (plain_call L) cs x = Some (rs, x')"
  shows "\<exists>m. run_calls (wrapped_call (lift_env E) (wrap L lockType backend)) cs (x, NewDefaultMetrics) = Some (rs, (x', m)) \<and>
    (\<forall>(st, P) \<in> {(lo_Acquire (LockOperations (Metrics_GetStats F m)), is_Lock),
        (lo_TryAcquire (LockOperations (Metrics_GetStats F m)), is_TryLock),
        (lo_Release (LockOperations (Metrics_GetStats F m)), is_Unlock),
        (lo_Extend (LockOperations (Metrics_GetStats F m)), is_Extend)}.
      os_Count st = of_nat (length (outcomes P cs rs)) \<and>
      os_Success st = of_nat (length (filter id (outcomes P cs rs)))) \<and>
    es_TotalErrors (ms_ErrorStats (Metrics_GetStats F m)) = of_nat (length (filter (\<lambda>(b, e). e \<noteq> None) rs)) \<and>
    cs_CurrentLocks (ms_ConcurrencyStats (Metrics_GetStats F m)) = 0 \<and>
    cs_MaxConcurrentLocks (ms_ConcurrencyStats (Metrics_GetStats F m)) = 0"
proof -
  obtain ms :: "'f metric_call list" where ms: "logs cs rs ms"
    and run: "run_calls (wrapped_call (lift_env E) (wrap L lockType backend)) cs (x, NewDefaultMetrics) =
      Some (rs, (x', record_all ms NewDefaultMetrics))"
    using wrapped_run_logs [where E = E and L = L and lt = lockType and be = backend, OF assms] by blast
  have "maxConcurrentLocks (record_all ms NewDefaultMetrics) = 0"
    using high_waters [of ms] ms by (intro sint_zero) (simp add: logs_def high_water_def)
  moreover have "currentLocks (record_all ms NewDefaultMetrics) = 0"
    using currentLocks_untouched [of ms NewDefaultMetrics] ms by (simp add: logs_def NewDefaultMetrics_def)
  moreover have "totalErrors (record_all ms NewDefaultMetrics) = of_nat (length (filter (\<lambda>(b, e). e \<noteq> None) rs))"
    using error_counts [of ms] ms by (simp add: logs_def)
  moreover have "map fst (observed acquire_obs ms) = outcomes is_Lock cs rs"
    "map fst (observed tryAcquire_obs ms) = outcomes is_TryLock cs rs"
    "map fst (observed release_obs ms) = outcomes is_Unlock cs rs"
    "map fst (observed extend_obs ms) = outcomes is_Extend cs rs" using ms by (simp_all add: logs_def)
  note flags = this [THEN tally_flags]
  ultimately show ?thesis
    using run by (intro exI [of _ "record_all ms NewDefaultMetrics"])
       (simp add: Metrics_GetStats_def counters_tally oc_stats_def flags)
qed

theorem metrics_wrapper_transparent_witness:
  "\<exists>m. run_calls (wrapped_call (lift_env \<lparr>mr_now = (\<lambda>x. (0, x)), mr_NumGoroutine = (\<lambda>x. (7, x))\<rparr>)
      (wrap \<lparr>lk_Lock = (\<lambda>opts h. Some (None, True)), lk_TryLock = (\<lambda>opts h. ((\<not> h, None), True)),
         lk_Unlock = (\<lambda>h. (None, False)), lk_Extend = (\<lambda>ttl h. ((h, None), h)), lk_IsLocked = (\<lambda>h. ((h, None), h)),
         lk_GetTTL = (\<lambda>h. ((0, None), h)), lk_GetKey = (\<lambda>h. ''k''), lk_GetValue = (\<lambda>h. ''v'')\<rparr> ''SimpleLock'' ''Local''))
      [CTryLock [], CTryLock [], CUnlock] (False, NewDefaultMetrics :: int DefaultMetrics) =
    Some ([(True, None), (False, None), (True, None)], (False, m)) \<and> currentLocks m = 0"
proof -
  let ?L = "\<lparr>lk_Lock = (\<lambda>opts h. Some (None, True)), lk_TryLock = (\<lambda>opts h. ((\<not> h, None), True)),
      lk_Unlock = (\<lambda>h. (None, False)), lk_Extend = (\<lambda>ttl h. ((h, None), h)), lk_IsLocked = (\<lambda>h. ((h, None), h)),
      lk_GetTTL = (\<lambda>h. ((0, None), h)), lk_GetKey = (\<lambda>h. ''k''), lk_GetValue = (\<lambda>h. ''v'')\<rparr> :: bool Lock"
  let ?E = "\<lparr>mr_now = (\<lambda>x. (0, x)), mr_NumGoroutine = (\<lambda>x. (7, x))\<rparr> :: bool mw_env"
  have "run_calls (plain_call ?L) [CTryLock [], CTryLock [], CUnlock] False =
      Some ([(True, None), (False, None), (True, None)], False)" by simp
  from metrics_wrapper_transparent [where E = ?E and L = ?L and lockType = "''SimpleLock''" and backend = "''Local''", OF _ _ this]
  show ?thesis by (auto simp: Metrics_GetStats_def)
qed

end
