(* ===== verification/Watchdog.thy ===== *)
theory Watchdog
  imports RedisSimple Interfaces
begin

text \<open>
  \<open>src/watchdog.go\<close>: automatic renewal. A watchdog is a state machine: its methods, and the steps
  of the goroutine that \<open>Start\<close> spawns, interleave in any order. The state holds what the
  goroutines share - the running flag, the context, the channel \<open>done\<close> - and how many goroutines stand at
  each place: in \<open>Start\<close> and in \<open>Stop\<close>, which hold no mutex between their accesses, about to begin the loop,
  and in the loop; those at one place are all alike, for they read the context from the shared
  field. A panic ends the process.
\<close>

section \<open>The watchdog\<close>

definition msgWatchdogRunning :: string where
  "msgWatchdogRunning = utf8 [231, 156, 139, 233, 151, 168, 231, 139, 151, 229, 183, 178, 231, 187, 143,
     229, 156, 168, 232, 191, 144, 232, 161, 140]"
definition msgWatchdogNotRunning :: string where
  "msgWatchdogNotRunning = utf8 [231, 156, 139, 233, 151, 168, 231, 139, 151, 230, 156, 170, 229, 156, 168,
     232, 191, 144, 232, 161, 140]"
definition msgWatchdogExists :: string where
  "msgWatchdogExists = utf8 [231, 156, 139, 233, 151, 168, 231, 139, 151, 229, 183, 178, 229, 173, 152, 229,
     156, 168, 228, 184, 148, 230, 173, 163, 229, 156, 168, 232, 191, 144, 232, 161, 140]"
definition msgWatchdogMissing :: string where
  "msgWatchdogMissing = utf8 [231, 156, 139, 233, 151, 168, 231, 139, 151, 228, 184, 141, 229, 173, 152, 229,
     156, 168]"

definition watchdog_error :: "ErrorCode \<Rightarrow> string \<Rightarrow> string \<Rightarrow> gotime \<Rightarrow> err" where
  "watchdog_error code msg key ts = WithContext ''key'' (CStr key) (NewLockError code msg SeverityWarning ts)"

record WatchdogStats =
  ws_StartTime :: gotime
  ws_ExtendCount :: i64
  ws_FailedExtends :: i64
  ws_LastExtendTime :: gotime
  ws_LastExtendResult :: bool
  ws_Interval :: duration

text \<open>
  \<open>wd_ctx\<close>: whether the context of the last \<open>Start\<close> is done, \<open>None\<close> before the first; \<open>wd_done\<close>: the
  channel is closed; \<open>wd_key\<close> is the key of the lock it renews. The counts: in \<open>Start\<close>, \<open>wd_starting\<close> past the
  compare-and-swap, \<open>wd_contexted\<close> past the assignment of the context, \<open>wd_reset\<close> past the reset of the
  statistics; \<open>wd_spawned\<close> before and \<open>wd_looping\<close> in the loop; in \<open>Stop\<close>, \<open>wd_stopping\<close> past the
  compare-and-swap and \<open>wd_waiting\<close> waiting for \<open>done\<close>.
\<close>

record WatchdogImpl =
  wd_key :: string
  wd_interval :: duration
  wd_ttl :: duration
  wd_running :: i32
  wd_ctx :: "bool option"
  wd_done :: bool
  wd_stats :: WatchdogStats
  wd_starting :: nat
  wd_contexted :: nat
  wd_reset :: nat
  wd_spawned :: nat
  wd_looping :: nat
  wd_stopping :: nat
  wd_waiting :: nat
  wd_panic :: "string option"

definition NewWatchdog :: "string \<Rightarrow> duration \<Rightarrow> duration \<Rightarrow> WatchdogImpl" where
  "NewWatchdog key interval ttl =
     \<lparr>wd_key = key, wd_interval = interval, wd_ttl = ttl, wd_running = 0, wd_ctx = None, wd_done = False,
      wd_stats = \<lparr>ws_StartTime = zero_time, ws_ExtendCount = 0, ws_FailedExtends = 0,
        ws_LastExtendTime = zero_time, ws_LastExtendResult = False, ws_Interval = interval\<rparr>,
      wd_starting = 0, wd_contexted = 0, wd_reset = 0, wd_spawned = 0, wd_looping = 0,
      wd_stopping = 0, wd_waiting = 0, wd_panic = None\<rparr>"

text \<open>
  The accesses \<open>Start\<close> makes one after the other: the compare-and-swap, the assignment of the context
  (\<open>parentDone\<close>: the context given to \<open>Start\<close> is done already), the reset of the statistics under \<open>w.mu\<close>, and the
  \<open>go\<close> statement. \<open>WD_Start\<close> is the method without anybody in between.
\<close>

definition start_cas :: "gotime \<Rightarrow> WatchdogImpl \<Rightarrow> err option \<times> WatchdogImpl" where
  "start_cas ts w =
     (if wd_running w \<noteq> 0
      then (Some (watchdog_error ErrCodeInvalidOperation msgWatchdogRunning (wd_key w) ts), w)
      else (None, w\<lparr>wd_running := 1, wd_starting := wd_starting w + 1\<rparr>))"

definition start_context :: "bool \<Rightarrow> WatchdogImpl \<Rightarrow> WatchdogImpl" where
  "start_context parentDone w =
     w\<lparr>wd_ctx := Some parentDone, wd_starting := wd_starting w - 1, wd_contexted := wd_contexted w + 1\<rparr>"

definition start_stats :: "gotime \<Rightarrow> WatchdogImpl \<Rightarrow> WatchdogImpl" where
  "start_stats now w =
     w\<lparr>wd_stats := (wd_stats w)\<lparr>ws_StartTime := now, ws_ExtendCount := 0, ws_FailedExtends := 0,
         ws_LastExtendTime := zero_time, ws_LastExtendResult := False\<rparr>,
       wd_contexted := wd_contexted w - 1, wd_reset := wd_reset w + 1\<rparr>"

definition start_go :: "WatchdogImpl \<Rightarrow> WatchdogImpl" where
  "start_go w = w\<lparr>wd_reset := wd_reset w - 1, wd_spawned := wd_spawned w + 1\<rparr>"

definition WD_Start :: "bool \<Rightarrow> gotime \<Rightarrow> gotime \<Rightarrow> WatchdogImpl \<Rightarrow> err option \<times> WatchdogImpl" where
  "WD_Start parentDone now ts w =
     (case start_cas ts w of
        (Some e, w1) \<Rightarrow> (Some e, w1)
      | (None, w1) \<Rightarrow> (None, start_go (start_stats now (start_context parentDone w1))))"

text \<open>
  \<open>Stop\<close>: the compare-and-swap, the call of \<open>w.cancel\<close> if it is set, and the wait for \<open>done\<close>.
  \<open>WD_Stop_call\<close> is the method up to its wait, without anybody in between.
\<close>

definition stop_cas :: "gotime \<Rightarrow> WatchdogImpl \<Rightarrow> err option \<times> WatchdogImpl" where
  "stop_cas ts w =
     (if wd_running w \<noteq> 1
      then (Some (watchdog_error ErrCodeInvalidOperation msgWatchdogNotRunning (wd_key w) ts), w)
      else (None, w\<lparr>wd_running := 0, wd_stopping := wd_stopping w + 1\<rparr>))"

definition stop_cancel :: "WatchdogImpl \<Rightarrow> WatchdogImpl" where
  "stop_cancel w =
     (let w1 = (if wd_ctx w \<noteq> None then w\<lparr>wd_ctx := Some True\<rparr> else w)
      in w1\<lparr>wd_stopping := wd_stopping w - 1, wd_waiting := wd_waiting w + 1\<rparr>)"

definition stop_return :: "WatchdogImpl \<Rightarrow> WatchdogImpl" where
  "stop_return w = w\<lparr>wd_waiting := wd_waiting w - 1\<rparr>"

definition WD_Stop_call :: "gotime \<Rightarrow> WatchdogImpl \<Rightarrow> err option \<times> WatchdogImpl" where
  "WD_Stop_call ts w =
     (case stop_cas ts w of (Some e, w1) \<Rightarrow> (Some e, w1) | (None, w1) \<Rightarrow> (None, stop_cancel w1))"

definition WD_IsRunning :: "WatchdogImpl \<Rightarrow> bool" where "WD_IsRunning w \<longleftrightarrow> wd_running w = 1"
definition WD_GetStats :: "WatchdogImpl \<Rightarrow> WatchdogStats" where "WD_GetStats w = wd_stats w"

text \<open>
  The goroutine. It begins with \<open>time.NewTicker\<close>, which panics unless the interval is positive;
  it leaves the loop when the context is done, and closes \<open>done\<close>, which panics the second time.
\<close>

definition loop_begin :: "WatchdogImpl \<Rightarrow> WatchdogImpl" where
  "loop_begin w =
     (let w1 = w\<lparr>wd_spawned := wd_spawned w - 1\<rparr>
      in if sint (wd_interval w) \<le> 0
         then w1\<lparr>wd_done := True, wd_panic := Some ''non-positive interval for NewTicker''\<rparr>
         else w1\<lparr>wd_looping := wd_looping w + 1\<rparr>)"

definition loop_exit :: "WatchdogImpl \<Rightarrow> WatchdogImpl" where
  "loop_exit w =
     (let w1 = w\<lparr>wd_looping := wd_looping w - 1\<rparr>
      in if wd_done w then w1\<lparr>wd_panic := Some ''close of closed channel''\<rparr> else w1\<lparr>wd_done := True\<rparr>)"

text \<open>The bookkeeping of one renewal, and the renewal on a lock of type \<open>'l\<close>.\<close>

definition record_extend :: "bool \<Rightarrow> err option \<Rightarrow> gotime \<Rightarrow> WatchdogStats \<Rightarrow> WatchdogStats" where
  "record_extend success e now st =
     (let st1 = st\<lparr>ws_LastExtendTime := now, ws_LastExtendResult := (success \<and> e = None)\<rparr>
      in if ws_LastExtendResult st1 then st1\<lparr>ws_ExtendCount := ws_ExtendCount st + 1\<rparr>
         else st1\<lparr>ws_FailedExtends := ws_FailedExtends st + 1\<rparr>)"

definition performExtend ::
    "(duration \<Rightarrow> duration \<Rightarrow> 'l \<Rightarrow> (bool \<times> err option) \<times> 'l) \<Rightarrow> gotime \<Rightarrow> WatchdogImpl \<times> 'l \<Rightarrow> WatchdogImpl \<times> 'l" where
  "performExtend ext now = (\<lambda>(w, l).
     (case ext (go_div (wd_interval w) 2) (wd_ttl w) l of
        ((success, e), l') \<Rightarrow> (w\<lparr>wd_stats := record_extend success e now (wd_stats w)\<rparr>, l')))"

section \<open>All interleavings\<close>

datatype wd_label = LStart gotime | LContext bool | LInit gotime | LGo | LStop gotime | LStopCancel bool | LStopReturn
  | LCancel | LBegin | LTick bool "err option" gotime | LExit

text \<open>
  \<open>LCancel\<close>: the context given to the last \<open>Start\<close> is cancelled or times out. \<open>LStopCancel\<close> says whether \<open>Stop\<close>
  found \<open>w.cancel\<close> set.
\<close>

inductive wd_step :: "wd_label \<Rightarrow> WatchdogImpl \<Rightarrow> WatchdogImpl \<Rightarrow> bool" where
  wd_start: "wd_panic w = None \<Longrightarrow> wd_step (LStart ts) w (snd (start_cas ts w))"
| wd_context: "wd_panic w = None \<Longrightarrow> 0 < wd_starting w \<Longrightarrow> wd_step (LContext p) w (start_context p w)"
| wd_init: "wd_panic w = None \<Longrightarrow> 0 < wd_contexted w \<Longrightarrow> wd_step (LInit now) w (start_stats now w)"
| wd_go: "wd_panic w = None \<Longrightarrow> 0 < wd_reset w \<Longrightarrow> wd_step LGo w (start_go w)"
| wd_stop: "wd_panic w = None \<Longrightarrow> wd_step (LStop ts) w (snd (stop_cas ts w))"
| wd_stop_cancel: "wd_panic w = None \<Longrightarrow> 0 < wd_stopping w \<Longrightarrow>
    wd_step (LStopCancel (wd_ctx w \<noteq> None)) w (stop_cancel w)"
| wd_stop_return: "wd_panic w = None \<Longrightarrow> 0 < wd_waiting w \<Longrightarrow> wd_done w \<Longrightarrow> wd_step LStopReturn w (stop_return w)"
| wd_cancel: "wd_panic w = None \<Longrightarrow> wd_ctx w \<noteq> None \<Longrightarrow> wd_step LCancel w (w\<lparr>wd_ctx := Some True\<rparr>)"
| wd_begin: "wd_panic w = None \<Longrightarrow> 0 < wd_spawned w \<Longrightarrow> wd_step LBegin w (loop_begin w)"
| wd_tick: "wd_panic w = None \<Longrightarrow> 0 < wd_looping w \<Longrightarrow>
    wd_step (LTick ok e now) w (w\<lparr>wd_stats := record_extend ok e now (wd_stats w)\<rparr>)"
| wd_exit: "wd_panic w = None \<Longrightarrow> 0 < wd_looping w \<Longrightarrow> wd_ctx w = Some True \<Longrightarrow> wd_step LExit w (loop_exit w)"

inductive wd_run :: "WatchdogImpl \<Rightarrow> wd_label list \<Rightarrow> WatchdogImpl \<Rightarrow> bool" where
  run_Nil: "wd_run w [] w"
| run_snoc: "wd_run w ls w1 \<Longrightarrow> wd_step l w1 w2 \<Longrightarrow> wd_run w (ls @ [l]) w2"

inductive_cases wd_stepE: "wd_step l w w'"
inductive_simps wd_step_simps: "wd_step (LStart ts) w w'" "wd_step (LContext p) w w'" "wd_step (LInit now) w w'"
  "wd_step LGo w w'" "wd_step (LStop ts) w w'" "wd_step (LStopCancel b) w w'" "wd_step LStopReturn w w'"
  "wd_step LCancel w w'" "wd_step LBegin w w'" "wd_step (LTick ok e now) w w'" "wd_step LExit w w'"

definition is_start :: "wd_label \<Rightarrow> bool" where
  "is_start l \<longleftrightarrow> (case l of LStart ts \<Rightarrow> True | _ \<Rightarrow> False)"

lemma is_start_simps [simp]: "is_start (LStart ts)" "\<not> is_start (LContext p)" "\<not> is_start (LInit now)" "\<not> is_start LGo"
  "\<not> is_start (LStop ts)" "\<not> is_start (LStopCancel b)" "\<not> is_start LStopReturn" "\<not> is_start LCancel"
  "\<not> is_start LBegin" "\<not> is_start (LTick ok e now)" "\<not> is_start LExit"
  by (simp_all add: is_start_def)

lemmas wd_call_defs = start_cas_def start_context_def start_stats_def start_go_def stop_cas_def stop_cancel_def
  stop_return_def Let_def

lemmas wd_defs = WD_Start_def WD_Stop_call_def wd_call_defs loop_begin_def loop_exit_def

text \<open>
  The first cycle. Before \<open>Start\<close> there is no goroutine; after it there is one, at one of the places, until \<open>done\<close> is
  closed. \<open>early\<close>: a \<open>Stop\<close> came before the context was set; \<open>ended\<close>: the context given to \<open>Start\<close> has ended.
\<close>

definition first_cycle :: "nat \<Rightarrow> bool \<Rightarrow> bool \<Rightarrow> WatchdogImpl \<Rightarrow> bool" where
  "first_cycle n early ended w \<longleftrightarrow> wd_panic w = None \<and> 0 < sint (wd_interval w) \<and>
     (if n = 0
      then wd_ctx w = None \<and> wd_running w = 0 \<and> \<not> wd_done w \<and> wd_starting w = 0 \<and> wd_contexted w = 0 \<and> wd_reset w = 0 \<and>
        wd_spawned w = 0 \<and> wd_looping w = 0 \<and> wd_stopping w = 0 \<and> wd_waiting w = 0 \<and> \<not> early \<and> \<not> ended
      else wd_starting w + wd_contexted w + wd_reset w + wd_spawned w + wd_looping w = (if wd_done w then 0 else 1) \<and>
        (wd_ctx w = None \<longleftrightarrow> wd_starting w = 1) \<and> (wd_done w \<longrightarrow> wd_ctx w = Some True) \<and>
        wd_running w \<in> {0, 1} \<and> wd_stopping w + wd_waiting w \<le> 1 \<and>
        (wd_running w = 1 \<longrightarrow> wd_stopping w = 0 \<and> wd_waiting w = 0 \<and> \<not> early) \<and>
        (wd_running w = 0 \<and> wd_stopping w = 0 \<and> \<not> early \<longrightarrow> wd_ctx w = Some True) \<and>
        (early \<longrightarrow> wd_stopping w = 0) \<and> (early \<and> \<not> ended \<longrightarrow> wd_ctx w \<noteq> Some True \<and> wd_waiting w = 1))"

definition first_cycle_of :: "wd_label list \<Rightarrow> WatchdogImpl \<Rightarrow> bool" where
  "first_cycle_of ls = first_cycle (length (filter is_start ls)) (LStopCancel False \<in> set ls)
     (LCancel \<in> set ls \<or> LContext True \<in> set ls)"

lemma first_cycle_step:
  assumes "wd_step l w w'" and "first_cycle n early ended w" and "n + (if is_start l then 1 else 0) \<le> 1"
  shows "first_cycle (n + (if is_start l then 1 else 0)) (early \<or> l = LStopCancel False)
    (ended \<or> l = LCancel \<or> l = LContext True) w'"
  using assms(1)
proof cases
  case wd_start
  with assms(2,3) show ?thesis by (auto simp: first_cycle_def wd_call_defs)
next
  case (wd_context p)
  then have n: "0 < n" using assms(2) by (cases n) (simp_all add: first_cycle_def)
  then have w: "wd_starting w = 1" "wd_ctx w = None" "\<not> wd_done w" "wd_contexted w = 0 \<and> wd_reset w = 0 \<and> wd_spawned w = 0 \<and> wd_looping w = 0"
    using assms(2) wd_context by (auto simp: first_cycle_def split: if_splits)
  from assms(2) n have "wd_panic w = None" "0 < sint (wd_interval w)" "wd_running w \<in> {0, 1}" "wd_stopping w + wd_waiting w \<le> 1"
    "wd_running w = 1 \<longrightarrow> wd_stopping w = 0 \<and> wd_waiting w = 0 \<and> \<not> early"
    "wd_running w = 0 \<and> wd_stopping w = 0 \<longrightarrow> early" "early \<longrightarrow> wd_stopping w = 0"
    "early \<and> \<not> ended \<longrightarrow> wd_waiting w = 1"
    using w(2) by (auto simp: first_cycle_def)
  with n w show ?thesis unfolding wd_context(1,2) first_cycle_def start_context_def by auto
next
  case wd_stop
  with assms(2,3) show ?thesis by (cases n) (auto simp: first_cycle_def wd_call_defs)
next
  case wd_stop_cancel
  with assms(2,3) show ?thesis by (cases n) (auto simp: first_cycle_def wd_call_defs)
next
  case wd_begin
  with assms(2,3) show ?thesis by (cases n) (auto simp: first_cycle_def loop_begin_def Let_def)
next
  case wd_exit
  with assms(2,3) show ?thesis by (cases n) (auto simp: first_cycle_def loop_exit_def Let_def)
qed (use assms(2,3) in \<open>cases n; auto simp: first_cycle_def wd_call_defs\<close>)+

lemma first_cycle_run:
  assumes "wd_run w0 ls w" and "first_cycle_of [] w0" and "length (filter is_start ls) \<le> 1"
  shows "first_cycle_of ls w"
  using assms
proof (induction rule: wd_run.induct)
  case (run_snoc w ls w1 l w2)
  from run_snoc.prems have n: "length (filter is_start ls) + (if is_start l then 1 else 0) \<le> 1" by (auto split: if_splits)
  then have "first_cycle_of ls w1" using run_snoc.IH run_snoc.prems(1) by simp
  from first_cycle_step [OF run_snoc.hyps(2) this [unfolded first_cycle_of_def] n] show ?case
    by (simp add: first_cycle_of_def insert_commute disj_commute disj_left_commute eq_commute split: if_splits)
qed simp

text \<open>The steps are deterministic: a label that is enabled has one successor, which can be computed.\<close>

fun wd_enabled :: "wd_label \<Rightarrow> WatchdogImpl \<Rightarrow> bool" where
  "wd_enabled (LStart ts) w = (wd_panic w = None)"
| "wd_enabled (LContext p) w = (wd_panic w = None \<and> 0 < wd_starting w)"
| "wd_enabled (LInit now) w = (wd_panic w = None \<and> 0 < wd_contexted w)"
| "wd_enabled LGo w = (wd_panic w = None \<and> 0 < wd_reset w)"
| "wd_enabled (LStop ts) w = (wd_panic w = None)"
| "wd_enabled (LStopCancel b) w = (wd_panic w = None \<and> 0 < wd_stopping w \<and> b = (wd_ctx w \<noteq> None))"
| "wd_enabled LStopReturn w = (wd_panic w = None \<and> 0 < wd_waiting w \<and> wd_done w)"
| "wd_enabled LCancel w = (wd_panic w = None \<and> wd_ctx w \<noteq> None)"
| "wd_enabled LBegin w = (wd_panic w = None \<and> 0 < wd_spawned w)"
| "wd_enabled (LTick ok e now) w = (wd_panic w = None \<and> 0 < wd_looping w)"
| "wd_enabled LExit w = (wd_panic w = None \<and> 0 < wd_looping w \<and> wd_ctx w = Some True)"

fun wd_do :: "wd_label \<Rightarrow> WatchdogImpl \<Rightarrow> WatchdogImpl" where
  "wd_do (LStart ts) w = snd (start_cas ts w)"
| "wd_do (LContext p) w = start_context p w"
| "wd_do (LInit now) w = start_stats now w"
| "wd_do LGo w = start_go w"
| "wd_do (LStop ts) w = snd (stop_cas ts w)"
| "wd_do (LStopCancel b) w = stop_cancel w"
| "wd_do LStopReturn w = stop_return w"
| "wd_do LCancel w = w\<lparr>wd_ctx := Some True\<rparr>"
| "wd_do LBegin w = loop_begin w"
| "wd_do (LTick ok e now) w = w\<lparr>wd_stats := record_extend ok e now (wd_stats w)\<rparr>"
| "wd_do LExit w = loop_exit w"

lemma wd_step_do: "wd_step l w w' \<longleftrightarrow> wd_enabled l w \<and> w' = wd_do l w"
  by (cases l) (auto simp: wd_step_simps)

fun wd_exec :: "WatchdogImpl \<Rightarrow> wd_label list \<Rightarrow> WatchdogImpl option" where
  "wd_exec w [] = Some w"
| "wd_exec w (l # ls) = (if wd_enabled l w then wd_exec (wd_do l w) ls else None)"

lemma wd_run_one: "wd_step l w w' \<Longrightarrow> wd_run w [l] w'"
  using run_snoc [OF run_Nil] by simp

lemma wd_run_append: "wd_run w1 ls' w2 \<Longrightarrow> wd_run w ls w1 \<Longrightarrow> wd_run w (ls @ ls') w2"
proof (induction rule: wd_run.induct)
  case (run_snoc w1 ls' w1' l w2)
  from wd_run.run_snoc [OF run_snoc.IH [OF run_snoc.prems] run_snoc.hyps(2)] show ?case by simp
qed simp

lemma wd_exec_run: "wd_exec w ls = Some w' \<Longrightarrow> wd_run w ls w'"
proof (induction ls arbitrary: w)
  case Nil
  then show ?case by (simp add: run_Nil)
next
  case (Cons l ls)
  then have e: "wd_enabled l w" "wd_run (wd_do l w) ls w'" by (simp_all split: if_splits)
  then have "wd_run w [l] (wd_do l w)" by (intro wd_run_one) (simp add: wd_step_do)
  from wd_run_append [OF e(2) this] show ?case by simp
qed

text \<open>\<open>Start\<close> and \<open>Stop\<close> without anybody in between are runs of their accesses.\<close>

lemma WD_Start_run:
  assumes "wd_panic w = None"
  shows "wd_run w (if wd_running w = 0 then [LStart ts, LContext p, LInit now, LGo] else [LStart ts]) (snd (WD_Start p now ts w))"
  using assms by (auto intro!: wd_exec_run simp: WD_Start_def wd_call_defs)

lemma WD_Stop_call_run:
  assumes "wd_panic w = None"
  shows "wd_run w (if wd_running w = 1 then [LStop ts, LStopCancel (wd_ctx w \<noteq> None)] else [LStop ts]) (snd (WD_Stop_call ts w))"
  using assms by (auto intro!: wd_exec_run simp: WD_Stop_call_def wd_call_defs)

text \<open>
  A goroutine whose context is done can always get to the end, and closes \<open>done\<close> or panics. The steps it needs
  are its own: the rest of \<open>Start\<close> behind the context, and the loop.
\<close>

fun goes_on :: "wd_label \<Rightarrow> bool" where
  "goes_on (LInit now) = True"
| "goes_on LGo = True"
| "goes_on LBegin = True"
| "goes_on LExit = True"
| "goes_on l = False"

definition can_finish :: "WatchdogImpl \<Rightarrow> bool" where
  "can_finish w \<longleftrightarrow> wd_done w \<or>
     (\<exists>ls w'. wd_run w ls w' \<and> list_all goes_on ls \<and> (wd_done w' \<or> wd_panic w' \<noteq> None))"

lemma can_finish_now: "wd_panic w \<noteq> None \<Longrightarrow> can_finish w"
  unfolding can_finish_def by (intro disjI2 exI [of _ "[]"] exI [of _ w]) (simp add: run_Nil)

lemma can_finish_step:
  assumes "wd_enabled l w" and "goes_on l" and "can_finish (wd_do l w)"
  shows "can_finish w"
proof -
  have one: "wd_run w [l] (wd_do l w)" using assms(1) by (intro wd_run_one) (simp add: wd_step_do)
  from assms(3) consider "wd_done (wd_do l w)"
    | ls w' where "wd_run (wd_do l w) ls w'" "list_all goes_on ls" "wd_done w' \<or> wd_panic w' \<noteq> None"
    by (auto simp: can_finish_def)
  then show ?thesis
  proof cases
    case 1
    with one assms(2) show ?thesis unfolding can_finish_def by (intro disjI2 exI [of _ "[l]"]) auto
  next
    case (2 ls w')
    from wd_run_append [OF 2(1) one] 2(2,3) assms(2) show ?thesis
      unfolding can_finish_def by (intro disjI2 exI [of _ "l # ls"]) auto
  qed
qed

lemma live_can_finish:
  assumes "wd_ctx w = Some True" and "0 < wd_contexted w + wd_reset w + wd_spawned w + wd_looping w"
  shows "can_finish w"
proof (cases "wd_panic w = None")
  case ok: True
  have loop: "can_finish w" if "wd_panic w = None" "wd_ctx w = Some True" "0 < wd_looping w" for w
    by (rule can_finish_step [of LExit]) (use that in \<open>simp_all add: can_finish_def loop_exit_def Let_def\<close>)
  have spawned: "can_finish w" if "wd_panic w = None" "wd_ctx w = Some True" "0 < wd_spawned w" for w
  proof (rule can_finish_step [of LBegin])
    show "can_finish (wd_do LBegin w)"
    proof (cases "sint (wd_interval w) \<le> 0")
      case True
      then show ?thesis by (intro can_finish_now) (simp add: loop_begin_def Let_def)
    next
      case False
      with that loop [of "loop_begin w"] show ?thesis by (simp add: loop_begin_def Let_def)
    qed
  qed (use that in simp_all)
  have reset: "can_finish w" if "wd_panic w = None" "wd_ctx w = Some True" "0 < wd_reset w" for w
    by (rule can_finish_step [of LGo]) (use that spawned [of "start_go w"] in \<open>simp_all add: start_go_def\<close>)
  have "can_finish w" if "0 < wd_contexted w"
    by (rule can_finish_step [of "LInit 0"]) (use that ok assms(1) reset [of "start_stats 0 w"] in \<open>simp_all add: start_stats_def\<close>)
  with loop spawned reset ok assms show ?thesis by auto
qed (rule can_finish_now)

text \<open>A closed \<open>done\<close> stays closed, and the end of a goroutine then is a panic.\<close>

lemma done_stays: "wd_step l w w' \<Longrightarrow> wd_done w \<Longrightarrow> wd_done w' \<and> (l = LExit \<longrightarrow> wd_panic w' \<noteq> None)"
  by (cases rule: wd_step.cases) (auto simp: wd_defs)

lemma done_exit_panics:
  assumes "wd_run w ls w'" and "wd_done w"
  shows "wd_done w' \<and> (LExit \<in> set ls \<longrightarrow> wd_panic w' \<noteq> None)"
  using assms
proof (induction rule: wd_run.induct)
  case (run_snoc w ls w1 l w2)
  then have ih: "wd_done w1" "LExit \<in> set ls \<longrightarrow> wd_panic w1 \<noteq> None" by blast+
  have "wd_panic w1 = None" using run_snoc.hyps(2) by (cases rule: wd_step.cases) simp_all
  with ih done_stays [OF run_snoc.hyps(2)] show ?case by auto
qed simp

section \<open>The manager\<close>

text \<open>A Go map from the keys to the watchdogs; \<open>GetWatchdog\<close> hands out the entry itself.\<close>

type_synonym WatchdogManager = "(string \<times> WatchdogImpl) list"

definition NewWatchdogManager :: WatchdogManager where "NewWatchdogManager = []"

text \<open>
  \<open>Stop\<close> with its wait: one goroutine gets to the end. \<open>None\<close>: there is none, and \<open>Stop\<close> blocks
  for ever.
\<close>

definition wait_done :: "WatchdogImpl \<Rightarrow> WatchdogImpl option" where
  "wait_done w =
     (if wd_done w then Some w
      else if 0 < wd_looping w then Some (loop_exit w)
      else if 0 < wd_spawned w then
        (let w1 = loop_begin w in Some (if wd_panic w1 = None then loop_exit w1 else w1))
      else None)"

definition WD_Stop :: "gotime \<Rightarrow> WatchdogImpl \<Rightarrow> (err option \<times> WatchdogImpl) option" where
  "WD_Stop ts w =
     (case WD_Stop_call ts w of
        (Some e, w1) \<Rightarrow> Some (Some e, w1)
      | (None, w1) \<Rightarrow> map_option (\<lambda>w2. (None, w2)) (wait_done w1))"

definition StartWatchdog ::
    "bool \<Rightarrow> gotime \<Rightarrow> gotime \<Rightarrow> string \<Rightarrow> duration \<Rightarrow> duration \<Rightarrow> WatchdogManager \<Rightarrow> err option \<times> WatchdogManager" where
  "StartWatchdog parentDone now ts key interval ttl m =
     (let start = (\<lambda>m1. case WD_Start parentDone now ts (NewWatchdog key interval ttl) of
            (Some e, w) \<Rightarrow> (Some e, m1)
          | (None, w) \<Rightarrow> (None, AList.update key w m1))
      in case map_of m key of
           None \<Rightarrow> start m
         | Some existing \<Rightarrow>
             if WD_IsRunning existing
             then (Some (watchdog_error ErrCodeInvalidOperation msgWatchdogExists key ts), m)
             else start (AList.delete key m))"

definition StopWatchdog :: "string \<Rightarrow> gotime \<Rightarrow> WatchdogManager \<Rightarrow> (err option \<times> WatchdogManager) option" where
  "StopWatchdog key ts m =
     (case map_of m key of
        None \<Rightarrow> Some (Some (watchdog_error ErrCodeLockNotFound msgWatchdogMissing key ts), m)
      | Some w \<Rightarrow>
          (case WD_Stop ts w of
             None \<Rightarrow> None
           | Some (Some e, w1) \<Rightarrow> Some (Some e, AList.update key w1 m)
           | Some (None, w1) \<Rightarrow> Some (None, AList.delete key m)))"

definition GetWatchdog :: "string \<Rightarrow> WatchdogManager \<Rightarrow> WatchdogImpl option" where
  "GetWatchdog key m = map_of m key"

fun StopAll_loop :: "gotime \<Rightarrow> (string \<times> WatchdogImpl) list \<Rightarrow> err option \<times> WatchdogManager \<Rightarrow> (err option \<times> WatchdogManager) option" where
  "StopAll_loop ts [] acc = Some acc"
| "StopAll_loop ts ((key, w) # rest) (lastErr, m) =
     (case WD_Stop ts w of
        None \<Rightarrow> None
      | Some (e, w1) \<Rightarrow> StopAll_loop ts rest (case e of None \<Rightarrow> lastErr | Some x \<Rightarrow> Some x, AList.delete key m))"

definition StopAll :: "gotime \<Rightarrow> WatchdogManager \<Rightarrow> (err option \<times> WatchdogManager) option" where
  "StopAll ts m = StopAll_loop ts m (None, m)"

definition GetAllStats :: "WatchdogManager \<Rightarrow> (string \<times> WatchdogStats) list" where
  "GetAllStats m = map (\<lambda>(key, w). (key, WD_GetStats w)) m"

definition GetWatchdogStats :: "string \<Rightarrow> WatchdogManager \<Rightarrow> WatchdogStats option" where
  "GetWatchdogStats key m = map_option WD_GetStats (GetWatchdog key m)"

text \<open>The functions on the process-wide manager, which is the manager's state here.\<close>

definition StartWatchdogForLock where "StartWatchdogForLock = StartWatchdog"
definition StopWatchdogForLock where "StopWatchdogForLock = StopWatchdog"

lemma StopAll_empties:
  assumes "wf_map m" and "StopAll ts m = Some (e, m')"
  shows "m' = []"
proof -
  have "StopAll_loop ts xs (a, ys) = Some (e, m') \<Longrightarrow> set (map fst ys) \<subseteq> set (map fst xs) \<Longrightarrow> m' = []" for xs ys a
  proof (induction xs arbitrary: ys a)
    case (Cons x xs)
    obtain key w where x: "x = (key, w)" by (cases x)
    from Cons.prems(1) obtain e1 w1 where s: "WD_Stop ts w = Some (e1, w1)"
      by (auto simp: x split: option.splits prod.splits)
    have "set (map fst (AList.delete key ys)) \<subseteq> set (map fst xs)"
      using Cons.prems(2) unfolding delete_keys by (auto simp: x)
    with Cons show ?case by (auto simp: x s)
  qed simp
  from this [OF assms(2) [unfolded StopAll_def]] show ?thesis by simp
qed

section \<open>A lock with a watchdog\<close>

text \<open>
  The pair of a lock and a watchdog of it. Every \<open>Lock\<close> has the methods of \<open>ExtendableLock\<close>, so
  the adapter is never made. The state of the watchdog is part of the world.
\<close>

record 'w LockWithWatchdog =
  lww_lock :: "'w Lock"
  lww_get :: "'w \<Rightarrow> WatchdogImpl"
  lww_put :: "WatchdogImpl \<Rightarrow> 'w \<Rightarrow> 'w"

definition NewLockWithWatchdog ::
    "'w Lock \<Rightarrow> LockConfig \<Rightarrow> ('w \<Rightarrow> WatchdogImpl) \<Rightarrow> (WatchdogImpl \<Rightarrow> 'w \<Rightarrow> 'w) \<Rightarrow> 'w \<Rightarrow> 'w LockWithWatchdog \<times> 'w" where
  "NewLockWithWatchdog lock config get put s =
     (\<lparr>lww_lock = lock, lww_get = get, lww_put = put\<rparr>,
      put (NewWatchdog (lk_GetKey lock s) (WatchdogInterval config) (LockTTL config)) s)"

definition LWW_Lock where "LWW_Lock l opts = lk_Lock (lww_lock l) opts"
definition LWW_TryLock where "LWW_TryLock l opts = lk_TryLock (lww_lock l) opts"
definition LWW_Unlock where "LWW_Unlock l = lk_Unlock (lww_lock l)"
definition LWW_Extend where "LWW_Extend l ttl = lk_Extend (lww_lock l) ttl"
definition LWW_IsLocked where "LWW_IsLocked l = lk_IsLocked (lww_lock l)"
definition LWW_GetTTL where "LWW_GetTTL l = lk_GetTTL (lww_lock l)"
definition LWW_GetKey where "LWW_GetKey l = lk_GetKey (lww_lock l)"
definition LWW_GetValue where "LWW_GetValue l = lk_GetValue (lww_lock l)"

definition LWW_Start :: "'w LockWithWatchdog \<Rightarrow> bool \<Rightarrow> gotime \<Rightarrow> gotime \<Rightarrow> 'w \<Rightarrow> err option \<times> 'w" where
  "LWW_Start l parentDone now ts s =
     (case WD_Start parentDone now ts (lww_get l s) of (e, w) \<Rightarrow> (e, lww_put l w s))"

definition LWW_Stop :: "'w LockWithWatchdog \<Rightarrow> gotime \<Rightarrow> 'w \<Rightarrow> (err option \<times> 'w) option" where
  "LWW_Stop l ts s = map_option (\<lambda>(e, w). (e, lww_put l w s)) (WD_Stop ts (lww_get l s))"

definition LWW_IsRunning where "LWW_IsRunning l s = WD_IsRunning (lww_get l s)"
definition LWW_GetStats where "LWW_GetStats l s = WD_GetStats (lww_get l s)"

section \<open>Keeping a lease\<close>

text \<open>
  What a watchdog relies on in the lock it renews: a renewal of a lease that still runs succeeds and
  moves its end to at least the renewal's time plus the TTL, up to the grain \<open>slack\<close> of the
  backend's clock.
\<close>

locale extendable =
  fixes ext :: "duration \<Rightarrow> gotime \<Rightarrow> 'l \<Rightarrow> (bool \<times> err option) \<times> 'l"
    and expires :: "'l \<Rightarrow> gotime option" and slack :: int and ok_ttl :: "duration \<Rightarrow> bool"
  assumes extend_live: "expires l = Some E \<Longrightarrow> t < E \<Longrightarrow> ok_ttl ttl \<Longrightarrow>
    fst (ext ttl t l) = (True, None) \<and> (\<exists>E'. expires (snd (ext ttl t l)) = Some E' \<and> t + sint ttl - slack \<le> E')"

text \<open>The ticks at the times \<open>ts\<close>; each is on time if it comes before the lease of the last one ends.\<close>

fun ticks :: "(duration \<Rightarrow> gotime \<Rightarrow> 'l \<Rightarrow> (bool \<times> err option) \<times> 'l) \<Rightarrow> gotime list \<Rightarrow> WatchdogImpl \<times> 'l \<Rightarrow> WatchdogImpl \<times> 'l" where
  "ticks ext [] s = s"
| "ticks ext (t # ts) s = ticks ext ts (performExtend (\<lambda>timeout ttl l. ext ttl t l) t s)"

fun on_time :: "int \<Rightarrow> gotime list \<Rightarrow> gotime \<Rightarrow> bool" where
  "on_time d [] E = True"
| "on_time d (t # ts) E = (t < E \<and> on_time d ts (t + d))"

lemma on_time_mono: "on_time d ts E \<Longrightarrow> E \<le> E' \<Longrightarrow> on_time d ts E'"
  by (cases ts) auto

context extendable begin

lemma ticks_keep:
  assumes "ok_ttl (wd_ttl w)" and "expires l = Some E" and "on_time (sint (wd_ttl w) - slack) ts E"
  shows "\<exists>w' l' E'. ticks ext ts (w, l) = (w', l') \<and> expires l' = Some E' \<and>
    (ts \<noteq> [] \<longrightarrow> last ts + sint (wd_ttl w) - slack \<le> E') \<and> (ts = [] \<longrightarrow> E' = E) \<and>
    ws_ExtendCount (wd_stats w') = ws_ExtendCount (wd_stats w) + of_nat (length ts) \<and>
    ws_FailedExtends (wd_stats w') = ws_FailedExtends (wd_stats w)"
  using assms
proof (induction ts arbitrary: w l E)
  case (Cons t ts)
  obtain l1 E1 where e: "ext (wd_ttl w) t l = ((True, None), l1)" "expires l1 = Some E1"
    "t + sint (wd_ttl w) - slack \<le> E1"
    using extend_live [OF Cons.prems(2) _ Cons.prems(1), of t] Cons.prems(3)
    by (cases "ext (wd_ttl w) t l") auto
  let ?w1 = "w\<lparr>wd_stats := record_extend True None t (wd_stats w)\<rparr>"
  have step: "performExtend (\<lambda>timeout ttl l. ext ttl t l) t (w, l) = (?w1, l1)"
    by (simp add: performExtend_def e(1))
  have "on_time (sint (wd_ttl ?w1) - slack) ts E1"
    using Cons.prems(3) on_time_mono [OF _ e(3)] by (simp add: algebra_simps)
  from Cons.IH [OF _ e(2) this] Cons.prems(1) obtain w' l' E' where
    ih: "ticks ext ts (?w1, l1) = (w', l')" "expires l' = Some E'"
    "ts \<noteq> [] \<longrightarrow> last ts + sint (wd_ttl w) - slack \<le> E'" "ts = [] \<longrightarrow> E' = E1"
    "ws_ExtendCount (wd_stats w') = ws_ExtendCount (wd_stats ?w1) + of_nat (length ts)"
    "ws_FailedExtends (wd_stats w') = ws_FailedExtends (wd_stats ?w1)" by auto
  have "ws_ExtendCount (wd_stats ?w1) = ws_ExtendCount (wd_stats w) + 1"
    "ws_FailedExtends (wd_stats ?w1) = ws_FailedExtends (wd_stats w)" by (simp_all add: record_extend_def)
  with ih e(3) show ?case by (auto simp: step)
qed simp

end

text \<open>The in-process lock.\<close>

definition sl_expires :: "'d ShardedLock \<Rightarrow> gotime option" where
  "sl_expires l = (if unlocked l then None else Some (expireAt l))"

interpretation local_watch: extendable SL_Extend sl_expires 0 "\<lambda>_. True"
  by unfold_locales (auto simp: sl_expires_def SL_Extend_def time_add_def split: if_splits)

text \<open>
  The distributed simple lock, as its holder sees it: the handle and the server, whose clock, in
  milliseconds, follows the client's; expiries come back in nanoseconds.
\<close>

definition redis_extend_at ::
    "'s server \<Rightarrow> (duration \<Rightarrow> string) \<Rightarrow> ('s \<Rightarrow> int) \<Rightarrow> (nat \<Rightarrow> 's \<Rightarrow> 's) \<Rightarrow> duration \<Rightarrow> gotime
       \<Rightarrow> redisSimpleLock \<times> 's \<Rightarrow> (bool \<times> err option) \<times> redisSimpleLock \<times> 's" where
  "redis_extend_at exec fmt now_ms elapse ttl t = (\<lambda>(l, s).
     (case RS_Extend exec fmt Delivered ttl t l (elapse (nat (t div 1000000 - now_ms s)) s) of (r, s') \<Rightarrow> (r, l, s')))"

definition redis_expires :: "('s \<Rightarrow> keyspace) \<Rightarrow> redisSimpleLock \<times> 's \<Rightarrow> gotime option" where
  "redis_expires db = (\<lambda>(l, s).
     (case db s (rs_key l) of
        Some (VStr v, Some E) \<Rightarrow> if v = rs_value l then Some (E * 1000000) else None
      | _ \<Rightarrow> None))"

definition whole_seconds :: "duration \<Rightarrow> bool" where
  "whole_seconds d \<longleftrightarrow> 0 < sint d \<and> sint d mod 1000000000 = 0"

context redis_clients begin

lemma redis_extend_live:
  assumes "redis_expires db ls = Some E" and "t < E" and "whole_seconds ttl"
  shows "fst (redis_extend_at exec fmt now_ms elapse ttl t ls) = (True, None) \<and>
    (\<exists>E'. redis_expires db (snd (redis_extend_at exec fmt now_ms elapse ttl t ls)) = Some E' \<and>
       t + sint ttl - 1000000 \<le> E')"
proof -
  obtain l s where ls: "ls = (l, s)" by (cases ls)
  obtain F where F: "db s (rs_key l) = Some (VStr (rs_value l), Some F)" "E = F * 1000000"
    using assms(1) by (auto simp: redis_expires_def ls split: option.splits rval.splits prod.splits if_splits)
  let ?d = "nat (t div 1000000 - now_ms s)"
  have "now_ms s < F" by (rule alive [OF F(1)])
  moreover have "t div 1000000 < F" using assms(2) F(2) by linarith
  ultimately have live: "db (elapse ?d s) (rs_key l) = Some (VStr (rs_value l), Some F)"
    by (intro db_elapse_live [OF F(1)]) simp
  have d: "t div 1000000 \<le> now_ms (elapse ?d s)" by simp
  have ttl: "0 < sint ttl" "sint ttl mod 1000000000 = 0" using assms(3) by (simp_all add: whole_seconds_def)
  let ?sc = "SimpleLockExtendScript exec [rs_key l] [rs_value l, fmt ttl]"
  have h: "holder (elapse ?d s) (rs_key l) = Some (rs_value l)" "\<not> is_list (elapse ?d s) (rs_key l)"
    using live by (simp_all add: holder_def is_list_def)
  have "fst (?sc (elapse ?d s)) = RInt 1"
    using extend_script(1) [OF seconds_format_whole [OF fmt ttl]] h by simp
  then have r: "redis_extend_at exec fmt now_ms elapse ttl t ls = ((True, None), l, snd (?sc (elapse ?d s)))"
    by (simp add: redis_extend_at_def ls RS_Extend_def client_eval_Delivered as_int_def)
  have "db (snd (?sc (elapse ?d s))) (rs_key l) = Some (VStr (rs_value l), Some (now_ms (elapse ?d s) + sint ttl div 1000000))"
    by (rule seconds_exact [OF ttl]) (simp add: h db_extend)
  then have "redis_expires db (l, snd (?sc (elapse ?d s))) = Some ((now_ms (elapse ?d s) + sint ttl div 1000000) * 1000000)"
    by (simp add: redis_expires_def)
  moreover have "sint ttl div 1000000 * 1000000 = sint ttl"
  proof -
    have "sint ttl = 1000000000 * (sint ttl div 1000000000)"
      using ttl(2) mult_div_mod_eq [of 1000000000 "sint ttl"] by (simp only: add_0_right)
    then obtain k where "sint ttl = 1000000000 * k" by blast
    then show ?thesis by simp
  qed
  then have "t + sint ttl - 1000000 \<le> (now_ms (elapse ?d s) + sint ttl div 1000000) * 1000000"
    using d by (simp add: distrib_right)
  ultimately show ?thesis unfolding r by simp
qed

end

sublocale redis_clients < redis_watch: extendable "redis_extend_at exec fmt now_ms elapse" "redis_expires db"
    1000000 whole_seconds
  by unfold_locales (rule redis_extend_live)

text \<open>A lock of which the client's view says that it is held until \<open>E\<close>, kept by ticks on time.\<close>

interpretation ref_watch: extendable "redis_extend_at ref_exec ref_fmt rs_now ref_elapse" "redis_expires ref_db"
    1000000 whole_seconds
  by (rule ref_clients.redis_watch.extendable_axioms)

section \<open>Properties\<close>

text \<open>
  the watchdog keeps the lease. Let a client hold the distributed simple lock, with a lease that
  ends at \<open>E\<close>, and let its watchdog's ticks come on time: the first before \<open>E\<close>, each later one
  before the TTL after the one before has passed, less a millisecond, the grain of the server's
  clock. Then every renewal succeeds and is counted, and after the last one the lock is still
  held with the client's value for the TTL. The TTL must be a whole number of seconds.
\<close>
theorem watchdog_keeps_redis_lease:
  assumes "redis_clients exec db now_ms elapse fmt"
    and "whole_seconds (wd_ttl w)" and "redis_expires db (l, s) = Some E"
    and "on_time (sint (wd_ttl w) - 1000000) ts E" and "ts \<noteq> []"
    and "ticks (redis_extend_at exec fmt now_ms elapse) ts (w, l, s) = (w', l', s')"
  shows "(\<exists>E'. redis_expires db (l', s') = Some E' \<and> last ts + sint (wd_ttl w) - 1000000 \<le> E') \<and>
    ws_ExtendCount (wd_stats w') = ws_ExtendCount (wd_stats w) + of_nat (length ts) \<and>
    ws_FailedExtends (wd_stats w') = ws_FailedExtends (wd_stats w)"
proof -
  have "extendable (redis_extend_at exec fmt now_ms elapse) (redis_expires db) 1000000 whole_seconds"
    unfolding extendable_def using redis_clients.redis_extend_live [OF assms(1)] by blast
  from extendable.ticks_keep [OF this assms(2,3,4)] assms(5,6) show ?thesis by auto
qed

theorem watchdog_keeps_redis_lease_witness:
  "ws_ExtendCount (wd_stats (fst (ticks (redis_extend_at ref_exec ref_fmt rs_now ref_elapse)
      [10000000000, 20000000000, 45000000000]
      (NewWatchdog ''k'' (10 * Second) (30 * Second), \<lparr>rs_key = ''k'', rs_value = ''a''\<rparr>, ref_single ''k'' (VStr ''a''))))) = 3"
proof -
  let ?w = "NewWatchdog ''k'' (10 * Second) (30 * Second)" and ?ts = "[10000000000, 20000000000, 45000000000] :: int list"
  let ?l = "\<lparr>rs_key = ''k'', rs_value = ''a''\<rparr>" and ?s = "ref_single ''k'' (VStr ''a'')"
  obtain w' l' s' where t: "ticks (redis_extend_at ref_exec ref_fmt rs_now ref_elapse) ?ts (?w, ?l, ?s) = (w', l', s')"
    by (metis prod.collapse)
  have ttl: "wd_ttl ?w = 30 * Second" "sint (30 * Second) = 30000000000"
    by (simp_all add: NewWatchdog_def dur_defs)
  then have w: "whole_seconds (wd_ttl ?w)" by (simp add: whole_seconds_def)
  have e: "redis_expires ref_db (?l, ?s) = Some 60000000000" by (simp add: redis_expires_def)
  have o: "on_time (sint (wd_ttl ?w) - 1000000) ?ts 60000000000" by (simp add: ttl)
  have n: "?ts \<noteq> []" by simp
  from watchdog_keeps_redis_lease [OF ref_clients.redis_clients_axioms w e o n t]
  have "ws_ExtendCount (wd_stats w') = ws_ExtendCount (wd_stats ?w) + of_nat (length ?ts)" by blast
  then show ?thesis unfolding t by (simp add: NewWatchdog_def)
qed

text \<open>
  C21: a watchdog used once. Take a watchdog with a positive interval and any interleaving of the accesses of
  \<open>Start\<close> and \<open>Stop\<close>, cancellations of the context and steps of the goroutine, with at most one call of \<open>Start\<close>. No
  step panics and there is never more than one goroutine; once the context of the watchdog is done, \<open>done\<close> is closed or
  the goroutine can still get to the end and close it. So a \<open>Stop\<close> that waits does not wait in vain, unless it came
  before \<open>Start\<close> had set \<open>w.cancel\<close>. A \<open>Stop\<close> that did, for \<open>Start\<close> sets the running flag first, cancels nothing and waits
  for \<open>done\<close>, which stays open whatever happens as long as the context given to \<open>Start\<close> does not end, while \<open>IsRunning\<close>
  answers false.
\<close>
theorem watchdog_single_use_safe:
  assumes "0 < sint interval" and "wd_run (NewWatchdog key interval ttl) ls w"
    and "length (filter is_start ls) \<le> 1"
  shows "wd_panic w = None \<and> wd_spawned w + wd_looping w \<le> 1 \<and> (wd_ctx w = Some True \<longrightarrow> can_finish w) \<and>
    (0 < wd_waiting w \<and> LStopCancel False \<notin> set ls \<longrightarrow> can_finish w) \<and>
    (LStopCancel False \<in> set ls \<and> LContext True \<notin> set ls \<and> LCancel \<notin> set ls \<longrightarrow>
       0 < wd_waiting w \<and> \<not> wd_done w \<and> \<not> WD_IsRunning w)"
proof -
  have "first_cycle_of [] (NewWatchdog key interval ttl)"
    using assms(1) by (simp add: first_cycle_of_def first_cycle_def NewWatchdog_def)
  from first_cycle_run [OF assms(2) this assms(3)]
  have f: "first_cycle (length (filter is_start ls)) (LStopCancel False \<in> set ls)
      (LCancel \<in> set ls \<or> LContext True \<in> set ls) w" by (simp add: first_cycle_of_def)
  have fin: "can_finish w" if "wd_ctx w = Some True"
  proof (cases "wd_done w")
    case False
    with f that have "0 < wd_contexted w + wd_reset w + wd_spawned w + wd_looping w"
      by (auto simp: first_cycle_def split: if_splits)
    with that show ?thesis by (intro live_can_finish)
  qed (simp add: can_finish_def)
  moreover have "wd_ctx w = Some True" if "0 < wd_waiting w" "LStopCancel False \<notin> set ls"
    using f that by (auto simp: first_cycle_def split: if_splits)
  ultimately show ?thesis using f by (auto simp: first_cycle_def WD_IsRunning_def split: if_splits)
qed

theorem watchdog_single_use_safe_witness:
  "\<exists>w. wd_run (NewWatchdog ''k'' 10 30) [LStart 0, LStop 1, LStopCancel False, LContext False, LInit 2, LGo, LBegin] w \<and>
     wd_looping w = 1 \<and> 0 < wd_waiting w \<and> \<not> wd_done w \<and> \<not> WD_IsRunning w"
proof -
  let ?ls = "[LStart 0, LStop 1, LStopCancel False, LContext False, LInit 2, LGo, LBegin]"
  define w where "w = the (wd_exec (NewWatchdog ''k'' 10 30) ?ls)"
  have w: "wd_exec (NewWatchdog ''k'' 10 30) ?ls = Some w" "wd_looping w = 1"
    by (simp_all add: w_def wd_call_defs loop_begin_def NewWatchdog_def)
  from watchdog_single_use_safe [OF _ wd_exec_run [OF w(1)]] have "0 < wd_waiting w \<and> \<not> wd_done w \<and> \<not> WD_IsRunning w"
    by simp
  with wd_exec_run [OF w(1)] w(2) show ?thesis by blast
qed

text \<open>
  C30: a stopped watchdog must not be started again. \<open>Stop\<close> has returned (the channel is closed) and
  \<open>Start\<close> accepts the watchdog once more; but however the steps interleave from there, the end
  of the new goroutine closes the closed channel, and the process panics.
\<close>
theorem watchdog_restart_panics:
  assumes "wd_panic w = None" and "wd_done w" and "wd_running w = 0"
    and "WD_Start p now ts w = (e, w1)" and "wd_run w1 ls w2" and "LExit \<in> set ls"
  shows "e = None \<and> WD_IsRunning w1 \<and> wd_panic w2 \<noteq> None"
proof -
  have "e = None" "wd_running w1 = 1" "wd_done w1" using assms(2,3,4) by (auto simp: WD_Start_def wd_call_defs)
  with done_exit_panics [OF assms(5)] assms(6) show ?thesis by (simp add: WD_IsRunning_def)
qed

theorem watchdog_restart_panics_witness:
  "\<exists>w w1 w2. WD_Stop 0 (snd (WD_Start False 0 0 (NewWatchdog ''k'' 10 30))) = Some (None, w) \<and>
     WD_Start False 0 0 w = (None, w1) \<and> wd_run w1 [LBegin, LCancel, LExit] w2 \<and> wd_panic w2 \<noteq> None"
proof -
  let ?a = "snd (WD_Start False 0 0 (NewWatchdog ''k'' 10 30))"
  define w where "w = snd (the (WD_Stop 0 ?a))"
  have w: "WD_Stop 0 ?a = Some (None, w)" "wd_panic w = None" "wd_done w" "wd_running w = 0"
    by (simp_all add: w_def WD_Stop_def wait_done_def wd_defs NewWatchdog_def)
  define w1 where "w1 = snd (WD_Start False 0 0 w)"
  have w1: "WD_Start False 0 0 w = (None, w1)" by (simp add: w1_def WD_Start_def start_cas_def w(4))
  have "\<exists>w2. wd_exec w1 [LBegin, LCancel, LExit] = Some w2"
    by (simp add: w1_def w_def WD_Stop_def wait_done_def wd_defs NewWatchdog_def)
  then obtain w2 where r: "wd_run w1 [LBegin, LCancel, LExit] w2" using wd_exec_run by blast
  from watchdog_restart_panics [OF w(2,3,4) w1 r] have "wd_panic w2 \<noteq> None" by simp
  with w(1) w1 r show ?thesis by blast
qed

text \<open>
  a cancelled watchdog looks alive. When the context given to \<open>Start\<close> ends, the goroutine is gone,
  but \<open>IsRunning\<close> stays true along every run without \<open>Stop\<close> or another accepted \<open>Start\<close>, nothing
  is renewed any more, and the manager refuses to start a new watchdog for the key.
\<close>
theorem cancelled_watchdog_looks_alive:
  assumes "wd_running w = 1" and "wd_spawned w = 0" and "wd_looping w = 0"
    and "wd_starting w = 0 \<and> wd_contexted w = 0 \<and> wd_reset w = 0" and "wd_run w ls w'" and "list_all (\<lambda>l. case l of LStop ts \<Rightarrow> False | _ \<Rightarrow> True) ls"
    and "map_of m key = Some w'"
  shows "WD_IsRunning w' \<and> WD_GetStats w' = WD_GetStats w \<and>
    StartWatchdog p now ts key interval ttl m =
      (Some (watchdog_error ErrCodeInvalidOperation msgWatchdogExists key ts), m)"
proof -
  have "wd_running w' = 1 \<and> wd_spawned w' = 0 \<and> wd_looping w' = 0 \<and>
      (wd_starting w' = 0 \<and> wd_contexted w' = 0 \<and> wd_reset w' = 0) \<and> wd_stats w' = wd_stats w"
    using assms(5,1-4,6)
  proof (induction rule: wd_run.induct)
    case (run_snoc w ls w1 l w2)
    then have "wd_running w1 = 1 \<and> wd_spawned w1 = 0 \<and> wd_looping w1 = 0 \<and>
      (wd_starting w1 = 0 \<and> wd_contexted w1 = 0 \<and> wd_reset w1 = 0) \<and> wd_stats w1 = wd_stats w" by simp
    with run_snoc.hyps(2) run_snoc.prems(5) show ?case
      by (cases rule: wd_step.cases) (auto simp: wd_call_defs)
  qed simp
  with assms(7) show ?thesis by (simp add: WD_IsRunning_def WD_GetStats_def StartWatchdog_def Let_def)
qed

theorem cancelled_watchdog_looks_alive_witness:
  "\<exists>w'. wd_run (NewWatchdog ''k'' 10 30) [LStart 0, LContext False, LInit 0, LGo, LBegin, LCancel, LExit] w' \<and> WD_IsRunning w' \<and>
     StartWatchdog False 0 0 ''k'' 10 30 [(''k'', w')] =
       (Some (watchdog_error ErrCodeInvalidOperation msgWatchdogExists ''k'' 0), [(''k'', w')])"
proof -
  let ?ls = "[LStart 0, LContext False, LInit 0, LGo, LBegin, LCancel, LExit]"
  define w where "w = the (wd_exec (NewWatchdog ''k'' 10 30) ?ls)"
  have w: "wd_exec (NewWatchdog ''k'' 10 30) ?ls = Some w" "wd_running w = 1" "wd_spawned w = 0" "wd_looping w = 0"
    "wd_starting w = 0 \<and> wd_contexted w = 0 \<and> wd_reset w = 0"
    by (simp_all add: w_def wd_defs NewWatchdog_def)
  from cancelled_watchdog_looks_alive [OF w(2-5) run_Nil, of "[(''k'', w)]" "''k''" False 0 0 10 30] wd_exec_run [OF w(1)]
  show ?thesis by auto
qed

end
