(* ===== verification/WatchedLock.thy ===== *)
theory WatchedLock
  imports Watchdog RedisFairQueue
begin

text \<open>
  A lock together with its watchdog and everybody else: the ticks of the watchdog of
  \<open>src/watchdog.go\<close> interleave with the operations of any number of clients. What a lock must offer is
  the locale \<open>watched_lease\<close>, an extension of the lease contract by the renewal the ticks make; it is
  interpreted on the in-process lock and on the two distributed locks that can be renewed.
\<close>

section \<open>Ticks among other operations\<close>

text \<open>An event is an operation of the lock, or a tick with what happens to its request and the time it reads.\<close>

datatype ('e, 't) watched = Other 'e | Tick 't gotime

fun watched_step ::
    "('e \<Rightarrow> 's \<Rightarrow> 'r \<times> 's) \<Rightarrow> ('t \<Rightarrow> duration \<Rightarrow> 's \<Rightarrow> (bool \<times> err option) \<times> 's) \<Rightarrow> ('e, 't) watched
       \<Rightarrow> WatchdogImpl \<times> 's \<Rightarrow> 'r option \<times> (WatchdogImpl \<times> 's)" where
  "watched_step step renew (Other e) (w, s) = (case step e s of (r, s') \<Rightarrow> (Some r, (w, s')))"
| "watched_step step renew (Tick t now) (w, s) = (None, performExtend (\<lambda>timeout. renew t) now (w, s))"

text \<open>
  The schedule: the instant until which the lock is safe, moved on by every tick that \<open>reaches\<close> the lock;
  \<open>None\<close> when an event ends after it, gives the lease up, or makes the watchdog's handle forget its value.
\<close>

fun safe_until ::
    "('e \<Rightarrow> 's \<Rightarrow> 'r \<times> 's) \<Rightarrow> ('s \<Rightarrow> int) \<Rightarrow> ('e \<Rightarrow> 's \<Rightarrow> bool) \<Rightarrow> ('e \<Rightarrow> bool)
       \<Rightarrow> ('t \<Rightarrow> duration \<Rightarrow> 's \<Rightarrow> (bool \<times> err option) \<times> 's) \<Rightarrow> ('t \<Rightarrow> bool) \<Rightarrow> int
       \<Rightarrow> duration \<Rightarrow> ('e, 't) watched list \<Rightarrow> 's \<Rightarrow> int \<Rightarrow> int option" where
  "safe_until step clock yields quiet renew reaches span ttl [] s D = Some D"
| "safe_until step clock yields quiet renew reaches span ttl (Other e # evs) s D =
     (let s' = snd (step e s)
      in if D < clock s' \<or> yields e s \<or> \<not> quiet e then None
         else safe_until step clock yields quiet renew reaches span ttl evs s' D)"
| "safe_until step clock yields quiet renew reaches span ttl (Tick t now # evs) s D =
     (let s' = snd (renew t ttl s)
      in if D < clock s' then None
         else safe_until step clock yields quiet renew reaches span ttl evs s'
                (if reaches t then clock s' + span else min D (clock s' + span)))"

definition reached :: "('t \<Rightarrow> bool) \<Rightarrow> ('e, 't) watched list \<Rightarrow> nat" where
  "reached reaches evs = length (filter (\<lambda>ev. case ev of Tick t now \<Rightarrow> reaches t | Other e \<Rightarrow> False) evs)"

definition missed :: "('t \<Rightarrow> bool) \<Rightarrow> ('e, 't) watched list \<Rightarrow> nat" where
  "missed reaches evs = length (filter (\<lambda>ev. case ev of Tick t now \<Rightarrow> \<not> reaches t | Other e \<Rightarrow> False) evs)"

lemma reached_missed_simps [simp]:
  "reached p [] = 0" "missed p [] = 0" "reached p (Other e # evs) = reached p evs" "missed p (Other e # evs) = missed p evs"
  "reached p (Tick t now # evs) = (if p t then 1 else 0) + reached p evs"
  "missed p (Tick t now # evs) = (if p t then 0 else 1) + missed p evs"
  by (simp_all add: reached_def missed_def)

definition nobody_granted :: "('e \<Rightarrow> 'r \<Rightarrow> bool) \<Rightarrow> ('e, 't) watched list \<Rightarrow> 'r option list \<Rightarrow> bool" where
  "nobody_granted granted evs rs \<longleftrightarrow>
     list_all (\<lambda>(ev, r). case (ev, r) of (Other e, Some x) \<Rightarrow> \<not> granted e x | _ \<Rightarrow> True) (zip evs rs)"

lemma nobody_granted_simps [simp]:
  "nobody_granted granted [] rs" 
  "nobody_granted granted (Other e # evs) (Some x # rs) \<longleftrightarrow> \<not> granted e x \<and> nobody_granted granted evs rs"
  "nobody_granted granted (Tick t now # evs) (y # rs) \<longleftrightarrow> nobody_granted granted evs rs"
  by (simp_all add: nobody_granted_def)

locale watched_lease = leased step clock lease granted yields
  for step :: "'e \<Rightarrow> 's \<Rightarrow> 'r \<times> 's" and clock and lease and granted and yields +
  fixes renew :: "'t \<Rightarrow> duration \<Rightarrow> 's \<Rightarrow> (bool \<times> err option) \<times> 's"
    and reaches :: "'t \<Rightarrow> bool" and has_value :: "string \<Rightarrow> 's \<Rightarrow> bool" and quiet :: "'e \<Rightarrow> bool"
    and ok_ttl :: "duration \<Rightarrow> bool" and span :: "duration \<Rightarrow> int"
  assumes quiet_keeps: "has_value v s \<Longrightarrow> quiet e \<Longrightarrow> has_value v (snd (step e s))"
    and renew_keeps: "has_value v s \<Longrightarrow> has_value v (snd (renew t ttl s))"
    and renew_lease: "lease s = Some (v, E) \<Longrightarrow> has_value v s \<Longrightarrow> ok_ttl ttl \<Longrightarrow> clock (snd (renew t ttl s)) \<le> E \<Longrightarrow>
      (fst (renew t ttl s) = (True, None) \<longleftrightarrow> reaches t) \<and>
      (\<exists>E'. lease (snd (renew t ttl s)) = Some (v, E') \<and>
        (if reaches t then clock (snd (renew t ttl s)) + span ttl
         else min E (clock (snd (renew t ttl s)) + span ttl)) \<le> E')"
begin

abbreviation "watch \<equiv> watched_step step renew"
abbreviation "safe ttl \<equiv> safe_until step clock yields quiet renew reaches (span ttl) ttl"

lemma watched_kept:
  assumes "lease s = Some (v, E)" and "D \<le> E" and "has_value v s" and "ok_ttl (wd_ttl w)"
    and "safe (wd_ttl w) evs s D = Some D'" and "run watch evs (w, s) = (rs, (w', s'))"
  shows "nobody_granted granted evs rs \<and> (\<exists>E'\<ge>D'. lease s' = Some (v, E')) \<and> has_value v s' \<and>
    ws_ExtendCount (wd_stats w') = ws_ExtendCount (wd_stats w) + of_nat (reached reaches evs) \<and>
    ws_FailedExtends (wd_stats w') = ws_FailedExtends (wd_stats w) + of_nat (missed reaches evs)"
  using assms
proof (induction evs arbitrary: s w E D rs)
  case (Cons ev evs)
  show ?case
  proof (cases ev)
    case (Other e)
    let ?s1 = "snd (step e s)"
    from Cons.prems(5) have c: "clock ?s1 \<le> D" "\<not> yields e s" "quiet e" "safe (wd_ttl w) evs ?s1 D = Some D'"
      by (auto simp: Other Let_def split: if_splits)
    obtain E1 where k: "\<not> granted e (fst (step e s))" "E \<le> E1" "lease ?s1 = Some (v, E1)"
      using lease_kept [OF Cons.prems(1) _ c(2)] c(1) Cons.prems(2) by auto
    obtain rs1 where rs: "rs = Some (fst (step e s)) # rs1" "run watch evs (w, ?s1) = (rs1, (w', s'))"
      using Cons.prems(6) by (auto simp: Other case_prod_beta Let_def prod_eq_iff)
    have "D \<le> E1" using k(2) Cons.prems(2) by simp
    from Cons.IH [OF k(3) this quiet_keeps [OF Cons.prems(3) c(3)] Cons.prems(4) c(4) rs(2)] k(1) rs(1)
    show ?thesis by (simp add: Other)
  next
    case (Tick t now)
    let ?r = "renew t (wd_ttl w) s"
    let ?w1 = "w\<lparr>wd_stats := record_extend (fst (fst ?r)) (snd (fst ?r)) now (wd_stats w)\<rparr>"
    let ?D1 = "if reaches t then clock (snd ?r) + span (wd_ttl w) else min D (clock (snd ?r) + span (wd_ttl w))"
    from Cons.prems(5) have c: "clock (snd ?r) \<le> D" "safe (wd_ttl w) evs (snd ?r) ?D1 = Some D'"
      by (auto simp: Tick Let_def split: if_splits)
    with Cons.prems(2) have "clock (snd ?r) \<le> E" by simp
    from renew_lease [OF Cons.prems(1,3,4) this] obtain E1 where
      k: "fst ?r = (True, None) \<longleftrightarrow> reaches t" "lease (snd ?r) = Some (v, E1)"
      "(if reaches t then clock (snd ?r) + span (wd_ttl w) else min E (clock (snd ?r) + span (wd_ttl w))) \<le> E1" by blast
    have D1: "?D1 \<le> E1" using k(3) Cons.prems(2) by (auto split: if_splits)
    obtain rs1 where rs: "rs = None # rs1" "run watch evs (?w1, snd ?r) = (rs1, (w', s'))"
      using Cons.prems(6) by (auto simp: Tick performExtend_def case_prod_beta Let_def prod_eq_iff)
    have w1: "wd_ttl ?w1 = wd_ttl w"
      "ws_ExtendCount (wd_stats ?w1) = ws_ExtendCount (wd_stats w) + (if reaches t then 1 else 0)"
      "ws_FailedExtends (wd_stats ?w1) = ws_FailedExtends (wd_stats w) + (if reaches t then 0 else 1)"
      using k(1) by (cases "fst ?r"; auto simp: record_extend_def Let_def)+
    from Cons.IH [OF k(2) D1 renew_keeps [OF Cons.prems(3)] _ _ rs(2)] Cons.prems(4) c(2) w1 rs(1)
    show ?thesis by (simp add: Tick)
  qed
qed simp

end

section \<open>The in-process lock\<close>

text \<open>The request of a tick passes no network; the delays are those before and after the context check.\<close>

fun local_renew :: "nat \<times> nat \<Rightarrow> duration \<Rightarrow> gotime \<times> 'd ShardedLock \<Rightarrow> (bool \<times> err option) \<times> gotime \<times> 'd ShardedLock" where
  "local_renew (d1, d2) ttl (now, l) =
     (case SL_Extend ttl (now + int d1 + int d2) l of (r, l') \<Rightarrow> (r, (now + int d1 + int d2, l')))"

interpretation local_watched: watched_lease sl_step fst sl_lease sl_granted sl_yields
    local_renew "\<lambda>_. True" "\<lambda>_ _. True" "\<lambda>_. True" "\<lambda>_. True" sint
proof unfold_locales
  fix s :: "gotime \<times> 'd ShardedLock" and v E and t :: "nat \<times> nat" and ttl
  assume a: "sl_lease s = Some (v, E)" "fst (snd (local_renew t ttl s)) \<le> E"
  obtain now l where s: "s = (now, l)" by (cases s)
  obtain d1 d2 where t: "t = (d1, d2)" by (cases t)
  show "(fst (local_renew t ttl s) = (True, None)) = True \<and>
      (\<exists>E'. sl_lease (snd (local_renew t ttl s)) = Some (v, E') \<and>
        (if True then fst (snd (local_renew t ttl s)) + sint ttl
         else min E (fst (snd (local_renew t ttl s)) + sint ttl)) \<le> E')"
    using a by (auto simp: s t sl_lease_def SL_Extend_def time_add_def time_after_def split: if_splits)
qed simp_all

section \<open>The distributed locks\<close>

text \<open>
  A tick of client \<open>i\<close> is a delay in milliseconds, the fate of its request and the time an error is stamped
  with. It reaches the lock if the request and its reply are delivered; after a lost reply the server may
  have renewed the lock, or not.
\<close>

type_synonym redis_tick = "nat \<times> net \<times> gotime"

fun delivered :: "redis_tick \<Rightarrow> bool" where
  "delivered (d, net, ts) = (net = Delivered)"

fun keeps_value :: "(nat \<Rightarrow> string) \<Rightarrow> string \<Rightarrow> nat \<Rightarrow> string \<Rightarrow> (nat \<Rightarrow> string) \<times> 's \<Rightarrow> bool" where
  "keeps_value keyof key i v (vals, s) = (keyof i = key \<and> vals i = v)"

fun rs_renew ::
    "'s server \<Rightarrow> (duration \<Rightarrow> string) \<Rightarrow> (nat \<Rightarrow> 's \<Rightarrow> 's) \<Rightarrow> (nat \<Rightarrow> string) \<Rightarrow> nat \<Rightarrow> redis_tick \<Rightarrow> duration
       \<Rightarrow> (nat \<Rightarrow> string) \<times> 's \<Rightarrow> (bool \<times> err option) \<times> (nat \<Rightarrow> string) \<times> 's" where
  "rs_renew exec fmt elapse keyof i (d, net, ts) ttl (vals, s) =
     (case RS_Extend exec fmt net ttl ts \<lparr>rs_key = keyof i, rs_value = vals i\<rparr> (elapse d s) of
        (r, s') \<Rightarrow> (r, (vals, s')))"

fun rf_renew ::
    "'s server \<Rightarrow> (nat \<Rightarrow> 's \<Rightarrow> 's) \<Rightarrow> (nat \<Rightarrow> string) \<Rightarrow> nat \<Rightarrow> redis_tick \<Rightarrow> duration
       \<Rightarrow> (nat \<Rightarrow> string) \<times> 's \<Rightarrow> (bool \<times> err option) \<times> (nat \<Rightarrow> string) \<times> 's" where
  "rf_renew exec elapse keyof i (d, net, ts) ttl (vals, s) =
     (case RF_Extend exec net ttl ts ((newRedisFairLock (keyof i))\<lparr>rf_value := vals i\<rparr>) (elapse d s) of
        (r, s') \<Rightarrow> (r, (vals, s')))"

text \<open>A handle forgets the value it holds the lock with when it is asked to lock again, granted or not.\<close>

fun rs_quiet :: "nat \<Rightarrow> sl_op sent \<Rightarrow> bool" where
  "rs_quiet i (d, j, net, ts, oper) = (j \<noteq> i \<or> (case oper of TryLockOp opts uv \<Rightarrow> False | _ \<Rightarrow> True))"

fun rf_quiet :: "nat \<Rightarrow> rf_op sent \<Rightarrow> bool" where
  "rf_quiet i (d, j, net, ts, oper) = (j \<noteq> i \<or> (case oper of TryLockF opts uv \<Rightarrow> False | _ \<Rightarrow> True))"

lemma rs_quiet_keeps:
  "keeps_value keyof key i v st \<Longrightarrow> rs_quiet i e \<Longrightarrow> keeps_value keyof key i v (snd (rs_step exec fmt elapse keyof e st))"
  by (cases st; cases e; cases "snd (snd (snd (snd e)))")
     (auto simp: rs_step.simps Let_def case_prod_beta)

lemma rf_quiet_keeps:
  "keeps_value keyof key i v st \<Longrightarrow> rf_quiet i e \<Longrightarrow> keeps_value keyof key i v (snd (rf_step exec fmt elapse keyof e st))"
  by (cases st; cases e; cases "snd (snd (snd (snd e)))")
     (auto simp: rf_step.simps Let_def case_prod_beta)

lemma renews_keep_value:
  "keeps_value keyof key i v st \<Longrightarrow> keeps_value keyof key i v (snd (rs_renew exec fmt elapse keyof i t ttl st))"
  "keeps_value keyof key i v st \<Longrightarrow> keeps_value keyof key i v (snd (rf_renew exec elapse keyof i t ttl st))"
  by (cases st; cases t; simp add: case_prod_beta)+

text \<open>What a network fate makes of a request that the server answers with 1.\<close>

lemma renewal_reply:
  assumes "fst (script s) = RInt 1"
  shows "as_int (fst (client_eval net script s)) = Inr 1 \<longleftrightarrow> net = Delivered"
    and "net = Delivered \<Longrightarrow> snd (client_eval net script s) = snd (script s)"
proof -
  obtain s' where "script s = (RInt 1, s')" using assms by (cases "script s") simp
  then show "as_int (fst (client_eval net script s)) = Inr 1 \<longleftrightarrow> net = Delivered"
    by (cases net) (simp_all add: client_eval_def as_int_def)
qed (simp add: client_eval_state)

lemma renewal_states: "snd (client_eval net script s) \<in> {s, snd (script s)}"
  by (simp add: client_eval_state split: net.split)

context redis_server begin

text \<open>
  The renewal of a lease by a script that, on a lock held with the client's value, answers 1 and sets the expiry.
\<close>

lemma renewal_lease:
  assumes live: "db s key = Some (VStr v, Some F)" and one: "fst (script s) = RInt 1"
    and set: "db (snd (script s)) key = Some (VStr v, Some (now_ms s + m))"
    and now: "now_ms (snd (script s)) = now_ms s"
  shows "now_ms (snd (client_eval net script s)) = now_ms s"
    and "\<exists>E'. rs_lease db key (vals, snd (client_eval net script s)) = Some (v, E') \<and>
      (if net = Delivered then now_ms s + (m - 1) else min (F - 1) (now_ms s + (m - 1))) \<le> E'"
  using renewal_reply(2) [of script s net, OF one] renewal_states [of net script s] live set now
  by (auto simp: rs_lease_def)

end

context redis_clients begin

lemma rs_renew_lease:
  assumes "rs_lease db key st = Some (v, E)" and "keeps_value keyof key i v st" and "whole_seconds ttl"
    and "now_ms (snd (snd (rs_renew exec fmt elapse keyof i t ttl st))) \<le> E"
  shows "(fst (rs_renew exec fmt elapse keyof i t ttl st) = (True, None) \<longleftrightarrow> delivered t) \<and>
    (\<exists>E'. rs_lease db key (snd (rs_renew exec fmt elapse keyof i t ttl st)) = Some (v, E') \<and>
      (if delivered t
       then now_ms (snd (snd (rs_renew exec fmt elapse keyof i t ttl st))) + (sint ttl div 1000000 - 1)
       else min E (now_ms (snd (snd (rs_renew exec fmt elapse keyof i t ttl st))) + (sint ttl div 1000000 - 1))) \<le> E')"
proof -
  obtain vals s where st: "st = (vals, s)" by (cases st)
  obtain d net ts where t: "t = (d, net, ts)" by (cases t)
  let ?s = "elapse d s" and ?sc = "SimpleLockExtendScript exec [key] [v, fmt ttl]"
  have k: "keyof i = key" "vals i = v" using assms(2) by (simp_all add: st)
  have run: "snd (rs_renew exec fmt elapse keyof i t ttl st) = (vals, snd (client_eval net ?sc ?s))"
    "fst (rs_renew exec fmt elapse keyof i t ttl st) = (True, None) \<longleftrightarrow> as_int (fst (client_eval net ?sc ?s)) = Inr 1"
    by (simp_all add: st t k RS_Extend_def case_prod_beta split: sum.split)
  have ttl: "0 < sint ttl" "sint ttl mod 1000000000 = 0" using assms(3) by (simp_all add: whole_seconds_def)
  have F: "db s key = Some (VStr v, Some (E + 1))"
    using assms(1) by (auto simp: rs_lease_def st split: option.splits rval.splits prod.splits)
  have "now_ms ?s \<le> E" using assms(4) by (simp add: run now_client_eval)
  then have live: "db ?s key = Some (VStr v, Some (E + 1))" by (intro db_elapse_live [OF F]) simp
  then have h: "holder ?s key = Some v" "\<not> is_list ?s key" by (simp_all add: holder_def is_list_def)
  have one: "fst (?sc ?s) = RInt 1" using extend_script(1) [OF seconds_format_whole [OF fmt ttl]] h by simp
  have set: "db (snd (?sc ?s)) key = Some (VStr v, Some (now_ms ?s + sint ttl div 1000000))"
    by (rule seconds_exact [OF ttl]) (simp add: h db_extend)
  have now: "now_ms (snd (?sc ?s)) = now_ms ?s" by simp
  from renewal_lease [where script = ?sc and net = net, OF live one set now] renewal_reply(1) [of ?sc ?s net, OF one]
  show ?thesis unfolding run by (cases "net = Delivered") (auto simp: t)
qed

end

context redis_fair_key begin

lemma rf_renew_lease:
  assumes "rs_lease db key st = Some (v, E)" and "keeps_value keyof key i v st" and "0 < rf_ms ttl"
    and "now_ms (snd (snd (rf_renew exec elapse keyof i t ttl st))) \<le> E"
  shows "(fst (rf_renew exec elapse keyof i t ttl st) = (True, None) \<longleftrightarrow> delivered t) \<and>
    (\<exists>E'. rs_lease db key (snd (rf_renew exec elapse keyof i t ttl st)) = Some (v, E') \<and>
      (if delivered t then now_ms (snd (snd (rf_renew exec elapse keyof i t ttl st))) + (rf_ms ttl - 1)
       else min E (now_ms (snd (snd (rf_renew exec elapse keyof i t ttl st))) + (rf_ms ttl - 1))) \<le> E')"
proof -
  obtain vals s where st: "st = (vals, s)" by (cases st)
  obtain d net ts where t: "t = (d, net, ts)" by (cases t)
  let ?s = "elapse d s" and ?sc = "FairLockExtendScript exec [key] [v, dec (rf_ms ttl)]"
  have k: "keyof i = key" "vals i = v" using assms(2) by (simp_all add: st)
  have run: "snd (rf_renew exec elapse keyof i t ttl st) = (vals, snd (client_eval net ?sc ?s))"
    "fst (rf_renew exec elapse keyof i t ttl st) = (True, None) \<longleftrightarrow> as_int (fst (client_eval net ?sc ?s)) = Inr 1"
    by (simp_all add: st t k RF_Extend_def rf_ms_def case_prod_beta Let_def split: sum.split)
  have F: "db s key = Some (VStr v, Some (E + 1))"
    using assms(1) by (auto simp: rs_lease_def st split: option.splits rval.splits prod.splits)
  have "now_ms ?s \<le> E" using assms(4) by (simp add: run now_client_eval)
  then have live: "db ?s key = Some (VStr v, Some (E + 1))" by (intro db_elapse_live [OF F]) simp
  then have h: "fair_holder db key ?s = Some v" "\<not> is_list ?s key" by (simp_all add: fair_holder_def is_list_def)
  have one: "fst (?sc ?s) = RInt 1" using h rf_ms_bounds [of ttl] by (simp add: extend_script_fair)
  have set: "db (snd (?sc ?s)) key = Some (VStr v, Some (now_ms ?s + rf_ms ttl))"
    using h rf_ms_bounds [of ttl] assms(3) by (simp add: extend_script_fair)
  have now: "now_ms (snd (?sc ?s)) = now_ms ?s" by simp
  from renewal_lease [where script = ?sc and net = net, OF live one set now] renewal_reply(1) [of ?sc ?s net, OF one]
  show ?thesis unfolding run by (cases "net = Delivered") (auto simp: t)
qed

end

sublocale redis_clients < simple_watched: watched_lease "rs_step exec fmt elapse keyof" "\<lambda>st. now_ms (snd st)"
    "rs_lease db key" "rs_granted keyof key" "rs_yields db now_ms keyof key"
    "rs_renew exec fmt elapse keyof i" delivered "keeps_value keyof key i" "rs_quiet i" whole_seconds
    "\<lambda>ttl. sint ttl div 1000000 - 1"
  for keyof :: "nat \<Rightarrow> string" and key :: string and i :: nat
  by unfold_locales (erule (1) rs_quiet_keeps | erule renews_keep_value(1) | rule rs_renew_lease; assumption)+

sublocale redis_fair_key < fair_watched: watched_lease "rf_step exec fmt elapse keyof" "\<lambda>st. now_ms (snd st)"
    "rs_lease db key" "rf_granted keyof key" "rf_yields db now_ms keyof key"
    "rf_renew exec elapse keyof i" delivered "keeps_value keyof key i" "rf_quiet i" "\<lambda>ttl. 0 < rf_ms ttl"
    "\<lambda>ttl. rf_ms ttl - 1"
  for i :: nat
  by unfold_locales (erule (1) rf_quiet_keeps | erule renews_keep_value(2) | rule rf_renew_lease; assumption)+

interpretation ref_watched: watched_lease "rs_step ref_exec ref_fmt ref_elapse (\<lambda>_. ''k'')" "\<lambda>st. rs_now (snd st)"
    "rs_lease ref_db ''k''" "rs_granted (\<lambda>_. ''k'') ''k''" "rs_yields ref_db rs_now (\<lambda>_. ''k'') ''k''"
    "rs_renew ref_exec ref_fmt ref_elapse (\<lambda>_. ''k'') 0" delivered "keeps_value (\<lambda>_. ''k'') ''k'' 0" "rs_quiet 0"
    whole_seconds "\<lambda>ttl. sint ttl div 1000000 - 1"
  by (rule ref_clients.simple_watched.watched_lease_axioms)

context redis_clients begin

lemma now_rs_renew: "now_ms (snd (snd (rs_renew exec fmt elapse keyof i (d, net, ts) ttl st))) = now_ms (snd st) + int d"
  by (cases st) (simp add: case_prod_beta RS_states now_client_eval)

lemma watched_grant:
  assumes "keyof i = key"
    and "rs_step exec fmt elapse keyof (d, i, net, ts, TryLockOp opts uv) st = (BoolRes True e, st1)"
    and "whole_seconds (wd_ttl w)"
    and "safe_until (rs_step exec fmt elapse keyof) (\<lambda>st. now_ms (snd st)) (rs_yields db now_ms keyof key) (rs_quiet i)
        (rs_renew exec fmt elapse keyof i) delivered (sint (wd_ttl w) div 1000000 - 1) (wd_ttl w) evs st1
        (now_ms (snd st1) + sint (LockTTL (ApplyLockOptions opts uv)) div 1000000 - 1) = Some D"
    and "run (watched_step (rs_step exec fmt elapse keyof) (rs_renew exec fmt elapse keyof i)) evs (w, st1) = (rs, w', st2)"
  shows "nobody_granted (rs_granted keyof key) evs rs \<and>
    (\<exists>E\<ge>D. rs_lease db key st2 = Some (Value (ApplyLockOptions opts uv), E)) \<and>
    ws_ExtendCount (wd_stats w') = ws_ExtendCount (wd_stats w) + of_nat (reached delivered evs) \<and>
    ws_FailedExtends (wd_stats w') = ws_FailedExtends (wd_stats w) + of_nat (missed delivered evs)"
proof -
  have "keeps_value keyof key i (Value (ApplyLockOptions opts uv)) st1"
    using assms(1,2) RS_TryLock_facts(2) by (cases st) (auto simp: rs_step.simps Let_def case_prod_beta)
  moreover obtain E where "rs_lease db key st1 = Some (Value (ApplyLockOptions opts uv), E)"
    and "now_ms (snd st1) + sint (LockTTL (ApplyLockOptions opts uv)) div 1000000 - 1 \<le> E"
    by (rule rs_grant_lease [OF assms(2,1)])
  ultimately show ?thesis using simple_watched.watched_kept [OF _ _ _ assms(3,4,5)] by blast
qed

end

context redis_fair_key begin

lemma watched_fair_grant:
  assumes "keyof i = key"
    and "rf_step exec fmt elapse keyof (d, i, net, ts, TryLockF opts uv) st = (BoolRes True e, st1)"
    and "0 < rf_ms (wd_ttl w)"
    and "safe_until (rf_step exec fmt elapse keyof) (\<lambda>st. now_ms (snd st)) (rf_yields db now_ms keyof key) (rf_quiet i)
        (rf_renew exec elapse keyof i) delivered (rf_ms (wd_ttl w) - 1) (wd_ttl w) evs st1
        (now_ms (snd st1) + sint (rf_lockTTL (ApplyLockOptions opts uv)) div 1000000 - 1) = Some D"
    and "run (watched_step (rf_step exec fmt elapse keyof) (rf_renew exec elapse keyof i)) evs (w, st1) = (rs, w', st2)"
  shows "nobody_granted (rf_granted keyof key) evs rs \<and>
    (\<exists>E\<ge>D. rs_lease db key st2 = Some (Value (ApplyLockOptions opts uv), E)) \<and>
    ws_ExtendCount (wd_stats w') = ws_ExtendCount (wd_stats w) + of_nat (reached delivered evs) \<and>
    ws_FailedExtends (wd_stats w') = ws_FailedExtends (wd_stats w) + of_nat (missed delivered evs)"
proof -
  have "keeps_value keyof key i (Value (ApplyLockOptions opts uv)) st1"
    using assms(1,2)
    by (cases st) (auto simp: rf_step.simps RF_TryLock_def Let_def case_prod_beta split: sum.splits)
  moreover obtain E where "rs_lease db key st1 = Some (Value (ApplyLockOptions opts uv), E)"
    and "now_ms (snd st1) + sint (rf_lockTTL (ApplyLockOptions opts uv)) div 1000000 - 1 \<le> E"
    by (rule rf_grant_lease [OF assms(2,1)])
  ultimately show ?thesis using fair_watched.watched_kept [OF _ _ _ assms(3,4,5)] by blast
qed

end

section \<open>Properties\<close>

text \<open>
  C20: a watched lock is never lost. Let a \<open>TryLock\<close> of the distributed simple lock be granted to client
  \<open>i\<close>, whose watchdog then ticks while any number of clients go on using the server, on this key and others,
  and while requests and replies get lost. As long as the schedule keeps the lock safe - nothing happens later
  than the TTL of the grant, or of the last tick that got through, allows, less the millisecond in which the key
  expires, nobody with the holder's value unlocks or shortens the lease, and client \<open>i\<close> does not call
  \<open>TryLock\<close> again - nobody else is granted the key, the key stays leased to the granted value at least until
  the end of the schedule, and the watchdog has counted the ticks that got through as renewals and the others as
  failures. The watchdog's TTL must be a whole number of seconds.
\<close>
theorem watched_redis_lock_never_lost:
  assumes "redis_clients exec db now_ms elapse fmt" and "keyof i = key"
    and "rs_step exec fmt elapse keyof (d, i, net, ts, TryLockOp opts uv) st = (BoolRes True e, st1)"
    and "whole_seconds (wd_ttl w)"
    and "safe_until (rs_step exec fmt elapse keyof) (\<lambda>st. now_ms (snd st)) (rs_yields db now_ms keyof key) (rs_quiet i)
        (rs_renew exec fmt elapse keyof i) delivered (sint (wd_ttl w) div 1000000 - 1) (wd_ttl w) evs st1
        (now_ms (snd st1) + sint (LockTTL (ApplyLockOptions opts uv)) div 1000000 - 1) = Some D"
    and "run (watched_step (rs_step exec fmt elapse keyof) (rs_renew exec fmt elapse keyof i)) evs (w, st1) = (rs, w', st2)"
  shows "nobody_granted (rs_granted keyof key) evs rs \<and>
    (\<exists>E\<ge>D. rs_lease db key st2 = Some (Value (ApplyLockOptions opts uv), E)) \<and>
    ws_ExtendCount (wd_stats w') = ws_ExtendCount (wd_stats w) + of_nat (reached delivered evs) \<and>
    ws_FailedExtends (wd_stats w') = ws_FailedExtends (wd_stats w) + of_nat (missed delivered evs)"
  by (rule redis_clients.watched_grant [OF assms])

theorem watched_redis_lock_never_lost_witness:
  "\<exists>st1 rs w' st2 E. rs_step ref_exec ref_fmt ref_elapse (\<lambda>_. ''k'') (0, 0, Delivered, 0, TryLockOp [] ''a'')
       (\<lambda>_. '''', ref_empty) = (BoolRes True None, st1) \<and>
     run (watched_step (rs_step ref_exec ref_fmt ref_elapse (\<lambda>_. ''k'')) (rs_renew ref_exec ref_fmt ref_elapse (\<lambda>_. ''k'') 0))
       [Tick (10000, ReplyLost ''eof'', 0) 0, Tick (15000, Delivered, 0) 0, Other (20000, 1, Delivered, 0, TryLockOp [] ''b'')]
       (NewWatchdog ''k'' (10 * Second) (30 * Second), st1) = (rs, w', st2) \<and>
     rs_lease ref_db ''k'' st2 = Some (''a'', E) \<and> 54999 \<le> E \<and>
     ws_ExtendCount (wd_stats w') = 1 \<and> ws_FailedExtends (wd_stats w') = 1"
proof -
  let ?step = "rs_step ref_exec ref_fmt ref_elapse (\<lambda>_. ''k'')" and ?renew = "rs_renew ref_exec ref_fmt ref_elapse (\<lambda>_. ''k'') 0"
  let ?e = "(0, 0, Delivered, 0, TryLockOp [] ''a'') :: sl_op sent" and ?w = "NewWatchdog ''k'' (10 * Second) (30 * Second)"
  let ?evs = "[Tick (10000, ReplyLost ''eof'', 0) 0, Tick (15000, Delivered, 0) 0,
      Other (20000, 1, Delivered, 0, TryLockOp [] ''b'')] :: (sl_op sent, redis_tick) watched list"
  let ?l = "\<lparr>rs_key = ''k'', rs_value = ''''\<rparr>" and ?s = "ref_elapse 0 ref_empty"
  have el: "ref_db ?s = Map.empty" by (simp add: ref_db_elapse live_def fun_eq_iff)
  obtain s1 where s1: "RS_TryLock ref_exec ref_fmt Delivered [] ''a'' 0 ?l ?s =
      ((ref_db ?s (rs_key ?l) = None, None), ?l\<lparr>rs_value := Value (ApplyLockOptions [] ''a'')\<rparr>, s1)"
    using ref_clients.TryLock_whole [of "[]" "''a''" 0 ?l ?s] by (auto simp: default_ttl)
  let ?st1 = "((\<lambda>_. '''')(0 := ''a''), s1)"
  have g: "?step ?e (\<lambda>_. '''', ref_empty) = (BoolRes True None, ?st1)"
    by (simp add: rs_step.simps s1 el default_value)
  have n1: "rs_now s1 = 0"
    using ref_clients.now_rs_step [of "\<lambda>_. ''k''" 0 0 Delivered 0 "TryLockOp [] ''a''" "(\<lambda>_. '''', ref_empty)"] g
    by simp
  have ttl: "wd_ttl ?w = 30 * Second" "sint (30 * Second) = 30000000000"
    by (simp_all add: NewWatchdog_def dur_defs)
  have safe: "safe_until ?step (\<lambda>st. rs_now (snd st)) (rs_yields ref_db rs_now (\<lambda>_. ''k'') ''k'') (rs_quiet 0)
      ?renew delivered (sint (wd_ttl ?w) div 1000000 - 1) (wd_ttl ?w) ?evs ?st1
      (rs_now (snd ?st1) + sint (LockTTL (ApplyLockOptions [] ''a'')) div 1000000 - 1) = Some 54999"
    by (simp add: ttl default_ttl ref_clients.now_rs_renew ref_clients.now_rs_step n1 Let_def del: rs_renew.simps)
  have "whole_seconds (wd_ttl ?w)" by (simp add: ttl whole_seconds_def)
  moreover obtain rs w' st2 where r: "run (watched_step ?step ?renew) ?evs (?w, ?st1) = (rs, w', st2)"
    by (metis prod.collapse)
  ultimately have "(\<exists>E\<ge>54999. rs_lease ref_db ''k'' st2 = Some (''a'', E)) \<and>
      ws_ExtendCount (wd_stats w') = ws_ExtendCount (wd_stats ?w) + of_nat (reached delivered ?evs) \<and>
      ws_FailedExtends (wd_stats w') = ws_FailedExtends (wd_stats ?w) + of_nat (missed delivered ?evs)"
    using watched_redis_lock_never_lost [OF ref_clients.redis_clients_axioms refl g _ safe r]
    unfolding default_value by blast
  moreover have "ws_ExtendCount (wd_stats ?w) = 0" "ws_FailedExtends (wd_stats ?w) = 0" "reached delivered ?evs = 1" "missed delivered ?evs = 1"
    by (simp_all add: NewWatchdog_def)
  ultimately obtain E where "rs_lease ref_db ''k'' st2 = Some (''a'', E)" "54999 \<le> E"
      "ws_ExtendCount (wd_stats w') = 1" "ws_FailedExtends (wd_stats w') = 1" by auto
  with g r show ?thesis by blast
qed

end
