(* ===== verification/BlockingLock.thy ===== *)
theory BlockingLock
  imports RedisFairQueue RedisRW ShardedFair
begin

text \<open>
  What a nil error of a blocking \<open>Lock\<close> is worth. The retry loop of \<open>src/lock.go\<close>, or the waiting loop of
  \<open>src/redis_fair.go\<close>, ends with no error only right after an attempt that the lock granted; so the caller
  then holds a lease, and nobody else is granted the lock before it ends. The locale \<open>blocking_lease\<close> extends
  the lease contract by the blocking operation; it is interpreted on the in-process lock objects and on the
  three distributed locks.
\<close>

section \<open>The contract\<close>

text \<open>
  \<open>acquire\<close> is the blocking operation on the world. After a nil error the lock's state in the world,
  \<open>state_of\<close>, is leased to the caller's value, \<open>value_of\<close>, at least up to \<open>until\<close>, provided the world's handle
  is one of the lock in question (\<open>mine\<close>).
\<close>

locale blocking_lease = leased step clock lease granted yields
  for step :: "'e \<Rightarrow> 's \<Rightarrow> 'r \<times> 's" and clock and lease and granted and yields +
  fixes acquire :: "'w \<Rightarrow> (err option \<times> 'w) option"
    and mine :: "'w \<Rightarrow> bool" and state_of :: "'w \<Rightarrow> 's" and value_of :: "'w \<Rightarrow> string" and until :: "'w \<Rightarrow> int"
  assumes acquire_lease: "acquire w = Some (None, w') \<Longrightarrow> mine w' \<Longrightarrow>
      \<exists>E\<ge>until w'. lease (state_of w') = Some (value_of w', E)"
begin

lemma acquired_excludes:
  assumes "acquire w = Some (None, w')" and "mine w'"
    and "along (\<lambda>e s. \<not> yields e s) step es (state_of w')"
    and "run step es (state_of w') = (rs, s')" and "clock s' \<le> until w'"
  shows "(\<forall>(e, r) \<in> set (zip es rs). \<not> granted e r) \<and> (\<exists>E. lease s' = Some (value_of w', E))"
proof -
  obtain E where "until w' \<le> E" "lease (state_of w') = Some (value_of w', E)"
    using acquire_lease [OF assms(1,2)] by blast
  with exclusion [OF this(2) assms(3)] assms(4,5) show ?thesis by auto
qed

end

text \<open>How the retry loop ends without an error.\<close>

lemma retry_grants:
  assumes "RetryLockOperation rt cfg attempt w = Some (None, w')"
  shows "\<exists>v. attempt v = ((True, None), w')"
proof -
  obtain r where "RetryWithTimeout rt cfg False (lock_oper attempt) w = Some ((r, None), w')"
    using assms by (auto simp: RetryLockOperation_def)
  from RetryWithTimeout_outcome [OF this] obtain v where "lock_oper attempt v = ((True, r, None), w')"
    by (auto simp: retry_outcome_def)
  then show ?thesis by (intro exI [of _ v]) (auto simp: lock_oper_def split: prod.splits)
qed

text \<open>
  The world as the blocking operations see it: a cell with the handle, and with the server or the object.
  \<open>T\<close> is a duration that every configuration of the options \<open>opts\<close> has for its TTL, at least.
\<close>

locale lock_cell =
  fixes get :: "'w \<Rightarrow> 'l" and put :: "'l \<Rightarrow> 'w \<Rightarrow> 'w" and opts :: "LockOption list" and T :: int
  assumes get_put: "get (put x w) = x"
    and ttl: "T \<le> sint (LockTTL (ApplyLockOptions opts uv))"

interpretation sim_cell: lock_cell sim_data "\<lambda>x w. w\<lparr>sim_data := x\<rparr>" "[]" "sint (30 * Second)"
  by unfold_locales (simp_all add: default_ttl Second_def)

section \<open>In one process\<close>

locale object_cell = lock_cell get put opts T
  for get :: "'w \<Rightarrow> 'd ShardedLock" and put :: "'d ShardedLock \<Rightarrow> 'w \<Rightarrow> 'w" and opts :: "LockOption list" and T :: int
begin

lemma SL_attempt_lease:
  assumes "SL_attempt rt get put opts w = ((True, None), w')"
  shows "sl_lease (now, get w') = Some (sl_value (get w'), expireAt (get w'))"
  using assms by (auto simp: SL_attempt_def SL_TryLock_def Let_def get_put sl_lease_def split: prod.splits if_splits)

end

sublocale object_cell < object_lock: blocking_lease sl_step fst sl_lease sl_granted sl_yields
    "SL_Lock rt get put opts" "\<lambda>_. True" "\<lambda>w. (now, get w)" "\<lambda>w. sl_value (get w)" "\<lambda>w. expireAt (get w)"
  for rt :: "'w go_rt" and now :: gotime
proof unfold_locales
  fix w w'
  assume "SL_Lock rt get put opts w = Some (None, w')"
  then obtain v where "SL_attempt rt get put opts v = ((True, None), w')"
    by (auto simp: SL_Lock_def split: prod.splits dest!: retry_grants)
  from SL_attempt_lease [OF this]
  show "\<exists>E\<ge>expireAt (get w'). sl_lease (now, get w') = Some (sl_value (get w'), E)" by blast
qed

locale fair_cell = lock_cell get put opts T
  for get :: "'w \<Rightarrow> fair_lock" and put :: "fair_lock \<Rightarrow> 'w \<Rightarrow> 'w" and opts :: "LockOption list" and T :: int
begin

lemma fair_attempt_lease:
  assumes "fair_attempt rt get put opts w = ((True, None), w')"
  shows "sl_lease (now, get w') = Some (sl_value (get w'), expireAt (get w'))"
  using assms
  by (auto simp: fair_attempt_def TryFairLockFair_def Let_def get_put sl_lease_def split: prod.splits if_splits)

end

sublocale fair_cell < fair_object: blocking_lease fair_step fst sl_lease sl_granted sl_yields
    "fair_Lock rt get put key opts" "\<lambda>_. True" "\<lambda>w. (now, get w)" "\<lambda>w. sl_value (get w)" "\<lambda>w. expireAt (get w)"
  for rt :: "'w go_rt" and now :: gotime and key :: string
proof unfold_locales
  fix w w'
  assume "fair_Lock rt get put key opts w = Some (None, w')"
  then obtain v where "fair_attempt rt get put opts v = ((True, None), w')"
    by (auto simp: fair_Lock_def split: prod.splits dest!: retry_grants)
  from fair_attempt_lease [OF this]
  show "\<exists>E\<ge>expireAt (get w'). sl_lease (now, get w') = Some (sl_value (get w'), E)" by blast
qed

interpretation sim_object: object_cell sim_data "\<lambda>x w. w\<lparr>sim_data := x\<rparr>" "[]" "sint (30 * Second)"
  by unfold_locales

interpretation sim_fair: fair_cell sim_data "\<lambda>x w. w\<lparr>sim_data := x\<rparr>" "[]" "sint (30 * Second)"
  by unfold_locales

section \<open>On a server\<close>

text \<open>The key holds the value for at least \<open>d\<close>.\<close>

definition leased_for :: "('s \<Rightarrow> keyspace) \<Rightarrow> ('s \<Rightarrow> int) \<Rightarrow> string \<Rightarrow> string \<Rightarrow> duration \<Rightarrow> 's \<Rightarrow> bool" where
  "leased_for db now_ms k v d s \<longleftrightarrow> (case db s k of
     Some (VStr u, Some F) \<Rightarrow> u = v \<and> now_ms s + sint d div 1000000 \<le> F | _ \<Rightarrow> False)"

lemma leased_forE:
  assumes "leased_for db now_ms k v d s" and "T \<le> sint d"
  obtains F where "db s k = Some (VStr v, Some F)" and "now_ms s + T div 1000000 \<le> F"
proof -
  have "T div 1000000 \<le> sint d div 1000000" using assms(2) by (rule zdiv_mono1) simp
  moreover obtain y where y: "db s k = Some y"
    using assms(1) by (cases "db s k") (simp_all add: leased_for_def)
  obtain x eo where xeo: "y = (x, eo)" by (cases y)
  obtain F where "db s k = Some (VStr v, Some F)" and "now_ms s + sint d div 1000000 \<le> F"
    using assms(1) unfolding leased_for_def y xeo by (cases x; cases eo) simp_all
  ultimately show thesis by (intro that) (assumption, linarith)
qed

text \<open>What a script that answers 1 has done to the key of the lock.\<close>

context redis_clients begin

lemma script_grants:
  assumes x: "as_int (fst (client_eval net script s)) = Inr 1"
    and good: "\<And>n. expiry (fmt d) = Some n \<Longrightarrow> fst (script s) = RInt 1 \<or> (\<exists>w. fst (script s) = RStr w) \<Longrightarrow>
      db (snd (script s)) k = Some (VStr v, Some (now_ms s + 1000 * n))"
    and bad: "bad_expiry (fmt d) \<Longrightarrow> is_err (fst (script s)) \<or> fst (script s) = RInt 0"
    and now: "now_ms (snd (script s)) = now_ms s"
  shows "leased_for db now_ms k v d (snd (client_eval net script s))"
proof -
  from as_int_one [OF x] have net: "net = Delivered" and one: "fst (script s) = RInt 1 \<or> (\<exists>w. fst (script s) = RStr w)"
    by auto
  then have ok: "\<not> bad_expiry (fmt d)" using bad by (auto elim!: is_errE)
  from fmt show ?thesis
  proof (cases rule: seconds_format_cases [where d = d])
    case (valid n)
    with good [OF valid(1) one] now show ?thesis by (simp add: net client_eval_Delivered leased_for_def)
  qed (use ok in simp_all)
qed

lemma RS_TryLock_granted:
  assumes "RS_TryLock exec fmt net opts uv ts l s = ((True, None), l', s')"
  shows "l' = l\<lparr>rs_value := Value (ApplyLockOptions opts uv)\<rparr>"
    and "leased_for db now_ms (rs_key l) (Value (ApplyLockOptions opts uv)) (LockTTL (ApplyLockOptions opts uv)) s'"
proof -
  let ?c = "ApplyLockOptions opts uv"
  let ?sc = "SimpleLockAcquireScript exec [rs_key l] [Value ?c, fmt (LockTTL ?c)]"
  have x: "as_int (fst (client_eval net ?sc s)) = Inr 1" and s': "s' = snd (client_eval net ?sc s)"
    and l': "l' = l\<lparr>rs_value := Value ?c\<rparr>"
    using assms by (auto simp: RS_TryLock_def Let_def split: prod.splits sum.splits)
  show "l' = l\<lparr>rs_value := Value ?c\<rparr>" by (rule l')
  show "leased_for db now_ms (rs_key l) (Value ?c) (LockTTL ?c) s'"
    unfolding s' by (rule script_grants [OF x]) (auto simp: acquire_script acquire_script_bad(1) split: if_splits)
qed

lemma RRW_TryWLock_granted:
  assumes "RRW_TryWLock exec fmt net opts uv ts l s = ((True, None), l', s')"
  shows "l' = l\<lparr>rrw_writeValue := Value (ApplyLockOptions opts uv)\<rparr>"
    and "leased_for db now_ms (writeKey (rrw_key l)) (Value (ApplyLockOptions opts uv)) (LockTTL (ApplyLockOptions opts uv)) s'"
proof -
  let ?c = "ApplyLockOptions opts uv" and ?rk = "readKey (rrw_key l)" and ?wk = "writeKey (rrw_key l)"
  let ?sc = "RWLockAcquireWriteScript exec [?rk, ?wk] [Value ?c, fmt (LockTTL ?c)]"
  have x: "as_int (fst (client_eval net ?sc s)) = Inr 1" and s': "s' = snd (client_eval net ?sc s)"
    and l': "l' = l\<lparr>rrw_writeValue := Value ?c\<rparr>"
    using assms by (auto simp: RRW_TryWLock_def Let_def split: prod.splits sum.splits)
  show "l' = l\<lparr>rrw_writeValue := Value ?c\<rparr>" by (rule l')
  show "leased_for db now_ms ?wk (Value ?c) (LockTTL ?c) s'"
    unfolding s'
    by (rule script_grants [OF x]) (auto simp: acquire_write_script acquire_write_script_bad(1) split: if_splits)
qed

end

text \<open>A duration that is at least \<open>T\<close> runs out no earlier than \<open>T\<close>, in milliseconds.\<close>

locale simple_cell = redis_clients exec db now_ms elapse fmt + lock_cell get put opts T
  for exec :: "'s server" and db :: "'s \<Rightarrow> keyspace" and now_ms :: "'s \<Rightarrow> int"
    and elapse :: "nat \<Rightarrow> 's \<Rightarrow> 's" and fmt :: "duration \<Rightarrow> string"
    and get :: "'w \<Rightarrow> redisSimpleLock \<times> 's" and put :: "redisSimpleLock \<times> 's \<Rightarrow> 'w \<Rightarrow> 'w"
    and opts :: "LockOption list" and T :: int

sublocale simple_cell < simple_blocking: blocking_lease "rs_step exec fmt elapse keyof" "\<lambda>st. now_ms (snd st)"
    "rs_lease db key" "rs_granted keyof key" "rs_yields db now_ms keyof key"
    "RS_Lock rt exec fmt send get put opts" "\<lambda>w. rs_key (fst (get w)) = key" "\<lambda>w. (vals, snd (get w))"
    "\<lambda>w. rs_value (fst (get w))" "\<lambda>w. now_ms (snd (get w)) + T div 1000000 - 1"
  for keyof vals :: "nat \<Rightarrow> string" and key :: string and rt :: "'w go_rt" and send :: "'w \<Rightarrow> net \<times> 'w"
proof unfold_locales
  fix w w'
  assume lock: "RS_Lock rt exec fmt send get put opts w = Some (None, w')" and key: "rs_key (fst (get w')) = key"
  obtain uv ts net l s l' s' where
    g: "RS_TryLock exec fmt net opts uv ts l s = ((True, None), l', s')" "get w' = (l', s')"
    using lock by (auto simp: RS_Lock_def get_put split: prod.splits dest!: retry_grants)
  obtain F where "db s' (rs_key l) = Some (VStr (Value (ApplyLockOptions opts uv)), Some F)"
    and "now_ms s' + T div 1000000 \<le> F"
    by (rule leased_forE [OF RS_TryLock_granted(2) [OF g(1)] ttl])
  with RS_TryLock_granted(1) [OF g(1)] g(2) key
  show "\<exists>E\<ge>now_ms (snd (get w')) + T div 1000000 - 1.
      rs_lease db key (vals, snd (get w')) = Some (rs_value (fst (get w')), E)"
    by (simp add: rs_lease_def)
qed

locale write_cell = redis_clients exec db now_ms elapse fmt + lock_cell get put opts T
  for exec :: "'s server" and db :: "'s \<Rightarrow> keyspace" and now_ms :: "'s \<Rightarrow> int"
    and elapse :: "nat \<Rightarrow> 's \<Rightarrow> 's" and fmt :: "duration \<Rightarrow> string"
    and get :: "'w \<Rightarrow> redisRWLock \<times> 's" and put :: "redisRWLock \<times> 's \<Rightarrow> 'w \<Rightarrow> 'w"
    and opts :: "LockOption list" and T :: int

sublocale write_cell < write_blocking: blocking_lease "rrw_step exec fmt elapse keyof" "\<lambda>st. now_ms (snd st)"
    "rrw_lease db key" "rrw_granted keyof key" "rrw_yields db keyof key"
    "RRW_WLock rt exec fmt send get put opts" "\<lambda>w. rrw_key (fst (get w)) = key" "\<lambda>w. (vals, snd (get w))"
    "\<lambda>w. rrw_writeValue (fst (get w))" "\<lambda>w. now_ms (snd (get w)) + T div 1000000 - 1"
  for keyof vals :: "nat \<Rightarrow> string" and key :: string and rt :: "'w go_rt" and send :: "'w \<Rightarrow> net \<times> 'w"
proof unfold_locales
  fix w w'
  assume lock: "RRW_WLock rt exec fmt send get put opts w = Some (None, w')" and key: "rrw_key (fst (get w')) = key"
  obtain uv ts net l s l' s' where
    g: "RRW_TryWLock exec fmt net opts uv ts l s = ((True, None), l', s')" "get w' = (l', s')"
    using lock by (auto simp: RRW_WLock_def get_put split: prod.splits dest!: retry_grants)
  obtain F where "db s' (writeKey (rrw_key l)) = Some (VStr (Value (ApplyLockOptions opts uv)), Some F)"
    and "now_ms s' + T div 1000000 \<le> F"
    by (rule leased_forE [OF RRW_TryWLock_granted(2) [OF g(1)] ttl])
  with RRW_TryWLock_granted(1) [OF g(1)] g(2) key
  show "\<exists>E\<ge>now_ms (snd (get w')) + T div 1000000 - 1.
      rrw_lease db key (vals, snd (get w')) = Some (rrw_writeValue (fst (get w')), E)"
    by (simp add: rrw_lease_def)
qed

interpretation ref_simple_cell: simple_cell ref_exec ref_db rs_now ref_elapse ref_fmt sim_data
    "\<lambda>x w. w\<lparr>sim_data := x\<rparr>" "[]" "sint (30 * Second)"
  by unfold_locales

interpretation ref_write_cell: write_cell ref_exec ref_db rs_now ref_elapse ref_fmt sim_data
    "\<lambda>x w. w\<lparr>sim_data := x\<rparr>" "[]" "sint (30 * Second)"
  by unfold_locales

section \<open>The waiting loop of the distributed fair lock\<close>

text \<open>The loop ends without an error only when the script of its last request answered 1.\<close>

lemma rf_wait_grants:
  assumes "rf_wait rt exec fmt send get put acquireTimeout lockTTL deadline w = Some (None, w')"
  shows "\<exists>v x. rf_eval send get put (\<lambda>l. FairLockAcquireScript exec [rf_key l, rf_queueKey l] [rf_value l, fmt lockTTL]) v = (x, w') \<and>
    as_int x = Inr 1"
proof -
  have "fst (None :: err option, w') = None \<longrightarrow> (\<exists>v x. rf_eval send get put
      (\<lambda>l. FairLockAcquireScript exec [rf_key l, rf_queueKey l] [rf_value l, fmt lockTTL]) v = (x, snd (None :: err option, w')) \<and> as_int x = Inr 1)"
    by (rule rf_wait.raw_induct [where P = "\<lambda>rt exec fmt send get put acquireTimeout lockTTL deadline w out.
        fst out = None \<longrightarrow> (\<exists>v x. rf_eval send get put
          (\<lambda>l. FairLockAcquireScript exec [rf_key l, rf_queueKey l] [rf_value l, fmt lockTTL]) v = (x, snd out) \<and>
          as_int x = Inr 1)", OF _ assms])
      (fastforce split: prod.splits sum.splits if_splits)
  then show ?thesis by simp
qed

context redis_fair begin

text \<open>Both scripts grant a free key only, and then set it; the second one reads the queue before and shortens it after.\<close>

lemma redis_call_frame:
  assumes "c \<in> set key_commands" and "k \<noteq> j"
  obtains s' where "db s' k = db s k" and "now_ms s' = now_ms s"
    and "(\<exists>e. redis_call exec (c # j # args) cont s = (RErr e, s')) \<or> (\<exists>r. redis_call exec (c # j # args) cont s = cont r s')"
proof -
  let ?s' = "snd (exec (c # j # args) s)"
  have "(\<exists>e. redis_call exec (c # j # args) cont s = (RErr e, ?s')) \<or>
      (\<exists>r. redis_call exec (c # j # args) cont s = cont r ?s')"
    by (cases "exec (c # j # args) s"; cases "fst (exec (c # j # args) s)") (auto simp: redis_call_def)
  with that [of ?s'] db_frame [OF assms] show thesis by simp
qed

lemma acquire_grant_sets:
  assumes "k \<noteq> qk" and free: "db s k = None"
    and grant: "\<not> no_grant (fst (FairLockAcquireScript exec [k, qk] [v, wt] s))"
  shows "\<not> bad_expiry wt"
    and "expiry wt = Some n \<Longrightarrow> db (snd (FairLockAcquireScript exec [k, qk] [v, wt] s)) k =
      Some (VStr v, Some (now_ms s + 1000 * n))"
proof -
  let ?set = "redis_call exec [''SET'', k, v, ''EX'', wt] (\<lambda>_. redis_call exec [''LPOP'', qk] (\<lambda>_. lua_return (RInt 1)))"
  let ?get = "\<lambda>h. if \<not> truthy h then ?set else lua_return (RInt (- 1))"
  let ?first = "\<lambda>first. if first \<noteq> RStr v then lua_return (RInt 0) else redis_call exec [''GET'', k] ?get"
  have script: "FairLockAcquireScript exec [k, qk] [v, wt] s = redis_call exec [''LINDEX'', qk, ''0''] ?first s"
    by (simp add: FairLockAcquireScript_def cong: if_cong)
  have c: "''LINDEX'' \<in> set key_commands" by simp
  obtain s1 where s1: "db s1 k = db s k" "now_ms s1 = now_ms s"
    and "(\<exists>e. redis_call exec [''LINDEX'', qk, ''0''] ?first s = (RErr e, s1)) \<or>
      (\<exists>r. redis_call exec [''LINDEX'', qk, ''0''] ?first s = ?first r s1)"
    by (rule redis_call_frame [OF c assms(1), where args = "[''0'']" and cont = ?first and s = s])
  then obtain r where "FairLockAcquireScript exec [k, qk] [v, wt] s = ?first r s1"
    unfolding script [symmetric] using grant by auto
  moreover from this have "r = RStr v" using grant by (auto simp: lua_return_def split: if_splits)
  ultimately have "FairLockAcquireScript exec [k, qk] [v, wt] s = redis_call exec [''GET'', k] ?get s1" by simp
  then have run: "FairLockAcquireScript exec [k, qk] [v, wt] s = ?set (snd (exec [''GET'', k] s1))"
    using s1 free by (simp add: call_GET holder_def is_list_def truthy_def)
  let ?s2 = "snd (exec [''GET'', k] s1)"
  have s2: "now_ms ?s2 = now_ms s" using s1 by simp
  show "\<not> bad_expiry wt"
  proof
    assume "bad_expiry wt"
    then have "is_err (fst (exec [''SET'', k, v, ''EX'', wt] ?s2))" using exec_SET_err by blast
    then have "is_err (fst (?set ?s2))" by (rule redis_call_is_err [THEN conjunct1])
    with grant show False unfolding run by (auto elim!: is_errE)
  qed
  assume n: "expiry wt = Some n"
  let ?s3 = "snd (exec [''SET'', k, v, ''EX'', wt] ?s2)"
  have "?set ?s2 = redis_call exec [''LPOP'', qk] (\<lambda>_. lua_return (RInt 1)) ?s3"
    using exec_SET [OF n, of k v ?s2] by (simp add: redis_call_ok)
  moreover have "''LPOP'' \<in> set key_commands" by simp
  from redis_call_frame [OF this assms(1), where args = "[]" and cont = "\<lambda>_. lua_return (RInt 1)" and s = ?s3]
  have "db (snd (redis_call exec [''LPOP'', qk] (\<lambda>_. lua_return (RInt 1)) ?s3)) k = db ?s3 k"
    by (metis lua_return_def snd_conv)
  ultimately show "db (snd (FairLockAcquireScript exec [k, qk] [v, wt] s)) k = Some (VStr v, Some (now_ms s + 1000 * n))"
    unfolding run using db_SET [OF n, of k v ?s2] s2 by simp
qed

end

lemma rf_eval_reply:
  assumes "\<And>x w. get (put x w) = x" and "rf_eval send get put script v = (x, w')" and "get w' = (l, s)"
  obtains net s0 where "x = fst (client_eval net (script l) s0)" and "s = snd (client_eval net (script l) s0)"
  using assms that [of "fst (send v)" "snd (get (snd (send v)))"] by (auto simp: rf_eval_def case_prod_beta)

context redis_fair begin

lemma fair_script_grants:
  assumes x: "as_int (fst (client_eval net script s)) = Inr 1" and "k \<noteq> qk" and "0 < sint d"
    and script: "script = FairLockTryAcquireScript exec [k, qk] [v, fmt d, wq] \<or> script = FairLockAcquireScript exec [k, qk] [v, fmt d]"
  shows "leased_for db now_ms k v d (snd (client_eval net script s))"
proof -
  have grant: "\<not> no_grant (fst (script s))" using x no_grant_as_int [of script s net] by blast
  have free: "db s k = None"
  proof (rule ccontr)
    assume "db s k \<noteq> None"
    then obtain y where "db s k = Some y" by blast
    with keepsD [OF held_refused(1) [OF assms(2)]] keepsD [OF held_refused(2) [OF assms(2)]] grant script
    show False by blast
  qed
  have now: "now_ms (snd (script s)) = now_ms s" using script by auto
  from script show ?thesis
  proof
    assume s: "script = FairLockTryAcquireScript exec [k, qk] [v, fmt d, wq]"
    show ?thesis
      by (rule script_grants [OF x _ _ now]) (simp_all add: s free try_acquire_free try_acquire_free_bad(1))
  next
    assume s: "script = FairLockAcquireScript exec [k, qk] [v, fmt d]"
    note g = acquire_grant_sets [OF assms(2) free, of v "fmt d", folded s, OF grant]
    from g(1) show ?thesis by (intro script_grants [OF x g(2) _ now]) simp_all
  qed
qed

lemma RF_Lock_granted:
  assumes get_put: "\<And>x w. get (put x w) = x"
    and lock: "RF_Lock rt exec fmt send get put opts w = Some (None, w')"
    and w': "get w' = (l, s)" and keys: "rf_queueKey l \<noteq> rf_key l"
  shows "\<exists>uv. leased_for db now_ms (rf_key l) (rf_value l) (rf_lockTTL (ApplyLockOptions opts uv)) s"
proof -
  obtain uv w0 where uv: "rt_unique rt w = (uv, w0)" by (cases "rt_unique rt w")
  let ?c = "ApplyLockOptions opts uv"
  let ?ask = "\<lambda>l. FairLockTryAcquireScript exec [rf_key l, rf_queueKey l] [rf_value l, fmt (rf_lockTTL ?c), fmt (rf_queueTTL ?c)]"
  let ?acq = "\<lambda>l. FairLockAcquireScript exec [rf_key l, rf_queueKey l] [rf_value l, fmt (rf_lockTTL ?c)]"
  have "\<exists>script \<in> {?ask, ?acq}. \<exists>v x. rf_eval send get put script v = (x, w') \<and> as_int x = Inr 1"
    using lock uv
    by (auto simp: RF_Lock_def Let_def RetryWithCustomLogic_def split: prod.splits sum.splits if_splits
        dest!: rf_wait_grants)
  then obtain script v x where script: "script = ?ask \<or> script = ?acq"
    and v: "rf_eval send get put script v = (x, w')" "as_int x = Inr 1" by blast
  obtain net s0 where s0: "x = fst (client_eval net (script l) s0)" "s = snd (client_eval net (script l) s0)"
    by (rule rf_eval_reply [OF get_put v(1) w'])
  have "script l = ?ask l \<or> script l = ?acq l" using script by blast
  from fair_script_grants [OF v(2) [unfolded s0(1)] keys [symmetric] rf_lockTTL_pos(1) this]
  show ?thesis unfolding s0(2) by blast
qed

end

locale fair_key_cell = redis_fair_key exec db now_ms elapse fmt keyof key + lock_cell get put opts T
  for exec :: "'s server" and db :: "'s \<Rightarrow> keyspace" and now_ms :: "'s \<Rightarrow> int"
    and elapse :: "nat \<Rightarrow> 's \<Rightarrow> 's" and fmt :: "duration \<Rightarrow> string" and keyof :: "nat \<Rightarrow> string" and key :: string
    and get :: "'w \<Rightarrow> redisFairLock \<times> 's" and put :: "redisFairLock \<times> 's \<Rightarrow> 'w \<Rightarrow> 'w"
    and opts :: "LockOption list" and T :: int

sublocale fair_key_cell < fair_blocking: blocking_lease "rf_step exec fmt elapse keyof" "\<lambda>st. now_ms (snd st)"
    "rs_lease db key" "rf_granted keyof key" "rf_yields db now_ms keyof key"
    "RF_Lock rt exec fmt send get put opts"
    "\<lambda>w. rf_key (fst (get w)) = key \<and> rf_queueKey (fst (get w)) = fair_queue_key key" "\<lambda>w. (vals, snd (get w))"
    "\<lambda>w. rf_value (fst (get w))" "\<lambda>w. now_ms (snd (get w)) + T div 1000000 - 1"
  for vals :: "nat \<Rightarrow> string" and rt :: "'w go_rt" and send :: "'w \<Rightarrow> net \<times> 'w"
proof unfold_locales
  fix w w'
  assume lock: "RF_Lock rt exec fmt send get put opts w = Some (None, w')"
    and mine: "rf_key (fst (get w')) = key \<and> rf_queueKey (fst (get w')) = fair_queue_key key"
  obtain l s where w': "get w' = (l, s)" by (cases "get w'")
  have keys: "rf_queueKey l \<noteq> rf_key l" using mine by (simp add: w')
  from RF_Lock_granted [where get = get and put = put, OF get_put lock w' keys] obtain uv where
    g: "leased_for db now_ms (rf_key l) (rf_value l) (rf_lockTTL (ApplyLockOptions opts uv)) s" by blast
  have "T \<le> sint (rf_lockTTL (ApplyLockOptions opts uv))"
    using ttl [of uv] by (auto simp: rf_lockTTL_def Second_def)
  then obtain F where "db s (rf_key l) = Some (VStr (rf_value l), Some F)" and "now_ms s + T div 1000000 \<le> F"
    by (rule leased_forE [OF g])
  then show "\<exists>E\<ge>now_ms (snd (get w')) + T div 1000000 - 1.
      rs_lease db key (vals, snd (get w')) = Some (rf_value (fst (get w')), E)"
    using mine by (simp add: rs_lease_def w')
qed

interpretation ref_fair_cell: fair_key_cell ref_exec ref_db rs_now ref_elapse ref_fmt "\<lambda>_. ''k''" "''k''" sim_data
    "\<lambda>x w. w\<lparr>sim_data := x\<rparr>" "[]" "sint (30 * Second)"
  by unfold_locales

context simple_cell begin

lemma Lock_excludes:
  assumes "RS_Lock rt exec fmt send get put opts w = Some (None, w')" and "get w' = (l, s)"
    and "along (\<lambda>ev st. \<not> rs_yields db now_ms keyof (rs_key l) ev st) (rs_step exec fmt elapse keyof) evs (vals, s)"
    and "run (rs_step exec fmt elapse keyof) evs (vals, s) = (rs, st2)"
    and "now_ms (snd st2) < now_ms s + T div 1000000"
  shows "(\<forall>(ev, r) \<in> set (zip evs rs). \<not> rs_granted keyof (rs_key l) ev r) \<and>
    (\<exists>E. rs_lease db (rs_key l) st2 = Some (rs_value l, E))"
  using simple_blocking.acquired_excludes [where key = "rs_key l" and keyof = keyof and vals = vals, OF assms(1)] assms(2-5)
  by simp

end

context write_cell begin

lemma WLock_excludes:
  assumes "RRW_WLock rt exec fmt send get put opts w = Some (None, w')" and "get w' = (l, s)"
    and "along (\<lambda>ev st. \<not> rrw_yields db keyof (rrw_key l) ev st) (rrw_step exec fmt elapse keyof) evs (vals, s)"
    and "run (rrw_step exec fmt elapse keyof) evs (vals, s) = (rs, st2)"
    and "now_ms (snd st2) < now_ms s + T div 1000000"
  shows "(\<forall>(ev, r) \<in> set (zip evs rs). \<not> rrw_granted keyof (rrw_key l) ev r) \<and>
    (\<exists>E. rrw_lease db (rrw_key l) st2 = Some (rrw_writeValue l, E))"
  using write_blocking.acquired_excludes [where key = "rrw_key l" and keyof = keyof and vals = vals, OF assms(1)] assms(2-5)
  by simp

end

context fair_key_cell begin

lemma fair_Lock_excludes:
  assumes "RF_Lock rt exec fmt send get put opts w = Some (None, w')" and "get w' = (l, s)"
    and "rf_key l = key" and "rf_queueKey l = fair_queue_key key"
    and "along (\<lambda>ev st. \<not> rf_yields db now_ms keyof key ev st) (rf_step exec fmt elapse keyof) evs (vals, s)"
    and "run (rf_step exec fmt elapse keyof) evs (vals, s) = (rs, st2)"
    and "now_ms (snd st2) < now_ms s + T div 1000000"
  shows "(\<forall>(ev, r) \<in> set (zip evs rs). \<not> rf_granted keyof key ev r) \<and>
    (\<exists>E. rs_lease db key st2 = Some (rf_value l, E))"
  using fair_blocking.acquired_excludes [where vals = vals, OF assms(1)] assms(2-7)
  by simp

end

section \<open>A goroutine alone is served at once\<close>

abbreviation alone_world :: "'x \<Rightarrow> 'x sim" where
  "alone_world x \<equiv> \<lparr>sim_clock = 0, sim_cancel = None, sim_serial = 0, sim_data = x\<rparr>"

lemma first_attempt_succeeds:
  assumes "attempt w = ((True, None), w')" and "sim_cancel w = None" and "0 \<le> sint (Timeout cfg)"
  shows "RetryLockOperation sim_rt cfg attempt w = Some (None, w')"
  using assms
  by (simp add: RetryLockOperation_def RetryWithTimeout_def retry_loop.simps sim_rt_def lock_oper_def
      time_after_def time_add_def)

lemma default_timeout: "0 \<le> sint (Timeout (NewRetryConfigFromLockOptions key [] uv))"
  by (simp add: NewRetryConfigFromLockOptions_def Let_def Apply_AcquireTimeout default_config_def)

text \<open>The default options, on the reference server, with every message delivered.\<close>

abbreviation "sim_cell_put \<equiv> \<lambda>x w. w\<lparr>sim_data := x\<rparr>"

lemma simple_Lock_alone:
  "\<exists>w'. RS_Lock sim_rt ref_exec ref_fmt (\<lambda>w. (Delivered, w)) sim_data sim_cell_put []
      (alone_world (newRedisSimpleLock ''k'', ref_empty)) = Some (None, w') \<and>
    rs_key (fst (sim_data w')) = ''k'' \<and> rs_now (snd (sim_data w')) = 0"
proof -
  let ?l = "newRedisSimpleLock ''k''" and ?uv = "generateUniqueValue ''host'' None 1"
  obtain l' s' where t: "RS_TryLock ref_exec ref_fmt Delivered [] ?uv 0 ?l ref_empty = ((True, None), l', s')"
    using ref_clients.TryLock_whole [of "[]" ?uv 0 ?l ref_empty] by (auto simp: default_ttl)
  have "rs_key l' = ''k''" using ref_clients.RS_TryLock_granted(1) [OF t] by (simp add: newRedisSimpleLock_def)
  moreover have "rs_now s' = 0"
    using ref_clients.RS_TryLock_facts(1) [of Delivered "[]" ?uv 0 ?l ref_empty] t by (simp add: ref.now_client_eval)
  ultimately show ?thesis
    by (intro exI [of _ "\<lparr>sim_clock = 0, sim_cancel = None, sim_serial = 2, sim_data = (l', s')\<rparr>"])
       (simp add: RS_Lock_def sim_rt_simps first_attempt_succeeds default_timeout t)
qed

lemma fair_Lock_alone:
  "\<exists>w'. RF_Lock sim_rt ref_exec ref_fmt (\<lambda>w. (Delivered, w)) sim_data sim_cell_put []
      (alone_world (newRedisFairLock ''k'', ref_empty)) = Some (None, w') \<and>
    rf_key (fst (sim_data w')) = ''k'' \<and> rf_queueKey (fst (sim_data w')) = fair_queue_key ''k'' \<and>
    rs_now (snd (sim_data w')) = 0"
proof -
  let ?l = "(newRedisFairLock ''k'')\<lparr>rf_value := generateUniqueValue ''host'' None 0\<rparr>"
  let ?script = "FairLockTryAcquireScript ref_exec [rf_key ?l, rf_queueKey ?l]
    [rf_value ?l, ref_fmt (30 * Second), ref_fmt (5 * Minute)]"
  have "0 < sint (30 * Second)" "sint (30 * Second) mod 1000000000 = 0" by (simp_all add: dur_defs)
  from ref_fair.try_acquire_free(1) [OF _ seconds_format_whole [OF ref_format this], of ref_empty]
  have "fst (?script ref_empty) = RInt 1" by simp
  then obtain s' where s': "?script ref_empty = (RInt 1, s')" by (metis prod.collapse)
  have now: "rs_now s' = 0"
    using ref_fair.now_fair_scripts(1) [of "[rf_key ?l, rf_queueKey ?l]" "[rf_value ?l, ref_fmt (30 * Second), ref_fmt (5 * Minute)]" ref_empty]
    unfolding s' by simp
  show ?thesis
    by (intro exI [of _ "\<lparr>sim_clock = 0, sim_cancel = None, sim_serial = 1, sim_data = (?l, s')\<rparr>"])
       (use s' now in \<open>simp add: RF_Lock_def rf_eval_def sim_rt_simps Let_def default_value client_eval_def as_int_def
          newRedisFairLock_def fair_queue_key_def\<close>)
qed

section \<open>Properties\<close>

text \<open>
  C2: a nil error from the blocking \<open>Lock\<close> of the distributed simple lock means the caller holds the lock.
  Whatever the runtime, the network and the other goroutines do while \<open>Lock\<close> tries, when it returns no
  error the server has the key with the value now in the handle, and from then on nobody is granted the key by any
  sequence of operations of any number of clients before the TTL has passed (at least \<open>T\<close>, whichever attempt
  succeeded), unless a client that has this value unlocks it or renews it to an earlier instant.
\<close>
theorem redis_Lock_excludes:
  assumes "redis_clients exec db now_ms elapse fmt" and "\<And>x w. get (put x w) = x"
    and "\<And>uv. T \<le> sint (LockTTL (ApplyLockOptions opts uv))"
    and "RS_Lock rt exec fmt send get put opts w = Some (None, w')" and "get w' = (l, s)"
    and "along (\<lambda>ev st. \<not> rs_yields db now_ms keyof (rs_key l) ev st) (rs_step exec fmt elapse keyof) evs (vals, s)"
    and "run (rs_step exec fmt elapse keyof) evs (vals, s) = (rs, st2)"
    and "now_ms (snd st2) < now_ms s + T div 1000000"
  shows "(\<forall>(ev, r) \<in> set (zip evs rs). \<not> rs_granted keyof (rs_key l) ev r) \<and>
    (\<exists>E. rs_lease db (rs_key l) st2 = Some (rs_value l, E))"
proof -
  have cell: "simple_cell exec db now_ms elapse fmt get put opts T"
    by (intro simple_cell.intro lock_cell.intro assms(1-3))
  show ?thesis by (rule simple_cell.Lock_excludes [OF cell assms(4-8)])
qed

theorem redis_Lock_excludes_witness:
  "\<exists>w' E. RS_Lock sim_rt ref_exec ref_fmt (\<lambda>w. (Delivered, w)) sim_data sim_cell_put []
      (alone_world (newRedisSimpleLock ''k'', ref_empty)) = Some (None, w') \<and>
    rs_lease ref_db ''k'' (snd (run (rs_step ref_exec ref_fmt ref_elapse (\<lambda>_. ''k''))
       [(5, 2, Delivered, 0, TryLockOp [] ''b''), (9, 2, ReplyLost ''eof'', 0, IsLockedOp)] (\<lambda>_. '''', snd (sim_data w')))) =
      Some (rs_value (fst (sim_data w')), E)"
proof -
  let ?step = "rs_step ref_exec ref_fmt ref_elapse (\<lambda>_. ''k'')"
  let ?evs = "[(5, 2, Delivered, 0, TryLockOp [] ''b''), (9, 2, ReplyLost ''eof'', 0, IsLockedOp)] :: sl_op sent list"
  obtain w' where w': "RS_Lock sim_rt ref_exec ref_fmt (\<lambda>w. (Delivered, w)) sim_data sim_cell_put []
      (alone_world (newRedisSimpleLock ''k'', ref_empty)) = Some (None, w')"
    and k: "rs_key (fst (sim_data w')) = ''k''" "rs_now (snd (sim_data w')) = 0" using simple_Lock_alone by blast
  let ?st = "(\<lambda>_. '''', snd (sim_data w'))"
  have "along (\<lambda>ev st. \<not> rs_yields ref_db rs_now (\<lambda>_. ''k'') (rs_key (fst (sim_data w'))) ev st) ?step ?evs ?st" by simp
  moreover have "rs_now (snd (snd (run ?step ?evs ?st))) < rs_now (snd (sim_data w')) + 30000000000 div 1000000"
    by (simp add: run_Cons_snd ref_clients.now_rs_step k del: run.simps(2))
  moreover have "30000000000 \<le> sint (LockTTL (ApplyLockOptions [] uv))" for uv by (simp add: default_ttl)
  ultimately show ?thesis
    using redis_Lock_excludes [OF ref_clients.redis_clients_axioms _ _ w' prod.collapse [symmetric], of 30000000000
        "\<lambda>_. ''k''" ?evs "\<lambda>_. ''''" "fst (run ?step ?evs ?st)" "snd (run ?step ?evs ?st)"] w' k(1)
    by auto
qed

text \<open>
  the same for the write lock, whose writer excludes readers and writers.
\<close>
theorem redis_WLock_excludes:
  assumes "redis_clients exec db now_ms elapse fmt" and "\<And>x w. get (put x w) = x"
    and "\<And>uv. T \<le> sint (LockTTL (ApplyLockOptions opts uv))"
    and "RRW_WLock rt exec fmt send get put opts w = Some (None, w')" and "get w' = (l, s)"
    and "along (\<lambda>ev st. \<not> rrw_yields db keyof (rrw_key l) ev st) (rrw_step exec fmt elapse keyof) evs (vals, s)"
    and "run (rrw_step exec fmt elapse keyof) evs (vals, s) = (rs, st2)"
    and "now_ms (snd st2) < now_ms s + T div 1000000"
  shows "(\<forall>(ev, r) \<in> set (zip evs rs). \<not> rrw_granted keyof (rrw_key l) ev r) \<and>
    (\<exists>E. rrw_lease db (rrw_key l) st2 = Some (rrw_writeValue l, E))"
proof -
  have cell: "write_cell exec db now_ms elapse fmt get put opts T"
    by (intro write_cell.intro lock_cell.intro assms(1-3))
  show ?thesis by (rule write_cell.WLock_excludes [OF cell assms(4-8)])
qed

text \<open>
  C7: the same for the distributed fair lock, whose \<open>Lock\<close> has a waiting loop of its own. When it returns no
  error, at its first request or after any number of turns, the value in the handle holds the lock: nobody
  else, waiting or new, is granted it before the TTL has passed, unless a client that has this value unlocks
  it or renews it to an earlier instant.
\<close>
theorem redis_fair_Lock_excludes:
  assumes "redis_fair_key exec db now_ms elapse fmt keyof (rf_key l)" and "\<And>x w. get (put x w) = x"
    and "\<And>uv. T \<le> sint (LockTTL (ApplyLockOptions opts uv))"
    and "RF_Lock rt exec fmt send get put opts w = Some (None, w')" and "get w' = (l, s)"
    and "rf_queueKey l = fair_queue_key (rf_key l)"
    and "along (\<lambda>ev st. \<not> rf_yields db now_ms keyof (rf_key l) ev st) (rf_step exec fmt elapse keyof) evs (vals, s)"
    and "run (rf_step exec fmt elapse keyof) evs (vals, s) = (rs, st2)"
    and "now_ms (snd st2) < now_ms s + T div 1000000"
  shows "(\<forall>(ev, r) \<in> set (zip evs rs). \<not> rf_granted keyof (rf_key l) ev r) \<and>
    (\<exists>E. rs_lease db (rf_key l) st2 = Some (rf_value l, E))"
proof -
  have cell: "fair_key_cell exec db now_ms elapse fmt keyof (rf_key l) get put opts T"
    by (intro fair_key_cell.intro lock_cell.intro assms(1-3))
  show ?thesis by (rule fair_key_cell.fair_Lock_excludes [OF cell assms(4,5) refl assms(6-9)])
qed

theorem redis_fair_Lock_excludes_witness:
  "\<exists>w' E. RF_Lock sim_rt ref_exec ref_fmt (\<lambda>w. (Delivered, w)) sim_data sim_cell_put []
      (alone_world (newRedisFairLock ''k'', ref_empty)) = Some (None, w') \<and>
    rs_lease ref_db ''k'' (snd (run (rf_step ref_exec ref_fmt ref_elapse (\<lambda>_. ''k''))
       [(5, 2, Delivered, 0, TryLockF [] ''b''), (9, 2, Delivered, 0, AcquireF (30 * Second))] (\<lambda>_. '''', snd (sim_data w')))) =
      Some (rf_value (fst (sim_data w')), E)"
proof -
  let ?step = "rf_step ref_exec ref_fmt ref_elapse (\<lambda>_. ''k'')"
  let ?evs = "[(5, 2, Delivered, 0, TryLockF [] ''b''), (9, 2, Delivered, 0, AcquireF (30 * Second))] :: rf_op sent list"
  obtain w' where w': "RF_Lock sim_rt ref_exec ref_fmt (\<lambda>w. (Delivered, w)) sim_data sim_cell_put []
      (alone_world (newRedisFairLock ''k'', ref_empty)) = Some (None, w')"
    and k: "rf_key (fst (sim_data w')) = ''k''" "rf_queueKey (fst (sim_data w')) = fair_queue_key ''k''"
      "rs_now (snd (sim_data w')) = 0" using fair_Lock_alone by blast
  let ?st = "(\<lambda>_. '''', snd (sim_data w'))"
  have "along (\<lambda>ev st. \<not> rf_yields ref_db rs_now (\<lambda>_. ''k'') (rf_key (fst (sim_data w'))) ev st) ?step ?evs ?st" by simp
  moreover have "rs_now (snd (snd (run ?step ?evs ?st))) < rs_now (snd (sim_data w')) + 30000000000 div 1000000"
    by (simp add: run_Cons_snd ref_fair.now_rf_step k del: run.simps(2))
  moreover have "30000000000 \<le> sint (LockTTL (ApplyLockOptions [] uv))" for uv by (simp add: default_ttl)
  ultimately show ?thesis
    using redis_fair_Lock_excludes [OF ref_fair_key.redis_fair_key_axioms [folded k(1)] _ _ w' prod.collapse [symmetric], of 30000000000
        ?evs "\<lambda>_. ''''" "fst (run ?step ?evs ?st)" "snd (run ?step ?evs ?st)"] w' k(1,2)
    by auto
qed

end
