(* ===== verification/Factory.thy ===== *)
theory Factory
  imports LocalLocks RedisFair RedisRW MetricsWrapper Watchdog
begin

text \<open>
  The factories of \<open>src/lock.go\<close> (lines 546-793 and 882-923) and of \<open>src/metrics_wrapper.go\<close> (lines
  506-546): every kind of lock behind the interfaces of \<open>Interfaces\<close>, in one world that holds the
  process-wide managers, the handles of the distributed locks, the watchdogs and the servers.
\<close>

section \<open>The world\<close>

text \<open>
  \<open>'c\<close> names the redis clients; each talks to its own server. What the runtime adds (clocks, the
  contexts, the random source) is in the extension \<open>'z\<close>.
\<close>

record ('c, 's) world =
  w_globals :: globals
  w_simple :: "redisSimpleLock list"
  w_rw :: "redisRWLock list"
  w_fair :: "redisFairLock list"
  w_watchdogs :: "WatchdogImpl list"
  w_server :: "'c \<Rightarrow> 's"

text \<open>
  The environment: the runtime, the choices of \<open>sync.Pool\<close>, the fate of each request, the server
  and the rendering of durations.
\<close>

record ('s, 'w) env =
  ev_rt :: "'w go_rt"
  ev_pick :: "'w \<Rightarrow> nat option \<times> 'w"
  ev_send :: "'w \<Rightarrow> net \<times> 'w"
  ev_exec :: "'s server"
  ev_fmt :: "duration \<Rightarrow> string"

definition simple_mgr :: "('c, 's, 'z) world_scheme \<Rightarrow> unit manager" where
  "simple_mgr w = fst (the (managers (w_globals w)))"

definition rw_mgr :: "('c, 's, 'z) world_scheme \<Rightarrow> RWLockData manager" where
  "rw_mgr w = fst (snd (the (managers (w_globals w))))"

definition fair_mgr :: "('c, 's, 'z) world_scheme \<Rightarrow> FairLockData manager" where
  "fair_mgr w = snd (snd (the (managers (w_globals w))))"

definition put_simple_mgr :: "unit manager \<Rightarrow> ('c, 's, 'z) world_scheme \<Rightarrow> ('c, 's, 'z) world_scheme" where
  "put_simple_mgr m w =
     w\<lparr>w_globals := (w_globals w)\<lparr>managers := map_option (\<lambda>(_, r, f). (m, r, f)) (managers (w_globals w))\<rparr>\<rparr>"

definition put_rw_mgr :: "RWLockData manager \<Rightarrow> ('c, 's, 'z) world_scheme \<Rightarrow> ('c, 's, 'z) world_scheme" where
  "put_rw_mgr m w =
     w\<lparr>w_globals := (w_globals w)\<lparr>managers := map_option (\<lambda>(s, _, f). (s, m, f)) (managers (w_globals w))\<rparr>\<rparr>"

definition put_fair_mgr :: "FairLockData manager \<Rightarrow> ('c, 's, 'z) world_scheme \<Rightarrow> ('c, 's, 'z) world_scheme" where
  "put_fair_mgr m w =
     w\<lparr>w_globals := (w_globals w)\<lparr>managers := map_option (\<lambda>(s, r, _). (s, r, m)) (managers (w_globals w))\<rparr>\<rparr>"

section \<open>The handles behind the interfaces\<close>

text \<open>
  A method that reads the clock once or twice, and one that also draws a unique value. The second
  reading is made even where the method returns before it.
\<close>

definition timed ::
    "'w go_rt \<Rightarrow> ('w \<Rightarrow> 'm) \<Rightarrow> ('m \<Rightarrow> 'w \<Rightarrow> 'w) \<Rightarrow> (gotime \<Rightarrow> 'm \<Rightarrow> 'r \<times> 'm) \<Rightarrow> 'w \<Rightarrow> 'r \<times> 'w" where
  "timed rt get put f w =
     (case rt_now rt w of (t, w1) \<Rightarrow> case f t (get w1) of (r, m) \<Rightarrow> (r, put m w1))"

definition timed2 ::
    "'w go_rt \<Rightarrow> ('w \<Rightarrow> 'm) \<Rightarrow> ('m \<Rightarrow> 'w \<Rightarrow> 'w) \<Rightarrow> (gotime \<Rightarrow> gotime \<Rightarrow> 'm \<Rightarrow> 'r \<times> 'm) \<Rightarrow> 'w \<Rightarrow> 'r \<times> 'w" where
  "timed2 rt get put f w = (case rt_now rt w of (t, w1) \<Rightarrow> timed rt get put (f t) w1)"

definition fresh ::
    "'w go_rt \<Rightarrow> ('w \<Rightarrow> 'm) \<Rightarrow> ('m \<Rightarrow> 'w \<Rightarrow> 'w) \<Rightarrow> (string \<Rightarrow> gotime \<Rightarrow> gotime \<Rightarrow> 'm \<Rightarrow> 'r \<times> 'm) \<Rightarrow> 'w \<Rightarrow> 'r \<times> 'w" where
  "fresh rt get put f w = (case rt_unique rt w of (uv, w1) \<Rightarrow> timed2 rt get put (f uv) w1)"

definition localSimpleLock_iface ::
    "('c, 's, 'z) world_scheme go_rt \<Rightarrow> handle \<Rightarrow> ('c, 's, 'z) world_scheme Lock" where
  "localSimpleLock_iface rt h = \<lparr>
     lk_Lock = Local_Lock rt simple_mgr put_simple_mgr h,
     lk_TryLock = (\<lambda>opts. fresh rt simple_mgr put_simple_mgr (Local_TryLock h opts)),
     lk_Unlock = timed rt simple_mgr put_simple_mgr (Local_Unlock h),
     lk_Extend = (\<lambda>ttl. timed rt simple_mgr put_simple_mgr (Local_Extend h ttl)),
     lk_IsLocked = timed rt simple_mgr put_simple_mgr (Local_IsLocked h),
     lk_GetTTL = timed2 rt simple_mgr put_simple_mgr (Local_GetTTL h),
     lk_GetKey = (\<lambda>w. Local_GetKey h),
     lk_GetValue = (\<lambda>w. Local_GetValue h (simple_mgr w))\<rparr>"

definition localRWLock_iface ::
    "('c, 's, 'z) world_scheme go_rt \<Rightarrow> handle \<Rightarrow> ('c, 's, 'z) world_scheme RWLock" where
  "localRWLock_iface rt h = \<lparr>
     ri_RLock = LRW_RLock rt rw_mgr put_rw_mgr h,
     ri_TryRLock = (\<lambda>opts. timed rt rw_mgr put_rw_mgr (LRW_TryRLock h)),
     ri_RUnlock = (\<lambda>w. case LRW_RUnlock h (rw_mgr w) of (e, m) \<Rightarrow> (e, put_rw_mgr m w)),
     ri_WLock = LRW_WLock rt rw_mgr put_rw_mgr h,
     ri_TryWLock = (\<lambda>opts. fresh rt rw_mgr put_rw_mgr (LRW_TryWLock h opts)),
     ri_WUnlock = timed rt rw_mgr put_rw_mgr (LRW_WUnlock h),
     ri_GetReadCount = (\<lambda>w. case LRW_GetReadCount h (rw_mgr w) of (n, e) \<Rightarrow> ((word_of_int n, e), w)),
     ri_IsWriteLocked = timed rt rw_mgr put_rw_mgr (LRW_IsWriteLocked h),
     ri_GetKey = (\<lambda>w. LRW_GetKey h)\<rparr>"

definition localFairLock_iface ::
    "('c, 's, 'z) world_scheme go_rt \<Rightarrow> handle \<Rightarrow> ('c, 's, 'z) world_scheme FairLock" where
  "localFairLock_iface rt h = \<lparr>
     lk_Lock = LF_Lock rt fair_mgr put_fair_mgr h,
     lk_TryLock = (\<lambda>opts. fresh rt fair_mgr put_fair_mgr (LF_TryLock h opts)),
     lk_Unlock = timed rt fair_mgr put_fair_mgr (LF_Unlock h),
     lk_Extend = (\<lambda>ttl. timed rt fair_mgr put_fair_mgr (LF_Extend h ttl)),
     lk_IsLocked = timed rt fair_mgr put_fair_mgr (LF_IsLocked h),
     lk_GetTTL = timed2 rt fair_mgr put_fair_mgr (LF_GetTTL h),
     lk_GetKey = (\<lambda>w. LF_GetKey h),
     lk_GetValue = (\<lambda>w. LF_GetValue h (fair_mgr w)),
     fi_GetQueuePosition = timed rt fair_mgr put_fair_mgr
       (\<lambda>t m. case LF_GetQueuePosition h t m of (n, e) \<Rightarrow> ((word_of_int n, e), m)),
     fi_GetQueueLength = (\<lambda>w. case LF_GetQueueLength h (fair_mgr w) of (n, e) \<Rightarrow> ((of_nat n, e), w)),
     fi_GetQueueInfo = (\<lambda>w. (LF_GetQueueInfo h (fair_mgr w), w))\<rparr>"

text \<open>
  A distributed lock is an entry of the world's list of handles and the server of its client. A
  method reads the clock for the time of an error, then sends its request.
\<close>

definition simple_at :: "'c \<Rightarrow> nat \<Rightarrow> ('c, 's, 'z) world_scheme \<Rightarrow> redisSimpleLock \<times> 's" where
  "simple_at c i w = (w_simple w ! i, w_server w c)"

definition put_simple_at ::
    "'c \<Rightarrow> nat \<Rightarrow> redisSimpleLock \<times> 's \<Rightarrow> ('c, 's, 'z) world_scheme \<Rightarrow> ('c, 's, 'z) world_scheme" where
  "put_simple_at c i = (\<lambda>(l, s) w. w\<lparr>w_simple := (w_simple w)[i := l], w_server := (w_server w)(c := s)\<rparr>)"

definition rw_at :: "'c \<Rightarrow> nat \<Rightarrow> ('c, 's, 'z) world_scheme \<Rightarrow> redisRWLock \<times> 's" where
  "rw_at c i w = (w_rw w ! i, w_server w c)"

definition put_rw_at ::
    "'c \<Rightarrow> nat \<Rightarrow> redisRWLock \<times> 's \<Rightarrow> ('c, 's, 'z) world_scheme \<Rightarrow> ('c, 's, 'z) world_scheme" where
  "put_rw_at c i = (\<lambda>(l, s) w. w\<lparr>w_rw := (w_rw w)[i := l], w_server := (w_server w)(c := s)\<rparr>)"

definition fair_at :: "'c \<Rightarrow> nat \<Rightarrow> ('c, 's, 'z) world_scheme \<Rightarrow> redisFairLock \<times> 's" where
  "fair_at c i w = (w_fair w ! i, w_server w c)"

definition put_fair_at ::
    "'c \<Rightarrow> nat \<Rightarrow> redisFairLock \<times> 's \<Rightarrow> ('c, 's, 'z) world_scheme \<Rightarrow> ('c, 's, 'z) world_scheme" where
  "put_fair_at c i = (\<lambda>(l, s) w. w\<lparr>w_fair := (w_fair w)[i := l], w_server := (w_server w)(c := s)\<rparr>)"

definition request ::
    "('s, 'w) env \<Rightarrow> ('w \<Rightarrow> 'm) \<Rightarrow> ('m \<Rightarrow> 'w \<Rightarrow> 'w) \<Rightarrow> (net \<Rightarrow> gotime \<Rightarrow> 'm \<Rightarrow> 'r \<times> 'm) \<Rightarrow> 'w \<Rightarrow> 'r \<times> 'w" where
  "request E get put f w =
     (case rt_now (ev_rt E) w of (ts, w1) \<Rightarrow> case ev_send E w1 of (net, w2) \<Rightarrow>
        case f net ts (get w2) of (r, m) \<Rightarrow> (r, put m w2))"

text \<open>A method that leaves the handle as it is, on the pair of the handle and the server.\<close>

definition on_server :: "('l \<Rightarrow> 's \<Rightarrow> 'r \<times> 's) \<Rightarrow> 'l \<times> 's \<Rightarrow> 'r \<times> ('l \<times> 's)" where
  "on_server f = (\<lambda>(l, s). case f l s of (r, s') \<Rightarrow> (r, (l, s')))"

definition redisSimpleLock_iface ::
    "('s, ('c, 's, 'z) world_scheme) env \<Rightarrow> 'c \<Rightarrow> nat \<Rightarrow> ('c, 's, 'z) world_scheme Lock" where
  "redisSimpleLock_iface E c i =
     (let rt = ev_rt E; exec = ev_exec E; fmt = ev_fmt E; send = ev_send E; get = simple_at c i; put = put_simple_at c i in \<lparr>
       lk_Lock = RS_Lock rt exec fmt send get put,
       lk_TryLock = (\<lambda>opts w. case rt_unique rt w of (uv, w1) \<Rightarrow>
         request E get put (\<lambda>net ts (l, s). RS_TryLock exec fmt net opts uv ts l s) w1),
       lk_Unlock = request E get put (\<lambda>net ts. on_server (RS_Unlock exec net ts)),
       lk_Extend = (\<lambda>ttl. request E get put (\<lambda>net ts. on_server (RS_Extend exec fmt net ttl ts))),
       lk_IsLocked = request E get put (\<lambda>net ts. on_server (RS_IsLocked exec net ts)),
       lk_GetTTL = request E get put (\<lambda>net ts. on_server (RS_GetTTL exec net ts)),
       lk_GetKey = (\<lambda>w. RS_GetKey (w_simple w ! i)),
       lk_GetValue = (\<lambda>w. RS_GetValue (w_simple w ! i))\<rparr>)"

definition redisRWLock_iface ::
    "('s, ('c, 's, 'z) world_scheme) env \<Rightarrow> 'c \<Rightarrow> nat \<Rightarrow> ('c, 's, 'z) world_scheme RWLock" where
  "redisRWLock_iface E c i =
     (let rt = ev_rt E; exec = ev_exec E; fmt = ev_fmt E; send = ev_send E; get = rw_at c i; put = put_rw_at c i in \<lparr>
       ri_RLock = RRW_RLock rt exec fmt send get put,
       ri_TryRLock = (\<lambda>opts w. case rt_unique rt w of (uv, w1) \<Rightarrow>
         request E get put (\<lambda>net ts. on_server (RRW_TryRLock exec fmt net opts uv ts)) w1),
       ri_RUnlock = request E get put (\<lambda>net ts. on_server (RRW_RUnlock exec net ts)),
       ri_WLock = RRW_WLock rt exec fmt send get put,
       ri_TryWLock = (\<lambda>opts w. case rt_unique rt w of (uv, w1) \<Rightarrow>
         request E get put (\<lambda>net ts (l, s). RRW_TryWLock exec fmt net opts uv ts l s) w1),
       ri_WUnlock = request E get put (\<lambda>net ts. on_server (RRW_WUnlock exec net ts)),
       ri_GetReadCount = (\<lambda>w. case request E get put (\<lambda>net ts. on_server (RRW_GetReadCount exec net ts)) w of
         ((n, e), w1) \<Rightarrow> ((word_of_int n, e), w1)),
       ri_IsWriteLocked = request E get put (\<lambda>net ts. on_server (RRW_IsWriteLocked exec net ts)),
       ri_GetKey = (\<lambda>w. RRW_GetKey (w_rw w ! i))\<rparr>)"

definition redisFairLock_iface ::
    "('s, ('c, 's, 'z) world_scheme) env \<Rightarrow> 'c \<Rightarrow> nat \<Rightarrow> ('c, 's, 'z) world_scheme FairLock" where
  "redisFairLock_iface E c i =
     (let rt = ev_rt E; exec = ev_exec E; fmt = ev_fmt E; send = ev_send E; get = fair_at c i; put = put_fair_at c i;
          count = (\<lambda>f w. case request E get put (\<lambda>net ts. on_server (f net ts)) w of
             ((n, e), w1) \<Rightarrow> ((word_of_int n, e), w1)) in \<lparr>
       lk_Lock = RF_Lock rt exec fmt send get put,
       lk_TryLock = (\<lambda>opts w. case rt_unique rt w of (uv, w1) \<Rightarrow>
         request E get put (\<lambda>net ts (l, s). RF_TryLock exec fmt net opts uv ts l s) w1),
       lk_Unlock = request E get put (\<lambda>net ts. on_server (RF_Unlock exec net ts)),
       lk_Extend = (\<lambda>ttl. request E get put (\<lambda>net ts. on_server (RF_Extend exec net ttl ts))),
       lk_IsLocked = request E get put (\<lambda>net ts. on_server (RF_IsLocked exec net ts)),
       lk_GetTTL = request E get put (\<lambda>net ts. on_server (RF_GetTTL exec net ts)),
       lk_GetKey = (\<lambda>w. RF_GetKey (w_fair w ! i)),
       lk_GetValue = (\<lambda>w. RF_GetValue (w_fair w ! i)),
       fi_GetQueuePosition = count (RF_GetQueuePosition exec),
       fi_GetQueueLength = count (RF_GetQueueLength exec),
       fi_GetQueueInfo = request E get put (\<lambda>net ts. on_server (RF_GetQueueInfo exec net))\<rparr>)"

section \<open>Backends and factories\<close>

datatype LockType = TypeSimple | TypeFair | TypeRW | OtherLockType int

fun LockType_String :: "LockType \<Rightarrow> string" where
  "LockType_String TypeSimple = ''Simple''"
| "LockType_String TypeFair = ''Fair''"
| "LockType_String TypeRW = ''ReadWrite''"
| "LockType_String (OtherLockType n) = ''Unknown''"

text \<open>A value of the interface \<open>Backend\<close>: one of the library's two, or any other, with what its \<open>Type()\<close> answers.\<close>

datatype 'c Backend = RedisBackend 'c | LocalBackend i64 | OtherBackend string

fun Backend_Type :: "'c Backend \<Rightarrow> string" where
  "Backend_Type (RedisBackend client) = ''Redis''"
| "Backend_Type (LocalBackend n) = ''Local''"
| "Backend_Type (OtherBackend t) = t"

definition NewRedisBackend :: "'c \<Rightarrow> 'c Backend" where "NewRedisBackend client = RedisBackend client"

definition NewLocalBackend :: "i64 \<Rightarrow> 'c Backend" where
  "NewLocalBackend n = LocalBackend (if sint n \<le> 0 then DefaultShardCount else n)"

text \<open>The local factory keeps the shard count of the \<open>LocalBackend\<close> it makes.\<close>

datatype 'c LockFactory = RedisLockFactory 'c | LocalLockFactory i64

definition NewRedisLockFactory :: "'c \<Rightarrow> 'c LockFactory" where "NewRedisLockFactory client = RedisLockFactory client"

definition NewLocalLockFactory :: "i64 \<Rightarrow> 'c LockFactory" where
  "NewLocalLockFactory n = LocalLockFactory (if sint n \<le> 0 then DefaultShardCount else n)"

fun GetBackendType :: "'c LockFactory \<Rightarrow> string" where
  "GetBackendType (RedisLockFactory client) = ''Redis''"
| "GetBackendType (LocalLockFactory n) = ''Local''"

text \<open>\<open>None\<close>: the constructor does not return, as the managers' \<open>NewShardedLockManager\<close> does not.\<close>

fun CreateSimpleLock ::
    "('s, ('c, 's, 'z) world_scheme) env \<Rightarrow> 'c LockFactory \<Rightarrow> string \<Rightarrow> ('c, 's, 'z) world_scheme
       \<Rightarrow> (('c, 's, 'z) world_scheme Lock \<times> ('c, 's, 'z) world_scheme) option" where
  "CreateSimpleLock E (RedisLockFactory client) key w =
     Some (redisSimpleLock_iface E client (length (w_simple w)), w\<lparr>w_simple := w_simple w @ [newRedisSimpleLock key]\<rparr>)"
| "CreateSimpleLock E (LocalLockFactory n) key w =
     (case ev_pick E w of (pick, w1) \<Rightarrow>
        map_option (\<lambda>(h, g). (localSimpleLock_iface (ev_rt E) h, w1\<lparr>w_globals := g\<rparr>))
          (newLocalSimpleLock n pick key (w_globals w1)))"

fun CreateRWLock ::
    "('s, ('c, 's, 'z) world_scheme) env \<Rightarrow> 'c LockFactory \<Rightarrow> string \<Rightarrow> ('c, 's, 'z) world_scheme
       \<Rightarrow> (('c, 's, 'z) world_scheme RWLock \<times> ('c, 's, 'z) world_scheme) option" where
  "CreateRWLock E (RedisLockFactory client) key w =
     Some (redisRWLock_iface E client (length (w_rw w)), w\<lparr>w_rw := w_rw w @ [newRedisRWLock key]\<rparr>)"
| "CreateRWLock E (LocalLockFactory n) key w =
     (case ev_pick E w of (pick, w1) \<Rightarrow>
        map_option (\<lambda>(h, g). (localRWLock_iface (ev_rt E) h, w1\<lparr>w_globals := g\<rparr>))
          (newLocalRWLock n pick key (w_globals w1)))"

fun CreateFairLock ::
    "('s, ('c, 's, 'z) world_scheme) env \<Rightarrow> 'c LockFactory \<Rightarrow> string \<Rightarrow> ('c, 's, 'z) world_scheme
       \<Rightarrow> (('c, 's, 'z) world_scheme FairLock \<times> ('c, 's, 'z) world_scheme) option" where
  "CreateFairLock E (RedisLockFactory client) key w =
     Some (redisFairLock_iface E client (length (w_fair w)), w\<lparr>w_fair := w_fair w @ [newRedisFairLock key]\<rparr>)"
| "CreateFairLock E (LocalLockFactory n) key w =
     (case ev_pick E w of (pick, w1) \<Rightarrow>
        map_option (\<lambda>(h, g). (localFairLock_iface (ev_rt E) h, w1\<lparr>w_globals := g\<rparr>))
          (newLocalFairLock n pick key (w_globals w1)))"

section \<open>The functions that take a backend\<close>

text \<open>
  The switch the three of them share: on the answer of \<open>Type()\<close>, then on the type of the value.
  \<open>initTime\<close> is the start of the process, when \<open>ErrUnsupportedBackend\<close> was made.
\<close>

definition backend_factory :: "gotime \<Rightarrow> 'c Backend \<Rightarrow> err + 'c LockFactory" where
  "backend_factory initTime backend =
     (if Backend_Type backend = ''Redis'' then
        (case backend of RedisBackend client \<Rightarrow> Inr (NewRedisLockFactory client)
         | _ \<Rightarrow> Inl (ErrUnsupportedBackend initTime))
      else if Backend_Type backend = ''Local'' then
        (case backend of LocalBackend n \<Rightarrow> Inr (NewLocalLockFactory n)
         | _ \<Rightarrow> Inl (ErrUnsupportedBackend initTime))
      else Inl (ErrUnsupportedBackend initTime))"

definition with_factory ::
    "gotime \<Rightarrow> ('c LockFactory \<Rightarrow> 'w \<Rightarrow> ('l \<times> 'w) option) \<Rightarrow> 'c Backend \<Rightarrow> 'w \<Rightarrow> ((err + 'l) \<times> 'w) option" where
  "with_factory initTime create backend w =
     (case backend_factory initTime backend of
        Inl e \<Rightarrow> Some (Inl e, w)
      | Inr f \<Rightarrow> map_option (\<lambda>(l, w'). (Inr l, w')) (create f w))"

definition NewSimpleLock where
  "NewSimpleLock initTime E key = with_factory initTime (\<lambda>f. CreateSimpleLock E f key)"

definition NewRWLock where
  "NewRWLock initTime E key = with_factory initTime (\<lambda>f. CreateRWLock E f key)"

definition NewFairLock where
  "NewFairLock initTime E key = with_factory initTime (\<lambda>f. CreateFairLock E f key)"

section \<open>With metrics\<close>

fun getBackendName :: "'c Backend \<Rightarrow> string" where
  "getBackendName (LocalBackend n) = ''Local''"
| "getBackendName (RedisBackend client) = ''Redis''"
| "getBackendName (OtherBackend t) = ''Unknown''"

definition on_success :: "('l \<Rightarrow> 'w \<Rightarrow> 'r \<times> 'w) \<Rightarrow> ((err + 'l) \<times> 'w) option \<Rightarrow> ((err + 'r) \<times> 'w) option" where
  "on_success f = map_option (\<lambda>(r, w). case r of Inl e \<Rightarrow> (Inl e, w) | Inr l \<Rightarrow> (case f l w of (x, w') \<Rightarrow> (Inr x, w')))"

definition NewSimpleLockWithMetrics where
  "NewSimpleLockWithMetrics initTime E g key backend w =
     on_success (\<lambda>baseLock w. (NewMetricsWrapper g baseLock ''SimpleLock'' (getBackendName backend) None, w))
       (NewSimpleLock initTime E key backend w)"

definition NewRWLockWithMetrics where
  "NewRWLockWithMetrics initTime E g key backend w =
     on_success (\<lambda>baseLock w. (NewRWLockMetricsWrapper g baseLock (getBackendName backend) None, w))
       (NewRWLock initTime E key backend w)"

definition NewFairLockWithMetrics where
  "NewFairLockWithMetrics initTime E g key backend w =
     on_success (\<lambda>baseLock w. (NewFairLockMetricsWrapper g baseLock (getBackendName backend) None, w))
       (NewFairLock initTime E key backend w)"

section \<open>With a watchdog\<close>

text \<open>
  The new watchdog gets the next place of the world's list. \<open>fairLockAdapter\<close> is the record's
  \<open>truncate\<close>: the methods of \<open>Lock\<close> of a \<open>FairLock\<close>.
\<close>

definition attach_watchdog ::
    "LockConfig \<Rightarrow> ('c, 's, 'z) world_scheme Lock \<Rightarrow> ('c, 's, 'z) world_scheme
       \<Rightarrow> ('c, 's, 'z) world_scheme LockWithWatchdog \<times> ('c, 's, 'z) world_scheme" where
  "attach_watchdog config lock w =
     (let i = length (w_watchdogs w)
      in NewLockWithWatchdog lock config (\<lambda>w. w_watchdogs w ! i)
           (\<lambda>d w. w\<lparr>w_watchdogs := take i (w_watchdogs w) @ d # drop (i + 1) (w_watchdogs w)\<rparr>) w)"

definition fairLockAdapter :: "'w FairLock \<Rightarrow> 'w Lock" where "fairLockAdapter l = Lock.truncate l"

definition NewSimpleLockWithWatchdog where
  "NewSimpleLockWithWatchdog initTime E key backend opts w =
     on_success (\<lambda>lock w. case rt_unique (ev_rt E) w of (uv, w1) \<Rightarrow> attach_watchdog (ApplyLockOptions opts uv) lock w1)
       (NewSimpleLock initTime E key backend w)"

definition NewRWLockWithWatchdog where
  "NewRWLockWithWatchdog initTime E key backend (opts :: LockOption list) w = NewRWLock initTime E key backend w"

definition NewFairLockWithWatchdog where
  "NewFairLockWithWatchdog initTime E key backend opts w =
     on_success (\<lambda>fairLock w. case rt_unique (ev_rt E) w of (uv, w1) \<Rightarrow>
         attach_watchdog (ApplyLockOptions opts uv) (fairLockAdapter fairLock) w1)
       (NewFairLock initTime E key backend w)"

section \<open>What a lock leaves alone\<close>

definition env_frame :: "('s, 'w) env \<Rightarrow> ('w \<Rightarrow> 'x) \<Rightarrow> bool" where
  "env_frame E p \<longleftrightarrow> rt_frame (ev_rt E) p \<and>
     (\<forall>w. p (snd (ev_pick E w)) = p w \<and> p (snd (ev_send E w)) = p w)"

definition lock_frame :: "'w Lock \<Rightarrow> ('w \<Rightarrow> 'x) \<Rightarrow> bool" where
  "lock_frame L p \<longleftrightarrow>
     (\<forall>opts w e w'. lk_Lock L opts w = Some (e, w') \<longrightarrow> p w' = p w) \<and>
     (\<forall>opts w. p (snd (lk_TryLock L opts w)) = p w) \<and> (\<forall>w. p (snd (lk_Unlock L w)) = p w) \<and>
     (\<forall>ttl w. p (snd (lk_Extend L ttl w)) = p w)"

lemma env_frameD:
  "env_frame E p \<Longrightarrow> rt_frame (ev_rt E) p" "env_frame E p \<Longrightarrow> p (snd (ev_pick E w)) = p w"
  "env_frame E p \<Longrightarrow> p (snd (ev_send E w)) = p w"
  by (simp_all add: env_frame_def)

lemma timed_frame:
  assumes "rt_frame rt p" and "\<And>m w. p (put m w) = p w"
  shows "p (snd (timed rt get put f w)) = p w" "p (snd (timed2 rt get put g w)) = p w"
    "p (snd (fresh rt get put h w)) = p w"
  by (simp_all add: timed_def timed2_def fresh_def case_prod_beta assms(2) rt_frameD [OF assms(1)])

lemma request_frame:
  assumes "env_frame E p" and "\<And>m w. p (put m w) = p w"
  shows "p (snd (request E get put f w)) = p w"
    "p (snd (case rt_unique (ev_rt E) w of (uv, w1) \<Rightarrow> request E get put (g uv) w1)) = p w"
  by (simp_all add: request_def case_prod_beta assms(2) env_frameD [OF assms(1)] rt_frameD [OF env_frameD(1) [OF assms(1)]])

text \<open>The blocking methods of the two simple locks and of the local fair lock retry one attempt.\<close>

lemma SL_Lock_frame:
  assumes "rt_frame rt p" and "SL_Lock rt get put opts w = Some (e, w')" and "\<And>m w. p (put m w) = p w"
  shows "p w' = p w"
  using assms(2) rt_frameD [OF assms(1)]
  by (auto simp: SL_Lock_def SL_attempt_def case_prod_beta assms(3) dest!: RetryLockOperation_frame [OF _ assms(1)])

lemma fair_Lock_frame:
  assumes "rt_frame rt p" and "fair_Lock rt get put key opts w = Some (e, w')" and "\<And>m w. p (put m w) = p w"
  shows "p w' = p w"
  using assms(2) rt_frameD [OF assms(1)]
  by (auto simp: fair_Lock_def fair_attempt_def case_prod_beta assms(3) dest!: RetryLockOperation_frame [OF _ assms(1)])

lemma RS_Lock_frame:
  assumes "env_frame E p" and "RS_Lock (ev_rt E) exec fmt (ev_send E) get put opts w = Some (e, w')"
    and "\<And>m w. p (put m w) = p w"
  shows "p w' = p w"
  using assms(2) rt_frameD [OF env_frameD(1) [OF assms(1)]] env_frameD(3) [OF assms(1)]
  by (auto simp: RS_Lock_def case_prod_beta assms(3) dest!: RetryLockOperation_frame [OF _ env_frameD(1) [OF assms(1)]])

lemma rf_eval_frame:
  assumes "env_frame E p" and "\<And>m w. p (put m w) = p w"
  shows "p (snd (rf_eval (ev_send E) get put script w)) = p w"
  by (simp add: rf_eval_def case_prod_beta assms(2) env_frameD(3) [OF assms(1)])

lemma rf_wait_frame:
  assumes "rf_wait rt exec fmt send get put acquireTimeout lockTTL deadline w = Some out"
    and "rt_frame rt p" and "\<And>script w. p (snd (rf_eval send get put script w)) = p w"
  shows "p (snd out) = p w"
proof -
  have "rt_frame rt p \<longrightarrow> (\<forall>script w. p (snd (rf_eval send get put script w)) = p w) \<longrightarrow> p (snd out) = p w"
  proof (rule rf_wait.raw_induct [where P = "\<lambda>rt exec fmt send get put acquireTimeout lockTTL deadline w out.
      rt_frame rt p \<longrightarrow> (\<forall>script w. p (snd (rf_eval send get put script w)) = p w) \<longrightarrow> p (snd out) = p w",
      OF _ assms(1)], intro impI, goal_cases)
    case (1 f rt exec fmt send get put acquireTimeout lockTTL deadline w out)
    note fr = rt_frameD [OF 1(3)] 1(4) [rule_format]
    have ih: "p (snd r) = p v" if "f rt exec fmt send get put acquireTimeout lockTTL deadline v = Some r" for v r
      using 1(1) [OF that] 1(3,4) by blast
    show ?case
      using 1(2) fr ih [of "rt_sleep rt (50 * Millisecond) (snd (rt_now rt (snd (rf_eval send get put
        (\<lambda>l. FairLockAcquireScript exec [rf_key l, rf_queueKey l] [rf_value l, fmt lockTTL]) w))))"]
      by (auto simp: case_prod_beta split: sum.splits if_splits)
  qed
  with assms(2,3) show ?thesis by blast
qed

lemma RF_Lock_frame:
  assumes "env_frame E p" and "RF_Lock (ev_rt E) exec fmt (ev_send E) get put opts w = Some (e, w')"
    and "\<And>m w. p (put m w) = p w"
  shows "p w' = p w"
  using assms(2) rt_frameD [OF env_frameD(1) [OF assms(1)]] env_frameD(3) [OF assms(1)]
    rf_eval_frame [OF assms(1), of put get, OF assms(3)]
  by (auto simp: RF_Lock_def case_prod_beta assms(3) Let_def RetryWithCustomLogic_def split: sum.splits if_splits
      dest!: rf_wait_frame [where p = p, OF _ env_frameD(1) [OF assms(1)]])

text \<open>The locks of the factories never touch the watchdogs.\<close>

lemma put_watchdogs [simp]:
  "w_watchdogs (put_simple_mgr m w) = w_watchdogs w" "w_watchdogs (put_fair_mgr f w) = w_watchdogs w"
  "w_watchdogs (put_simple_at c i ls w) = w_watchdogs w" "w_watchdogs (put_fair_at c i fs w) = w_watchdogs w"
  by (simp_all add: put_simple_mgr_def put_fair_mgr_def put_simple_at_def put_fair_at_def split: prod.split)

lemma set_handle_watchdogs [simp]:
  "w_watchdogs (set_handle get put_simple_mgr h l w) = w_watchdogs w"
  "w_watchdogs (set_handle get' put_fair_mgr h l' w) = w_watchdogs w"
  by (simp_all add: set_handle_def)

lemma lock_frameI:
  assumes "\<And>opts w e w'. lk_Lock L opts w = Some (e, w') \<Longrightarrow> p w' = p w"
    and "\<And>opts w. p (snd (lk_TryLock L opts w)) = p w" and "\<And>w. p (snd (lk_Unlock L w)) = p w"
    and "\<And>ttl w. p (snd (lk_Extend L ttl w)) = p w"
  shows "lock_frame L p"
  using assms unfolding lock_frame_def by blast

lemmas iface_defs = localSimpleLock_iface_def redisSimpleLock_iface_def localFairLock_iface_def
  redisFairLock_iface_def fairLockAdapter_def Lock.truncate_def Let_def Local_Lock_def LF_Lock_def

lemma iface_frames:
  assumes "env_frame E w_watchdogs"
  shows "lock_frame (localSimpleLock_iface (ev_rt E) h) w_watchdogs"
    and "lock_frame (redisSimpleLock_iface E c i) w_watchdogs"
    and "lock_frame (fairLockAdapter (localFairLock_iface (ev_rt E) h)) w_watchdogs"
    and "lock_frame (fairLockAdapter (redisFairLock_iface E c i)) w_watchdogs"
proof -
  note rt = env_frameD(1) [OF assms]
  show "lock_frame (localSimpleLock_iface (ev_rt E) h) w_watchdogs"
    by (rule lock_frameI) (auto simp: iface_defs timed_frame [OF rt] intro: SL_Lock_frame [OF rt])
  show "lock_frame (fairLockAdapter (localFairLock_iface (ev_rt E) h)) w_watchdogs"
    by (rule lock_frameI) (auto simp: iface_defs timed_frame [OF rt] intro: fair_Lock_frame [OF rt])
  show "lock_frame (redisSimpleLock_iface E c i) w_watchdogs"
    by (rule lock_frameI) (auto simp: iface_defs request_frame(1) [OF assms] intro!: request_frame(2) [OF assms]
        intro: RS_Lock_frame [OF assms])
  show "lock_frame (fairLockAdapter (redisFairLock_iface E c i)) w_watchdogs"
    by (rule lock_frameI) (auto simp: iface_defs request_frame(1) [OF assms] intro!: request_frame(2) [OF assms]
        intro: RF_Lock_frame [OF assms])
qed

lemma run_calls_frame:
  assumes "lock_frame L p" and "run_calls (plain_call L) cs w = Some (rs, w')"
  shows "p w' = p w"
  using assms(2)
proof (induction cs arbitrary: w rs)
  case (Cons c cs)
  then obtain r w1 rs1 where c: "plain_call L c w = Some (r, w1)" and rest: "run_calls (plain_call L) cs w1 = Some (rs1, w')"
    by (auto simp: bind_eq_Some_conv)
  have "p w1 = p w"
    using c assms(1) by (cases c; auto simp: lock_frame_def split: prod.splits; metis snd_conv)
  with Cons.IH [OF rest] show ?case by simp
qed simp

text \<open>A \<open>LockWithWatchdog\<close> as a \<open>Lock\<close>.\<close>

definition LWW_iface :: "'w LockWithWatchdog \<Rightarrow> 'w Lock" where
  "LWW_iface l = \<lparr>lk_Lock = LWW_Lock l, lk_TryLock = LWW_TryLock l, lk_Unlock = LWW_Unlock l, lk_Extend = LWW_Extend l,
     lk_IsLocked = LWW_IsLocked l, lk_GetTTL = LWW_GetTTL l, lk_GetKey = LWW_GetKey l, lk_GetValue = LWW_GetValue l\<rparr>"

lemma LWW_iface_frame: "lock_frame (lww_lock l) p \<Longrightarrow> lock_frame (LWW_iface l) p"
  by (simp add: lock_frame_def LWW_iface_def LWW_Lock_def LWW_TryLock_def LWW_Unlock_def LWW_Extend_def)

lemma with_factory_inv:
  assumes "with_factory initTime create backend w = Some (Inr l, w1)"
  obtains f where "create f w = Some (l, w1)" "backend_factory initTime backend = Inr f"
  using assms by (auto simp: with_factory_def split: sum.splits)

lemma created_frames:
  assumes "env_frame E w_watchdogs"
  shows "NewSimpleLock initTime E key backend w = Some (Inr l, w1) \<Longrightarrow> lock_frame l w_watchdogs"
    and "NewFairLock initTime E key backend w = Some (Inr fl, w1) \<Longrightarrow> lock_frame (fairLockAdapter fl) w_watchdogs"
proof -
  assume "NewSimpleLock initTime E key backend w = Some (Inr l, w1)"
  then obtain f where "CreateSimpleLock E f key w = Some (l, w1)"
    unfolding NewSimpleLock_def by (rule with_factory_inv)
  then show "lock_frame l w_watchdogs"
    using iface_frames [OF assms] by (cases f) (auto split: prod.splits)
next
  assume "NewFairLock initTime E key backend w = Some (Inr fl, w1)"
  then obtain f where "CreateFairLock E f key w = Some (fl, w1)"
    unfolding NewFairLock_def by (rule with_factory_inv)
  then show "lock_frame (fairLockAdapter fl) w_watchdogs"
    using iface_frames [OF assms] by (cases f) (auto split: prod.splits)
qed

lemma attach_watchdog_facts:
  assumes "attach_watchdog config lock w = (L, w1)"
  shows "lww_lock L = lock \<and> lww_get L w1 = NewWatchdog (lk_GetKey lock w) (WatchdogInterval config) (LockTTL config) \<and>
    (\<forall>w'. w_watchdogs w' = w_watchdogs w1 \<longrightarrow> lww_get L w' = lww_get L w1)"
  using assms by (auto simp: attach_watchdog_def NewLockWithWatchdog_def Let_def nth_append)

lemma on_success_inv:
  assumes "on_success f r = Some (Inr x, w')"
  obtains l w where "r = Some (Inr l, w)" "f l w = (x, w')"
proof -
  from assms obtain y v where "r = Some (y, v)" by (auto simp: on_success_def)
  with assms that show thesis by (cases y) (auto simp: on_success_def split: prod.splits)
qed

section \<open>The local backend through its interface\<close>

text \<open>The process has not initialised its managers yet, or they are reachable.\<close>

definition process_ok :: "('c, 's, 'z) world_scheme \<Rightarrow> bool" where
  "process_ok w \<longleftrightarrow> managers (w_globals w) = None \<or> reachable (simple_mgr w)"

text \<open>The unique value \<open>TryLock\<close> draws and its two readings of the clock.\<close>

definition drawn :: "'w go_rt \<Rightarrow> 'w \<Rightarrow> string" where "drawn rt w = fst (rt_unique rt w)"
definition first_read :: "'w go_rt \<Rightarrow> 'w \<Rightarrow> gotime" where "first_read rt w = fst (rt_now rt (snd (rt_unique rt w)))"
definition second_read :: "'w go_rt \<Rightarrow> 'w \<Rightarrow> gotime" where
  "second_read rt w = fst (rt_now rt (snd (rt_now rt (snd (rt_unique rt w)))))"

lemma init_managers:
  assumes "initGlobalManagers n g = Some g'"
  shows "\<exists>s r f. managers g' = Some (s, r, f) \<and> (managers g = None \<longrightarrow> reachable s) \<and> (managers g \<noteq> None \<longrightarrow> g' = g)"
  using assms by (cases "managers g") (auto simp: initGlobalManagers_def intro: reachable_new split: option.splits)

lemma init_once: "managers g \<noteq> None \<Longrightarrow> initGlobalManagers n g = Some g"
  by (auto simp: initGlobalManagers_def)

lemma local_backend_factory [simp]:
  "backend_factory initTime (LocalBackend n) = Inr (NewLocalLockFactory n)"
  by (simp add: backend_factory_def)

lemma NewSimpleLock_local:
  assumes "env_frame E w_globals" and "process_ok w" and "NewSimpleLock initTime E key (LocalBackend n) w = Some (Inr L, w1)"
  obtains h m pick where "reachable m" "newLocalLock () pick key m = (h, simple_mgr w1)"
    "L = localSimpleLock_iface (ev_rt E) h" "managers (w_globals w1) \<noteq> None"
    "managers (w_globals w) \<noteq> None \<longrightarrow> m = simple_mgr w"
proof -
  obtain pick v where v: "ev_pick E w = (pick, v)" by (cases "ev_pick E w")
  then have g: "w_globals v = w_globals w" using env_frameD(2) [OF assms(1), of w] by simp
  let ?n = "if sint n \<le> 0 then DefaultShardCount else n"
  obtain h g' where c: "newLocalSimpleLock ?n pick key (w_globals w) = Some (h, g')"
    "L = localSimpleLock_iface (ev_rt E) h" "w1 = v\<lparr>w_globals := g'\<rparr>"
    using assms(3) v g
    by (auto simp: NewSimpleLock_def with_factory_def NewLocalLockFactory_def simp del: if_split)
  from c(1) obtain gi where gi: "initGlobalManagers ?n (w_globals w) = Some gi"
    by (auto simp: newLocalSimpleLock_def GetGlobalSimpleLockManager_def)
  obtain s r f where srf: "managers gi = Some (s, r, f)" "managers (w_globals w) = None \<longrightarrow> reachable s"
    "managers (w_globals w) \<noteq> None \<longrightarrow> gi = w_globals w" using init_managers [OF gi] by (elim exE conjE)
  have "newLocalLock () pick key s = (h, simple_mgr w1)" "managers (w_globals w1) \<noteq> None"
    using c gi srf(1) by (auto simp: newLocalSimpleLock_def GetGlobalSimpleLockManager_def simple_mgr_def split: prod.splits)
  moreover have "managers (w_globals w) \<noteq> None \<longrightarrow> s = simple_mgr w" using srf by (auto simp: simple_mgr_def)
  moreover from this have "reachable s" using assms(2) srf(2) by (auto simp: process_ok_def)
  ultimately show thesis using that c(2) by blast
qed

lemma process_ok_after:
  assumes "reachable m" and "newLocalLock () pick key m = (h, simple_mgr w1)"
  shows "process_ok w1"
  using reachable_GetLock [OF assms(1), of "()" pick key] assms(2)
  by (simp add: process_ok_def newLocalLock_def split: prod.splits)

lemma local_TryLock_world:
  assumes "rt_frame rt w_globals"
  shows "fst (lk_TryLock (localSimpleLock_iface rt h) opts w) =
      fst (Local_TryLock h opts (drawn rt w) (first_read rt w) (second_read rt w) (simple_mgr w))"
    and "managers (w_globals w) \<noteq> None \<Longrightarrow> simple_mgr (snd (lk_TryLock (localSimpleLock_iface rt h) opts w)) =
      snd (Local_TryLock h opts (drawn rt w) (first_read rt w) (second_read rt w) (simple_mgr w))"
  using rt_frameD [OF assms]
  by (auto simp: localSimpleLock_iface_def fresh_def timed2_def timed_def case_prod_beta drawn_def first_read_def
      second_read_def simple_mgr_def put_simple_mgr_def)

text \<open>For the concrete instances: a runtime whose clock stands still, and a process at its start or with small managers.\<close>

definition still_env :: "(ref_state, (unit, ref_state) world) env" where
  "still_env = \<lparr>ev_rt = \<lparr>rt_now = (\<lambda>w. (7, w)), rt_ctx = (\<lambda>w. (None, w)), rt_sleep = (\<lambda>d w. w), rt_unique = (\<lambda>w. (''u'', w))\<rparr>,
     ev_pick = (\<lambda>w. (None, w)), ev_send = (\<lambda>w. (Delivered, w)), ev_exec = ref_exec, ev_fmt = ref_fmt\<rparr>"

definition world_with :: "(unit manager \<times> RWLockData manager \<times> FairLockData manager) option \<Rightarrow> (unit, ref_state) world" where
  "world_with ms = \<lparr>w_globals = \<lparr>managers = ms\<rparr>, w_simple = [], w_rw = [], w_fair = [], w_watchdogs = [], w_server = (\<lambda>_. ref_empty)\<rparr>"

lemma still_env_frame: "env_frame still_env p"
  by (simp add: env_frame_def rt_frame_def still_env_def)

lemma still_env_simps [simp]:
  "ev_pick still_env w = (None, w)" "rt_now (ev_rt still_env) w = (7, w)" "rt_unique (ev_rt still_env) w = (''u'', w)"
  by (simp_all add: still_env_def)

section \<open>Properties\<close>

text \<open>
  asking for a watchdog does not start one. The lock that \<open>NewSimpleLockWithWatchdog\<close> or
  \<open>NewFairLockWithWatchdog\<close> makes, on any backend and with any options, \<open>WithWatchdog\<close> among
  them, has a watchdog that does not run; and whatever calls of \<open>Lock\<close>, \<open>TryLock\<close>, \<open>Unlock\<close> and
  \<open>Extend\<close> follow, with any options, it is never started and renews nothing. \<open>EnableWatchdog\<close>
  is only validated, copied and printed; a call of \<open>Start\<close> alone begins the renewals.
\<close>
theorem watchdog_not_started_by_options:
  assumes "env_frame E w_watchdogs"
    and "made = NewSimpleLockWithWatchdog initTime E key backend opts w \<or>
         made = NewFairLockWithWatchdog initTime E key backend opts w"
    and "made = Some (Inr L, w1)"
    and "run_calls (plain_call (LWW_iface L)) calls w1 = Some (results, w2)"
  shows "\<not> LWW_IsRunning L w2 \<and> wd_spawned (lww_get L w2) = 0 \<and> wd_looping (lww_get L w2) = 0 \<and>
    ws_ExtendCount (LWW_GetStats L w2) = 0 \<and> ws_FailedExtends (LWW_GetStats L w2) = 0"
proof -
  have "\<exists>lock config w0. lock_frame lock w_watchdogs \<and> attach_watchdog config lock w0 = (L, w1)"
    using assms(2)
  proof
    assume "made = NewSimpleLockWithWatchdog initTime E key backend opts w"
    then have "NewSimpleLockWithWatchdog initTime E key backend opts w = Some (Inr L, w1)" using assms(3) by simp
    then obtain lock w0 where "NewSimpleLock initTime E key backend w = Some (Inr lock, w0)"
      and "(case rt_unique (ev_rt E) w0 of (uv, w1) \<Rightarrow> attach_watchdog (ApplyLockOptions opts uv) lock w1) = (L, w1)"
      unfolding NewSimpleLockWithWatchdog_def by (rule on_success_inv)
    then show ?thesis using created_frames(1) [OF assms(1)] unfolding case_prod_beta by blast
  next
    assume "made = NewFairLockWithWatchdog initTime E key backend opts w"
    then have "NewFairLockWithWatchdog initTime E key backend opts w = Some (Inr L, w1)" using assms(3) by simp
    then obtain lock w0 where "NewFairLock initTime E key backend w = Some (Inr lock, w0)"
      and "(case rt_unique (ev_rt E) w0 of (uv, w1) \<Rightarrow>
        attach_watchdog (ApplyLockOptions opts uv) (fairLockAdapter lock) w1) = (L, w1)"
      unfolding NewFairLockWithWatchdog_def by (rule on_success_inv)
    then show ?thesis using created_frames(2) [OF assms(1)] unfolding case_prod_beta by blast
  qed
  then obtain lock config w0 where lock: "lock_frame lock w_watchdogs" "attach_watchdog config lock w0 = (L, w1)"
    by blast
  note att = attach_watchdog_facts [OF lock(2)]
  from att lock(1) have "lock_frame (LWW_iface L) w_watchdogs" by (intro LWW_iface_frame) simp
  with run_calls_frame [OF _ assms(4)] have "w_watchdogs w2 = w_watchdogs w1" .
  with att have "lww_get L w2 = lww_get L w1" by blast
  with att show ?thesis
    by (simp add: LWW_IsRunning_def LWW_GetStats_def WD_IsRunning_def WD_GetStats_def NewWatchdog_def)
qed

theorem watchdog_not_started_by_options_witness:
  "\<exists>L w1 rs w2. NewSimpleLockWithWatchdog 0 still_env ''k'' (RedisBackend ()) [WithWatchdog True] (world_with None) =
      Some (Inr L, w1) \<and>
    run_calls (plain_call (LWW_iface L)) [CTryLock [WithWatchdog True], CExtend Second] w1 = Some (rs, w2) \<and>
    \<not> LWW_IsRunning L w2"
proof -
  obtain L w1 where L: "NewSimpleLockWithWatchdog 0 still_env ''k'' (RedisBackend ()) [WithWatchdog True] (world_with None) =
      Some (Inr L, w1)"
    by (simp add: NewSimpleLockWithWatchdog_def on_success_def NewSimpleLock_def with_factory_def backend_factory_def
        NewRedisLockFactory_def attach_watchdog_def NewLockWithWatchdog_def Let_def)
  obtain rs w2 where run: "run_calls (plain_call (LWW_iface L)) [CTryLock [WithWatchdog True], CExtend Second] w1 = Some (rs, w2)"
    by (simp add: case_prod_beta)
  show ?thesis
    using watchdog_not_started_by_options [OF still_env_frame disjI1 [OF refl] L run] L run by blast
qed

text \<open>
  C13: two local backends are one. Take any state of the process, two locks that \<open>NewSimpleLock\<close> makes
  one after the other for the same key, on local backends of any two shard counts, in a runtime
  that leaves the managers alone. Once \<open>TryLock\<close> on the first has been granted, \<open>TryLock\<close> on the
  second is refused as long as it reads the clock within the TTL of the grant. The second backend's
  shard count has no effect at all: any other gives the same lock and the same world.
\<close>
theorem local_backends_share_locks:
  assumes "env_frame E w_globals" and "process_ok w"
    and "NewSimpleLock i1 E key (LocalBackend n1) w = Some (Inr L1, w1)"
    and "NewSimpleLock i2 E key (LocalBackend n2) w1 = Some (Inr L2, w2)"
    and "lk_TryLock L1 opts1 w2 = ((True, None), w3)"
    and "first_read (ev_rt E) w3 \<le>
      second_read (ev_rt E) w2 + sint (LockTTL (ApplyLockOptions opts1 (drawn (ev_rt E) w2)))"
  shows "fst (lk_TryLock L2 opts2 w3) = (False, None) \<and>
    NewSimpleLock i2 E key (LocalBackend n3) w1 = Some (Inr L2, w2)"
proof
  obtain h1 m1 pick1 where 1: "reachable m1" "newLocalLock () pick1 key m1 = (h1, simple_mgr w1)"
    "L1 = localSimpleLock_iface (ev_rt E) h1" "managers (w_globals w1) \<noteq> None"
    by (rule NewSimpleLock_local [OF assms(1-3)])
  obtain h2 m2 pick2 where 2: "newLocalLock () pick2 key m2 = (h2, simple_mgr w2)"
    "L2 = localSimpleLock_iface (ev_rt E) h2" "managers (w_globals w2) \<noteq> None" "m2 = simple_mgr w1"
    using NewSimpleLock_local [OF assms(1) process_ok_after [OF 1(1,2)] assms(4)] 1(4) by metis
  note rt = env_frameD(1) [OF assms(1)]
  have "Local_TryLock h1 opts1 (drawn (ev_rt E) w2) (first_read (ev_rt E) w2) (second_read (ev_rt E) w2) (simple_mgr w2) =
      ((True, None), simple_mgr w3)"
    using local_TryLock_world [OF rt, where h = h1 and opts = opts1 and w = w2] 2(3) assms(5) 1(3) by (metis fst_conv snd_conv prod.collapse)
  from two_handles [OF 1(1,2) 2(1) [unfolded 2(4)] this assms(6)]
  show "fst (lk_TryLock L2 opts2 w3) = (False, None)"
    unfolding 2(2) local_TryLock_world(1) [OF rt] by simp
  show "NewSimpleLock i2 E key (LocalBackend n3) w1 = Some (Inr L2, w2)"
    using assms(4) 1(4) env_frameD(2) [OF assms(1), of w1]
    by (simp add: NewSimpleLock_def with_factory_def backend_factory_def NewLocalLockFactory_def newLocalSimpleLock_def
        GetGlobalSimpleLockManager_def init_once case_prod_beta)
qed

theorem local_backends_share_locks_witness:
  "\<exists>L1 w1 L2 w2 w3. NewSimpleLock 0 still_env ''a'' (LocalBackend 4) (world_with (Some (one_shard, one_shard, one_shard))) =
      Some (Inr L1, w1) \<and>
    NewSimpleLock 0 still_env ''a'' (LocalBackend 64) w1 = Some (Inr L2, w2) \<and>
    lk_TryLock L1 [] w2 = ((True, None), w3) \<and> fst (lk_TryLock L2 [] w3) = (False, None)"
proof -
  let ?w = "world_with (Some (one_shard, one_shard, one_shard))"
  let ?h = "the_handle" and ?w1 = "put_simple_mgr (one_lock ()) ?w"
  let ?m2 = "snd (newLocalLock () None ''a'' (one_lock ()))" and ?L = "localSimpleLock_iface (ev_rt still_env) the_handle"
  have create: "NewSimpleLock 0 still_env ''a'' (LocalBackend n) (put_simple_mgr m ?w) =
      (case newLocalLock () None ''a'' m of (h, m') \<Rightarrow> Some (Inr (localSimpleLock_iface (ev_rt still_env) h), put_simple_mgr m' ?w))"
    for n m
    by (simp add: NewSimpleLock_def with_factory_def NewLocalLockFactory_def newLocalSimpleLock_def
        GetGlobalSimpleLockManager_def init_once put_simple_mgr_def world_with_def simple_mgr_def split: prod.split)
  have 0: "?w = put_simple_mgr one_shard ?w" by (simp add: put_simple_mgr_def world_with_def)
  have 1: "NewSimpleLock 0 still_env ''a'' (LocalBackend 4) ?w = Some (Inr ?L, ?w1)"
    by (subst 0) (simp add: create newLocalLock_def GetLock_one_shard)
  have 2: "NewSimpleLock 0 still_env ''a'' (LocalBackend 64) ?w1 = Some (Inr ?L, put_simple_mgr ?m2 ?w)"
    by (simp add: create newLocalLock_def GetLock_registered)
  have ok: "process_ok ?w" by (simp add: process_ok_def world_with_def simple_mgr_def reachable_one_shard)
  have len: "length (heap (one_lock ())) = 1" by (simp add: one_lock_def)
  have "fst (lk_TryLock ?L [] (put_simple_mgr ?m2 ?w)) = fst (Local_TryLock ?h [] ''u'' 7 7 ?m2)"
    by (simp add: local_TryLock_world(1) [OF env_frameD(1) [OF still_env_frame]] drawn_def first_read_def second_read_def)
       (simp add: simple_mgr_def put_simple_mgr_def world_with_def)
  also have "\<dots> = (True, None)"
    by (simp add: Local_TryLock_def on_lock_result newLocalLock_def GetLock_registered upd_lock_def len SL_TryLock_def
        new_object_def Let_def)
  finally obtain w3 where 3: "lk_TryLock ?L [] (put_simple_mgr ?m2 ?w) = ((True, None), w3)"
    by (metis prod.collapse)
  from local_backends_share_locks [OF still_env_frame ok 1 2 3, of "[]"] 1 2 3 show ?thesis
    by (simp add: first_read_def second_read_def Apply_LockTTL default_config_def)
qed

end
