(* ===== verification/Example.thy ===== *)
theory Example
  imports Factory
begin

text \<open>
  The program of \<open>src/examples/metrics_example.go\<close>: the library put together the way its users do. The five
  demonstrations, the concurrent one under any interleaving, on the world of \<open>Factory\<close> with the
  process's global metrics and what the process has printed.
\<close>

section \<open>What the program prints\<close>

text \<open>
  A print statement is its text, in English and without its layout, with the values it prints. \<open>log.Printf\<close> and
  \<open>log.Fatal\<close> print like \<open>fmt\<close>; the latter ends the process.
\<close>

datatype 'f printed = PInt i64 | PNat nat | PDur duration | PBool bool | PErr err | PFloat 'f | PStr string
  | PMap "(string \<times> i64) list"

type_synonym 'f line = "string \<times> 'f printed list"

record ('c, 's, 'f) process = "('c, 's) world" +
  pr_metrics :: "'f DefaultMetrics"
  pr_out :: "'f line list"

definition say :: "'f line \<Rightarrow> ('c, 's, 'f) process \<Rightarrow> ('c, 's, 'f) process" where
  "say x w = w\<lparr>pr_out := pr_out w @ [x]\<rparr>"

definition say_all :: "'f line list \<Rightarrow> ('c, 's, 'f) process \<Rightarrow> ('c, 's, 'f) process" where
  "say_all xs w = w\<lparr>pr_out := pr_out w @ xs\<rparr>"

text \<open>The global metrics are the default ones: the program never replaces them.\<close>

definition process_metrics :: "('f, ('c, 's, 'f) process) Metrics" where
  "process_metrics c w = w\<lparr>pr_metrics := default_metrics c (pr_metrics w)\<rparr>"

abbreviation process_globals :: "('f, ('c, 's, 'f) process) Metrics metrics_globals" where
  "process_globals \<equiv> metrics_init process_metrics"

record ('c, 's, 'f) runtime =
  rn_init :: gotime
  rn_env :: "('s, ('c, 's, 'f) process) env"
  rn_NumGoroutine :: "('c, 's, 'f) process \<Rightarrow> i64 \<times> ('c, 's, 'f) process"
  rn_float :: "'f float_ops"

definition rn_metrics_env :: "('c, 's, 'f) runtime \<Rightarrow> ('c, 's, 'f) process mw_env" where
  "rn_metrics_env R = \<lparr>mr_now = rt_now (ev_rt (rn_env R)), mr_NumGoroutine = rn_NumGoroutine R\<rparr>"

definition stats_of :: "('c, 's, 'f) runtime \<Rightarrow> ('c, 's, 'f) process \<Rightarrow> 'f MetricsStats" where
  "stats_of R w = Metrics_GetStats (rn_float R) (pr_metrics w)"

text \<open>
  How a part of the program ends: it returns, it ends the process, or neither (a call that blocks or panics).
  \<open>call\<close> goes on with the result of a library call.
\<close>

datatype 'w outcome = Returned 'w | Exited 'w | NoReturn

definition call :: "('w \<Rightarrow> ('r \<times> 'w) option) \<Rightarrow> ('r \<Rightarrow> 'w \<Rightarrow> 'w outcome) \<Rightarrow> 'w \<Rightarrow> 'w outcome" where
  "call f k w = (case f w of None \<Rightarrow> NoReturn | Some (r, w') \<Rightarrow> k r w')"

definition after :: "('w \<Rightarrow> 'w outcome) \<Rightarrow> ('w \<Rightarrow> 'w outcome) \<Rightarrow> 'w \<Rightarrow> 'w outcome" where
  "after p q w = (case p w of Returned w' \<Rightarrow> q w' | Exited w' \<Rightarrow> Exited w' | NoReturn \<Rightarrow> NoReturn)"

definition total :: "('w \<Rightarrow> 'r \<times> 'w) \<Rightarrow> 'w \<Rightarrow> ('r \<times> 'w) option" where
  "total f w = Some (f w)"

lemma call_simps:
  "f w = Some (r, w') \<Longrightarrow> call f k w = k r w'" "f w = None \<Longrightarrow> call f k w = NoReturn"
  by (simp_all add: call_def)

lemma after_simps: "p w = Returned w' \<Longrightarrow> after p q w = q w'" "p w = Exited w' \<Longrightarrow> after p q w = Exited w'"
  by (simp_all add: after_def)

section \<open>The demonstrations\<close>

definition op_report :: "string \<Rightarrow> op_stats \<Rightarrow> 'f line" where
  "op_report name t = (name @ '': count, succeeded, failed, average time'',
     [PInt (os_Count t), PInt (os_Success t), PInt (os_Failed t), PDur (os_AverageTime t)])"

definition basic_report :: "('c, 's, 'f) runtime \<Rightarrow> ('c, 's, 'f) process \<Rightarrow> ('c, 's, 'f) process" where
  "basic_report R w =
     (let ops = LockOperations (stats_of R w); t = lo_TryAcquire ops; r = lo_Release ops; e = lo_Extend ops
      in say_all [(''lock operations'', []), (''TryAcquire: count, succeeded, failed'', [PInt (os_Count t), PInt (os_Success t), PInt (os_Failed t)]),
           (''Release: count, succeeded, failed'', [PInt (os_Count r), PInt (os_Success r), PInt (os_Failed r)]), (''Extend: count, succeeded, failed'', [PInt (os_Count e), PInt (os_Success e), PInt (os_Failed e)])] w)"

definition demonstrateBasicMetrics ::
    "('c, 's, 'f) runtime \<Rightarrow> 'c Backend \<Rightarrow> ('c, 's, 'f) process \<Rightarrow> ('c, 's, 'f) process outcome" where
  "demonstrateBasicMetrics R backend =
     (let E = rn_metrics_env R; finish = (\<lambda>w. Returned (basic_report R w)) in
      call (NewSimpleLockWithMetrics (rn_init R) (rn_env R) process_globals ''demo:simple'' backend) (\<lambda>made w.
        case made of
          Inl e \<Rightarrow> Exited (say (''fatal'', [PErr e]) w)
        | Inr simpleLock \<Rightarrow>
            call (MW_TryLock E simpleLock [WithLockTTL (2 * Second)]) (\<lambda>(success, e) w.
              case e of
                Some x \<Rightarrow> finish (say (''TryLock error'', [PErr x]) w)
              | None \<Rightarrow>
                  if success then
                    call (MW_Extend E simpleLock (3 * Second)) (\<lambda>(extended, e) w.
                      call (MW_Unlock E simpleLock) (\<lambda>e w.
                          finish (case e of Some x \<Rightarrow> say (''Unlock error'', [PErr x]) w | None \<Rightarrow> say (''Unlock succeeded'', []) w))
                        (case e of Some x \<Rightarrow> say (''Extend error'', [PErr x]) w
                         | None \<Rightarrow> if extended then say (''lock extended'', []) w else w))
                      (rt_sleep (ev_rt (rn_env R)) (100 * Millisecond) (say (''TryLock succeeded'', []) w))
                  else finish w)
              (say (''running lock operations'', []) w)))"

text \<open>The loops over the maps of the error statistics visit them in the order of the association list.\<close>

definition error_report :: "('c, 's, 'f) runtime \<Rightarrow> ('c, 's, 'f) process \<Rightarrow> ('c, 's, 'f) process" where
  "error_report R w =
     (let st = ms_ErrorStats (stats_of R w);
          entries = (\<lambda>title m. if m \<noteq> [] then title # map (\<lambda>(k, n). (''count'', [PStr k, PInt n])) m else [])
      in say_all ([(''errors'', []), (''total errors'', [PInt (es_TotalErrors st)])] @ entries (''by type'', []) (es_ErrorsByType st) @
           entries (''by code'', []) (es_ErrorsByCode st)) w)"

definition demonstrateErrorMetrics ::
    "('c, 's, 'f) runtime \<Rightarrow> 'c Backend \<Rightarrow> ('c, 's, 'f) process \<Rightarrow> ('c, 's, 'f) process outcome" where
  "demonstrateErrorMetrics R backend =
     (let E = rn_metrics_env R; finish = (\<lambda>w. Returned (error_report R w)) in
      call (NewSimpleLockWithMetrics (rn_init R) (rn_env R) process_globals ''demo:error'' backend) (\<lambda>made w.
        case made of
          Inl e \<Rightarrow> Returned (say (''cannot create lock'', [PErr e]) w)
        | Inr testLock \<Rightarrow>
            call (MW_TryLock E testLock [WithLockTTL (1 * Second)]) (\<lambda>(success, e) w.
              if e = None \<and> success then
                call (MW_TryLock E testLock [WithLockTTL (1 * Second)]) (\<lambda>(success2, e2) w.
                  call (MW_Unlock E testLock) (\<lambda>_.
                    call (MW_Unlock E testLock) (\<lambda>e3 w.
                      finish (case e3 of Some x \<Rightarrow> say (''second release failed'', [PErr x]) w | None \<Rightarrow> w)))
                    (if e2 \<noteq> None \<or> \<not> success2 then say (''second acquisition refused, as expected'', []) w else w))
                  (say (''lock acquired'', []) w)
              else finish w) w))"

definition demonstrateDifferentLockTypes ::
    "('c, 's, 'f) runtime \<Rightarrow> 'c Backend \<Rightarrow> ('c, 's, 'f) process \<Rightarrow> ('c, 's, 'f) process outcome" where
  "demonstrateDifferentLockTypes R backend =
     (let E = rn_metrics_env R;
          fair = (\<lambda>w. call (NewFairLockWithMetrics (rn_init R) (rn_env R) process_globals ''demo:fair'' backend) (\<lambda>made w.
            case made of
              Inl e \<Rightarrow> Returned (say (''cannot create fair lock'', [PErr e]) w)
            | Inr fairLock \<Rightarrow>
                call (MF_TryLock E fairLock [WithLockTTL (1 * Second)]) (\<lambda>(success, e) w.
                  if e = None \<and> success then
                    call (total (MF_GetQueuePosition fairLock)) (\<lambda>(position, _).
                      call (MF_GetQueueLength fairLock) (\<lambda>(queued, _) w.
                        call (MF_Unlock E fairLock) (\<lambda>_. Returned) (say (''queue position, length'', [PInt position, PInt queued]) w)))
                      (say (''fair lock acquired'', []) w)
                  else Returned w) w) (say (''testing fair lock'', []) w));
          write = (\<lambda>rwLock. call (MRW_TryWLock E rwLock [WithLockTTL (1 * Second)]) (\<lambda>(success, e) w.
            if e = None \<and> success then
              call (total (MRW_IsWriteLocked rwLock)) (\<lambda>(isWriteLocked, _) w.
                call (MRW_WUnlock E rwLock) (\<lambda>_. fair) (say (''write locked'', [PBool isWriteLocked]) w))
                (say (''write lock acquired'', []) w)
            else fair w)) in
      (\<lambda>w. call (NewRWLockWithMetrics (rn_init R) (rn_env R) process_globals ''demo:rw'' backend) (\<lambda>made w.
        case made of
          Inl e \<Rightarrow> Returned (say (''cannot create read-write lock'', [PErr e]) w)
        | Inr rwLock \<Rightarrow>
            call (MRW_TryRLock E rwLock [WithLockTTL (1 * Second)]) (\<lambda>(success, e) w.
              if e = None \<and> success then
                call (MRW_GetReadCount rwLock) (\<lambda>(count, _) w.
                  call (MRW_RUnlock E rwLock) (\<lambda>_. write rwLock) (say (''read locks'', [PInt count]) w))
                  (say (''read lock acquired'', []) w)
              else write rwLock w) w) (say (''testing read-write lock'', []) w)))"

definition demonstrateGlobalMetrics :: "('c, 's, 'f) runtime \<Rightarrow> ('c, 's, 'f) process \<Rightarrow> ('c, 's, 'f) process outcome" where
  "demonstrateGlobalMetrics R w =
     (let stats = stats_of R w; ops = LockOperations stats; conc = ms_ConcurrencyStats stats;
          res = ms_ResourceStats stats; wd = ms_WatchdogStats stats; sh = ms_ShardingStats stats; er = ms_ErrorStats stats
      in Returned (say_all
        ([(''global report'', []), (''lock operations report'', []), op_report ''Acquire'' (lo_Acquire ops), op_report ''TryAcquire'' (lo_TryAcquire ops),
            op_report ''Release'' (lo_Release ops), op_report ''Extend'' (lo_Extend ops),
            (''concurrency'', []), (''most concurrent locks'', [PInt (cs_MaxConcurrentLocks conc)]), (''current locks'', [PInt (cs_CurrentLocks conc)]),
            (''longest queue'', [PInt (cs_MaxQueueLength conc)]), (''average wait'', [PDur (cs_AverageWaitTime conc)]),
            (''resources'', []), (''memory used'', [PInt (res_CurrentMemoryUsage res)]), (''most memory used'', [PInt (res_MaxMemoryUsage res)]),
            (''connections'', [PInt (res_CurrentConnections res)]), (''current goroutines'', [PInt (res_CurrentGoroutines res)])] @
         (if 0 < sint (os_Count (wm_Extends wd))
          then [(''watchdogs'', []), (''active watchdogs'', [PInt (wm_ActiveWatchdogs wd)]),
            (''renewals: count, succeeded, failed'', [PInt (os_Count (wm_Extends wd)), PInt (os_Success (wm_Extends wd)), PInt (os_Failed (wm_Extends wd))]),
            (''average renewal time'', [PDur (os_AverageTime (wm_Extends wd))])] else []) @
         (if 0 < ss_ShardCount sh
          then [(''shards'', []), (''shard count'', [PNat (ss_ShardCount sh)]), (''highest load'', [PInt (ss_MaxShardLoad sh)]),
            (''lowest load'', [PInt (ss_MinShardLoad sh)]), (''deviation'', [PFloat (ss_LoadStandardDev sh)])] else []) @
         (if 0 < sint (es_TotalErrors er)
          then [(''error report'', []), (''total number of errors'', [PInt (es_TotalErrors er)])] @
            (if es_ErrorsByType er \<noteq> [] then [(''errors by type'', [PMap (es_ErrorsByType er)])] else []) else []) @
         [(''end of report'', [])]) w))"

section \<open>The goroutines\<close>

text \<open>
  A goroutine of \<open>demonstrateConcurrentMetrics\<close> between its calls on the library; the number is the loop's \<open>j\<close>.
\<close>

datatype 'l worker = Starting | Attempting 'l nat | Sleeping 'l nat | Releasing 'l nat | Finished

definition operations :: nat where "operations = 50"
definition goroutines :: nat where "goroutines = 10"

type_synonym ('c, 's, 'f) demo_worker = "('f, ('c, 's, 'f) process) SimpleWrapper worker"

definition worker_key :: "nat \<Rightarrow> string" where "worker_key i = ''demo:concurrent:'' @ dec (int i)"

fun worker_step ::
    "('c, 's, 'f) runtime \<Rightarrow> 'c Backend \<Rightarrow> nat \<Rightarrow> ('c, 's, 'f) demo_worker \<Rightarrow> ('c, 's, 'f) process
       \<Rightarrow> (('c, 's, 'f) demo_worker \<times> ('c, 's, 'f) process) option" where
  "worker_step R backend i Starting w =
     map_option (\<lambda>(made, w'). case made of Inl e \<Rightarrow> (Finished, say (''cannot create lock'', [PErr e]) w') | Inr l \<Rightarrow> (Attempting l 0, w'))
       (NewSimpleLockWithMetrics (rn_init R) (rn_env R) process_globals (worker_key i) backend w)"
| "worker_step R backend i (Attempting l j) w =
     (if j < operations then
        map_option (\<lambda>((success, e), w'). (if e = None \<and> success then Sleeping l j else Attempting l (Suc j), w'))
          (MW_TryLock (rn_metrics_env R) l [WithLockTTL (100 * Millisecond)] w)
      else Some (Finished, w))"
| "worker_step R backend i (Sleeping l j) w =
     Some (Releasing l j, rt_sleep (ev_rt (rn_env R)) Millisecond w)"
| "worker_step R backend i (Releasing l j) w =
     map_option (\<lambda>(e, w'). (Attempting l (Suc j), w')) (MW_Unlock (rn_metrics_env R) l w)"
| "worker_step R backend i Finished w = Some (Finished, w)"

text \<open>A schedule says whose goroutine takes the next step; a step that panics ends the process with it.\<close>

fun workers_run ::
    "('c, 's, 'f) runtime \<Rightarrow> 'c Backend \<Rightarrow> nat list \<Rightarrow> ('c, 's, 'f) demo_worker list \<times> ('c, 's, 'f) process
       \<Rightarrow> (('c, 's, 'f) demo_worker list \<times> ('c, 's, 'f) process) option" where
  "workers_run R backend [] s = Some s"
| "workers_run R backend (i # sched) (ws, w) =
     (if i < length ws then
        Option.bind (worker_step R backend i (ws ! i) w) (\<lambda>(x, w'). workers_run R backend sched (ws[i := x], w'))
      else workers_run R backend sched (ws, w))"

text \<open>\<open>wg.Wait\<close> returns when every goroutine is done; a schedule that stops before that is not a run of the program.\<close>

definition all_finished :: "'l worker list \<Rightarrow> bool" where
  "all_finished ws \<longleftrightarrow> list_all (\<lambda>x. case x of Finished \<Rightarrow> True | _ \<Rightarrow> False) ws"

definition concurrent_report :: "('c, 's, 'f) runtime \<Rightarrow> gotime \<Rightarrow> ('c, 's, 'f) process \<Rightarrow> ('c, 's, 'f) process" where
  "concurrent_report R start w =
     (case rt_now (ev_rt (rn_env R)) w of (stop, w) \<Rightarrow>
        let stats = stats_of R w; t = lo_TryAcquire (LockOperations stats)
        in say_all [(''concurrent test done'', [PDur (time_sub stop start)]), (''operations'', [PInt (os_Count t)]), (''succeeded'', [PInt (os_Success t)]),
             (''failed'', [PInt (os_Failed t)]), (''average time'', [PDur (os_AverageTime t)]),
             (''goroutines'', [PInt (res_CurrentGoroutines (ms_ResourceStats stats))])] w)"

definition demonstrateConcurrentMetrics ::
    "('c, 's, 'f) runtime \<Rightarrow> nat list \<Rightarrow> 'c Backend \<Rightarrow> ('c, 's, 'f) process \<Rightarrow> ('c, 's, 'f) process outcome" where
  "demonstrateConcurrentMetrics R sched backend w =
     (case rt_now (ev_rt (rn_env R)) (say (''starting goroutines, operations each'', [PNat goroutines, PNat operations]) w) of (start, w1) \<Rightarrow>
        case workers_run R backend sched (replicate goroutines Starting, w1) of
          None \<Rightarrow> NoReturn
        | Some (ws, w2) \<Rightarrow> if all_finished ws then Returned (concurrent_report R start w2) else NoReturn)"

definition example_main :: "('c, 's, 'f) runtime \<Rightarrow> nat list \<Rightarrow> ('c, 's, 'f) process \<Rightarrow> ('c, 's, 'f) process outcome" where
  "example_main R sched w =
     (let backend = NewLocalBackend 8 in
      after (after (after (after
        (\<lambda>w. demonstrateBasicMetrics R backend (say (''heading'', [PNat 1]) w))
        (\<lambda>w. demonstrateConcurrentMetrics R sched backend (say (''heading'', [PNat 2]) w)))
        (\<lambda>w. demonstrateDifferentLockTypes R backend (say (''heading'', [PNat 3]) w)))
        (\<lambda>w. demonstrateErrorMetrics R backend (say (''heading'', [PNat 4]) w)))
        (\<lambda>w. demonstrateGlobalMetrics R (say (''heading'', [PNat 5]) w)) (say (''heading'', [PNat 0]) w))"

end
