(* ===== verification/ExampleRuns.thy ===== *)
theory ExampleRuns
  imports Example
begin

text \<open>
  Runs of the program of \<open>Example\<close>, end to end: what the metrics wrapper does to the process around any
  call, what then happens to a local lock behind it, and from there two of the demonstrations line by line and the
  concurrent one under every schedule.
\<close>

section \<open>A wrapped local lock in the process\<close>

text \<open>Nobody but the program touches the managers, the metrics and the output.\<close>

definition own :: "('c, 's, 'f) process \<Rightarrow> globals \<times> 'f DefaultMetrics \<times> 'f line list" where
  "own w = (w_globals w, pr_metrics w, pr_out w)"

definition undisturbed :: "('c, 's, 'f) runtime \<Rightarrow> bool" where
  "undisturbed R \<longleftrightarrow> env_frame (rn_env R) own \<and> (\<forall>w. own (snd (rn_NumGoroutine R w)) = own w)"

definition wrapped_handle :: "('c, 's, 'f) runtime \<Rightarrow> handle \<Rightarrow> ('f, ('c, 's, 'f) process) SimpleWrapper" where
  "wrapped_handle R h = \<lparr>mw_lock = localSimpleLock_iface (ev_rt (rn_env R)) h, mw_lockType = ''SimpleLock'',
     mw_backend = ''Local'', mw_metrics = Some process_metrics\<rparr>"

lemma own_same: "own v = own w \<longleftrightarrow> w_globals v = w_globals w \<and> pr_metrics v = pr_metrics w \<and> pr_out v = pr_out w"
  by (simp add: own_def)

lemma own_frames:
  assumes "undisturbed R"
  shows "own (snd (rt_now (ev_rt (rn_env R)) w)) = own w" "own (snd (rt_unique (ev_rt (rn_env R)) w)) = own w"
    "own (rt_sleep (ev_rt (rn_env R)) d w) = own w" "own (snd (ev_pick (rn_env R) w)) = own w"
    "own (snd (rn_NumGoroutine R w)) = own w"
  using assms env_frameD(1,2) [of "rn_env R" own] rt_frameD [of "ev_rt (rn_env R)" own]
  by (simp_all add: undisturbed_def)

lemma own_parts:
  assumes "undisturbed R"
  shows "env_frame (rn_env R) w_globals" "rt_frame (ev_rt (rn_env R)) w_globals"
    "rt_frame (ev_rt (rn_env R)) pr_metrics" "rt_frame (ev_rt (rn_env R)) pr_out"
  using assms by (auto simp: undisturbed_def env_frame_def rt_frame_def own_same)

lemma wrapped_handle_lock [simp]:
  "mw_lock (wrapped_handle R h) = localSimpleLock_iface (ev_rt (rn_env R)) h"
  "mw_lockType (wrapped_handle R h) = ''SimpleLock''" "mw_backend (wrapped_handle R h) = ''Local''"
  "mw_metrics (wrapped_handle R h) = Some process_metrics"
  by (simp_all add: wrapped_handle_def)

lemma put_simple_parts [simp]:
  "pr_metrics (put_simple_mgr m w) = pr_metrics w" "pr_out (put_simple_mgr m w) = pr_out w"
  "managers (w_globals (put_simple_mgr m w)) = map_option (\<lambda>(_, r, f). (m, r, f)) (managers (w_globals w))"
  by (simp_all add: put_simple_mgr_def)

lemma simple_mgr_put [simp]: "managers (w_globals w) \<noteq> None \<Longrightarrow> simple_mgr (put_simple_mgr m w) = m"
  by (auto simp: simple_mgr_def put_simple_mgr_def)

lemma Local_TryLock_no_error: "snd (fst (Local_TryLock h opts uv t1 t2 m)) = None"
  by (simp add: Local_TryLock_def on_lock_result SL_TryLock_def Let_def)

text \<open>
  What the two shapes of the wrapper's methods do, whatever the lock inside: the call, and then what is recorded.
  \<open>recorded w x ms w'\<close>: the world \<open>w'\<close> is the one \<open>x\<close> the call left, up to what the program does not see, with \<open>ms\<close>
  recorded.
\<close>

definition recorded :: "'f metric_call list \<Rightarrow> ('c, 's, 'f) process \<Rightarrow> ('c, 's, 'f) process \<Rightarrow> bool" where
  "recorded ms x w' \<longleftrightarrow> w_globals w' = w_globals x \<and> pr_out w' = pr_out x \<and> pr_metrics w' = record_all ms (pr_metrics x)"

lemma recorded_more:
  assumes "recorded ms x v" and "own v' = own v"
  shows "recorded ms x v'" "recorded (ms @ [c]) x (v'\<lparr>pr_metrics := default_metrics c (pr_metrics v')\<rparr>)"
  using assms by (simp_all add: recorded_def own_same record_all_snoc)

lemma recorded_Nil: "own v = own x \<Longrightarrow> recorded [] x v"
  by (simp add: recorded_def own_same record_all_def)

definition error_calls :: "('l, 'f, 'w) MetricsWrapper \<Rightarrow> err option \<Rightarrow> 'f metric_call list" where
  "error_calls W e = (case e of None \<Rightarrow> [] | Some x \<Rightarrow> [error_call (mw_lockType W) (mw_backend W) x])"

lemma emit_process:
  "mw_metrics W = Some process_metrics \<Longrightarrow> emit W c w = Some (w\<lparr>pr_metrics := default_metrics c (pr_metrics w)\<rparr>)"
  by (simp add: emit_def process_metrics_def)

lemma recordError_process:
  "mw_metrics W = Some process_metrics \<Longrightarrow> recordError W e w =
     Some (w\<lparr>pr_metrics := default_metrics (error_call (mw_lockType W) (mw_backend W) e) (pr_metrics w)\<rparr>)"
  by (cases e) (simp_all add: recordError_def error_call_def emit_process)

lemma timed_try_process:
  assumes "undisturbed R" and "mw_metrics W = Some process_metrics"
    and "inner (snd (rt_now (ev_rt (rn_env R)) w)) = ((b, e), x)"
  obtains d k w' where "timed_try (rn_metrics_env R) W mk update inner w = Some ((b, e), w')"
    "recorded (mk (b \<and> e = None) d # error_calls W e @ (if update \<and> b \<and> e = None then [RecordGoroutineCount k] else [])) x w'"
proof -
  let ?rt = "ev_rt (rn_env R)"
  define y where "y = snd (rt_now ?rt x)"
  let ?c = "mk (b \<and> e = None) (time_sub (fst (rt_now ?rt x)) (fst (rt_now ?rt w)))"
  define y1 where "y1 = y\<lparr>pr_metrics := default_metrics ?c (pr_metrics y)\<rparr>"
  define y2 where "y2 = (case e of None \<Rightarrow> y1
    | Some z \<Rightarrow> y1\<lparr>pr_metrics := default_metrics (error_call (mw_lockType W) (mw_backend W) z) (pr_metrics y1)\<rparr>)"
  let ?k = "fst (rn_NumGoroutine R y2)" and ?z = "snd (rn_NumGoroutine R y2)"
  define w' where "w' = (if update \<and> b \<and> e = None
    then ?z\<lparr>pr_metrics := default_metrics (RecordGoroutineCount ?k) (pr_metrics ?z)\<rparr> else y2)"
  have "timed_try (rn_metrics_env R) W mk update inner w = Some ((b, e), w')"
    using assms(3) by (cases e) (simp_all add: timed_try_def rn_metrics_env_def case_prod_beta y_def [symmetric] y1_def y2_def
        updateConcurrentLocks_def emit_process [OF assms(2)] recordError_process [OF assms(2)] w'_def)
  moreover have y: "own y = own x" using own_frames [OF assms(1)] by (simp add: y_def)
  have y1: "recorded [?c] x y1"
    unfolding y1_def using recorded_more(2) [OF recorded_Nil [OF refl] y] by simp
  have y2: "recorded (?c # error_calls W e) x y2"
    using y1 recorded_more(2) [OF y1 refl] by (cases e) (simp_all add: y2_def error_calls_def)
  have "own ?z = own y2" by (rule own_frames [OF assms(1)])
  from recorded_more [OF y2 this] y2
  have "recorded (?c # error_calls W e @ (if update \<and> b \<and> e = None then [RecordGoroutineCount ?k] else [])) x w'"
    by (cases e; cases b) (simp_all add: w'_def del: default_metrics.simps)
  ultimately show thesis using that by blast
qed

lemma timed_err_process:
  assumes "undisturbed R" and "mw_metrics W = Some process_metrics"
    and "inner (snd (rt_now (ev_rt (rn_env R)) w)) = Some (e, x)"
  obtains d k w' where "timed_err (rn_metrics_env R) W mk (\<lambda>d. []) delta inner w = Some (e, w')"
    "recorded (mk (e = None) d # error_calls W e @ (if e = None then [RecordGoroutineCount k] else [])) x w'"
proof -
  let ?rt = "ev_rt (rn_env R)"
  define y where "y = snd (rt_now ?rt x)"
  let ?c = "mk (e = None) (time_sub (fst (rt_now ?rt x)) (fst (rt_now ?rt w)))"
  define y1 where "y1 = y\<lparr>pr_metrics := default_metrics ?c (pr_metrics y)\<rparr>"
  let ?k = "fst (rn_NumGoroutine R y1)" and ?z = "snd (rn_NumGoroutine R y1)"
  define w' where "w' = (case e of
      None \<Rightarrow> ?z\<lparr>pr_metrics := default_metrics (RecordGoroutineCount ?k) (pr_metrics ?z)\<rparr>
    | Some z \<Rightarrow> y1\<lparr>pr_metrics := default_metrics (error_call (mw_lockType W) (mw_backend W) z) (pr_metrics y1)\<rparr>)"
  have "timed_err (rn_metrics_env R) W mk (\<lambda>d. []) delta inner w = Some (e, w')"
    using assms(3) by (cases e) (simp_all add: timed_err_def rn_metrics_env_def case_prod_beta y_def [symmetric] y1_def
        updateConcurrentLocks_def emit_process [OF assms(2)] recordError_process [OF assms(2)] w'_def)
  moreover have y: "own y = own x" using own_frames [OF assms(1)] by (simp add: y_def)
  have y1: "recorded [?c] x y1"
    unfolding y1_def using recorded_more(2) [OF recorded_Nil [OF refl] y] by simp
  have "own ?z = own y1" by (rule own_frames [OF assms(1)])
  from recorded_more(2) [OF y1 this] recorded_more(2) [OF y1 refl]
  have "recorded (?c # error_calls W e @ (if e = None then [RecordGoroutineCount ?k] else [])) x w'"
    by (cases e) (simp_all add: w'_def error_calls_def del: default_metrics.simps)
  ultimately show thesis using that by blast
qed

lemma error_calls_handle:
  "error_calls (wrapped_handle R h) e = (case e of None \<Rightarrow> [] | Some x \<Rightarrow> [error_call ''SimpleLock'' ''Local'' x])"
  by (simp add: error_calls_def split: option.split)

text \<open>The methods of a local simple lock through its wrapper, on the process's manager.\<close>

lemma recorded_mgr:
  assumes "recorded ms (put_simple_mgr m v) w'" and "own v = own w" and "managers (w_globals w) \<noteq> None"
  shows "simple_mgr w' = m" "managers (w_globals w') \<noteq> None" "pr_out w' = pr_out w" "pr_metrics w' = record_all ms (pr_metrics w)"
  using assms by (auto simp: recorded_def own_same simple_mgr_def put_simple_mgr_def)

lemma own_mgr: "own v = own w \<Longrightarrow> simple_mgr v = simple_mgr w"
  by (simp add: own_same simple_mgr_def)

lemma wrapped_TryLock:
  assumes "undisturbed R" and "managers (w_globals w) \<noteq> None"
  obtains uv v1 v2 d k w' b where
    "MW_TryLock (rn_metrics_env R) (wrapped_handle R h) opts w = Some ((b, None), w')"
    "((b, None), simple_mgr w') = Local_TryLock h opts uv (fst (rt_now (ev_rt (rn_env R)) v1))
       (fst (rt_now (ev_rt (rn_env R)) v2)) (simple_mgr w)"
    "managers (w_globals w') \<noteq> None" "pr_out w' = pr_out w"
    "pr_metrics w' = record_all (RecordLockTryAcquire ''SimpleLock'' ''Local'' b d # (if b then [RecordGoroutineCount k] else []))
       (pr_metrics w)"
proof -
  let ?rt = "ev_rt (rn_env R)"
  define a where "a = snd (rt_now ?rt w)"
  define v1 where "v1 = snd (rt_unique ?rt a)"
  define v2 where "v2 = snd (rt_now ?rt v1)"
  let ?r = "Local_TryLock h opts (fst (rt_unique ?rt a)) (fst (rt_now ?rt v1)) (fst (rt_now ?rt v2)) (simple_mgr w)"
  have o: "own (snd (rt_now ?rt v2)) = own w"
    using own_frames [OF assms(1)] by (simp add: a_def v1_def v2_def)
  obtain b where b: "fst ?r = (b, None)"
    using Local_TryLock_no_error by (metis prod.collapse)
  let ?x = "put_simple_mgr (snd ?r) (snd (rt_now ?rt v2))"
  have "lk_TryLock (mw_lock (wrapped_handle R h)) opts (snd (rt_now ?rt w)) = ((b, None), ?x)"
    using b own_mgr [OF o] by (simp add: localSimpleLock_iface_def fresh_def timed2_def timed_def case_prod_beta
        a_def [symmetric] v1_def [symmetric] v2_def [symmetric])
  then obtain d k w' where run: "MW_TryLock (rn_metrics_env R) (wrapped_handle R h) opts w = Some ((b, None), w')"
    "recorded (RecordLockTryAcquire ''SimpleLock'' ''Local'' (b \<and> None = (None :: err option)) d #
       error_calls (wrapped_handle R h) None @ (if True \<and> b \<and> None = (None :: err option) then [RecordGoroutineCount k] else [])) ?x w'"
    unfolding MW_TryLock_def wrapped_handle_lock(2,3)
    by (rule timed_try_process [where inner = "lk_TryLock (mw_lock (wrapped_handle R h)) opts", OF assms(1) wrapped_handle_lock(4)])
  note m = recorded_mgr [OF run(2) o assms(2)]
  show thesis by (rule that [OF run(1) _ m(2,3), where uv = "fst (rt_unique ?rt a)" and ?v1.0 = v1 and ?v2.0 = v2]) (use m(1,4) b in \<open>simp_all add: error_calls_handle prod_eq_iff\<close>)
qed

lemma wrapped_Unlock:
  assumes "undisturbed R" and "managers (w_globals w) \<noteq> None"
  obtains v d k w' e where
    "MW_Unlock (rn_metrics_env R) (wrapped_handle R h) w = Some (e, w')"
    "(e, simple_mgr w') = Local_Unlock h (fst (rt_now (ev_rt (rn_env R)) v)) (simple_mgr w)"
    "managers (w_globals w') \<noteq> None" "pr_out w' = pr_out w"
    "pr_metrics w' = record_all [RecordLockRelease ''SimpleLock'' ''Local'' (e = None) d,
         case e of None \<Rightarrow> RecordGoroutineCount k | Some x \<Rightarrow> error_call ''SimpleLock'' ''Local'' x] (pr_metrics w)"
proof -
  let ?rt = "ev_rt (rn_env R)"
  define a where "a = snd (rt_now ?rt w)"
  let ?r = "Local_Unlock h (fst (rt_now ?rt a)) (simple_mgr w)"
  have o: "own (snd (rt_now ?rt a)) = own w" using own_frames [OF assms(1)] by (simp add: a_def)
  define e where "e = fst ?r"
  let ?x = "put_simple_mgr (snd ?r) (snd (rt_now ?rt a))"
  have "Some (lk_Unlock (mw_lock (wrapped_handle R h)) a) = Some (e, ?x)"
    using own_mgr [OF o] by (simp add: localSimpleLock_iface_def timed_def case_prod_beta e_def)
  then obtain d k w' where run: "MW_Unlock (rn_metrics_env R) (wrapped_handle R h) w = Some (e, w')"
    "recorded (RecordLockRelease ''SimpleLock'' ''Local'' (e = None) d # error_calls (wrapped_handle R h) e @
        (if e = None then [RecordGoroutineCount k] else [])) ?x w'"
    unfolding MW_Unlock_def wrapped_handle_lock(2,3) a_def
    by (rule timed_err_process [where inner = "\<lambda>s. Some (lk_Unlock (mw_lock (wrapped_handle R h)) s)", OF assms(1) wrapped_handle_lock(4)])
  then have "recorded [RecordLockRelease ''SimpleLock'' ''Local'' (e = None) d,
        case e of None \<Rightarrow> RecordGoroutineCount k | Some x \<Rightarrow> error_call ''SimpleLock'' ''Local'' x] ?x w'"
    by (cases e) (simp_all add: error_calls_handle)
  note m = recorded_mgr [OF this o assms(2)]
  show thesis by (rule that [OF run(1) _ m(2-4), where v = a]) (use m(1) e_def in \<open>simp add: prod_eq_iff\<close>)
qed

lemma wrapped_Extend:
  assumes "undisturbed R" and "managers (w_globals w) \<noteq> None"
  obtains v d w' b e where
    "MW_Extend (rn_metrics_env R) (wrapped_handle R h) ttl w = Some ((b, e), w')"
    "((b, e), simple_mgr w') = Local_Extend h ttl (fst (rt_now (ev_rt (rn_env R)) v)) (simple_mgr w)"
    "managers (w_globals w') \<noteq> None" "pr_out w' = pr_out w"
    "pr_metrics w' = record_all (RecordLockExtend ''SimpleLock'' ''Local'' (b \<and> e = None) d #
         (case e of None \<Rightarrow> [] | Some x \<Rightarrow> [error_call ''SimpleLock'' ''Local'' x])) (pr_metrics w)"
proof -
  let ?rt = "ev_rt (rn_env R)"
  define a where "a = snd (rt_now ?rt w)"
  let ?r = "Local_Extend h ttl (fst (rt_now ?rt a)) (simple_mgr w)"
  obtain b e where r: "fst ?r = (b, e)" by (cases "fst ?r")
  have o: "own (snd (rt_now ?rt a)) = own w" using own_frames [OF assms(1)] by (simp add: a_def)
  have "lk_Extend (mw_lock (wrapped_handle R h)) ttl a = ((b, e), put_simple_mgr (snd ?r) (snd (rt_now ?rt a)))"
    using r own_mgr [OF o] by (simp add: localSimpleLock_iface_def timed_def case_prod_beta)
  then obtain d k w' where run: "MW_Extend (rn_metrics_env R) (wrapped_handle R h) ttl w = Some ((b, e), w')"
    "recorded (RecordLockExtend ''SimpleLock'' ''Local'' (b \<and> e = None) d # error_calls (wrapped_handle R h) e @
       (if False \<and> b \<and> e = None then [RecordGoroutineCount k] else [])) (put_simple_mgr (snd ?r) (snd (rt_now ?rt a))) w'"
    unfolding MW_Extend_def wrapped_handle_lock(2,3) a_def
    by (rule timed_try_process [where inner = "lk_Extend (mw_lock (wrapped_handle R h)) ttl", OF assms(1) wrapped_handle_lock(4)])
  note m = recorded_mgr [OF run(2) o assms(2)]
  show thesis by (rule that [OF run(1) _ m(2,3), where v = a]) (use m(1,4) r in \<open>simp_all add: error_calls_handle prod_eq_iff\<close>)
qed

lemma pow2_eight: "\<exists>r. pow2_loop (ucast (8 :: i64)) 1 = Some r"
  using pow2_loop_spec [of "ucast (8 :: i64)"] by auto

lemma wrapped_create:
  assumes "undisturbed R"
  obtains h m pick w' where
    "NewSimpleLockWithMetrics (rn_init R) (rn_env R) process_globals key (NewLocalBackend 8) w = Some (Inr (wrapped_handle R h), w')"
    "process_ok w \<longrightarrow> reachable m" "newLocalLock () pick key m = (h, simple_mgr w')"
    "managers (w_globals w) \<noteq> None \<longrightarrow> m = simple_mgr w" "managers (w_globals w) = None \<longrightarrow> NewShardedLockManager 8 = Some m"
    "managers (w_globals w') \<noteq> None" "pr_out w' = pr_out w" "pr_metrics w' = pr_metrics w"
proof -
  let ?E = "rn_env R"
  obtain pick v where v: "ev_pick ?E w = (pick, v)" by (cases "ev_pick ?E w")
  then have own: "own v = own w" using own_frames(4) [OF assms, of w] by simp
  have b: "NewLocalBackend 8 = LocalBackend 8" by (simp add: NewLocalBackend_def)
  have "\<exists>gi. initGlobalManagers 8 (w_globals v) = Some gi"
    using pow2_eight by (cases "managers (w_globals v)") (auto simp: initGlobalManagers_def NewShardedLockManager_def Let_def)
  then obtain gi where gi: "initGlobalManagers 8 (w_globals v) = Some gi" by blast
  have g: "w_globals v = w_globals w" "pr_out v = pr_out w" "pr_metrics v = pr_metrics w" using own by (simp_all add: own_same)
  obtain s r f where ms: "managers gi = Some (s, r, f)"
    "managers (w_globals w) \<noteq> None \<longrightarrow> s = simple_mgr w" "managers (w_globals w) = None \<longrightarrow> NewShardedLockManager 8 = Some s"
    using gi by (cases "managers (w_globals v)") (auto simp: initGlobalManagers_def g simple_mgr_def split: option.splits)
  obtain h m' where h: "newLocalLock () pick key s = (h, m')" by (cases "newLocalLock () pick key s")
  let ?w = "v\<lparr>w_globals := gi\<lparr>managers := Some (m', r, f)\<rparr>\<rparr>"
  have "NewSimpleLockWithMetrics (rn_init R) ?E process_globals key (NewLocalBackend 8) w = Some (Inr (wrapped_handle R h), ?w)"
    by (simp add: NewSimpleLockWithMetrics_def NewSimpleLock_def with_factory_def b NewLocalLockFactory_def v newLocalSimpleLock_def
        GetGlobalSimpleLockManager_def gi ms(1) h on_success_def NewMetricsWrapper_def GetGlobalMetrics_def metrics_init_def
        wrapped_handle_def)
  moreover have "process_ok w \<longrightarrow> reachable s" using ms(2,3) reachable_new by (auto simp: process_ok_def)
  moreover have "simple_mgr ?w = m'" by (simp add: simple_mgr_def)
  ultimately show thesis using that [of h ?w s pick] h ms(2,3) g by simp
qed

section \<open>The life of a handle\<close>

lemma fresh_handle:
  assumes "reachable m" and "lookup m key = None" and "newLocalLock () pick key m = (h, m1)"
  shows "wf_mgr m1" "lookup m1 key = Some (h_lock h)" "h_lock h < length (heap m1)"
    "unlocked (heap m1 ! h_lock h)" "refCount (heap m1 ! h_lock h) = 1"
proof -
  note wf = reachable_wf [OF assms(1)]
  have g: "GetLock () pick key m = (h_lock h, m1)" using assms(3) by (auto simp: newLocalLock_def split: prod.splits)
  show wf1: "wf_mgr m1" using wf_mgr_GetLock [OF wf, of "()" pick key] g by simp
  show l: "lookup m1 key = Some (h_lock h)" using lookup_GetLock [OF wf, of "()" pick key] g by simp
  show p: "h_lock h < length (heap m1)" by (rule lookup_object(1) [OF wf1 l])
  from GetLock_unregistered [OF wf assms(2), of "()" pick] g obtain m0 where
    "m1 = register (getShard m key) key (h_lock h) m0" by (metis fst_conv snd_conv)
  with p show "unlocked (heap m1 ! h_lock h)" "refCount (heap m1 ! h_lock h) = 1"
    by (simp_all add: register_def heap_defs)
qed

lemma handle_life:
  assumes "reachable m" and "lookup m key = None" and "newLocalLock () pick key m = (h, m1)"
    and "Local_TryLock h opts uv t1 t2 m1 = (r1, m2)"
    and "Local_TryLock h opts' uv' t1' t2' m2 = (r2, m3)" and "t1' \<le> t2 + sint (LockTTL (ApplyLockOptions opts uv))"
    and "Local_Unlock h t3 m3 = (e3, m4)" and "Local_Unlock h t4 m4 = (e4, m5)"
  shows "r1 = (True, None)" "r2 = (False, None)" "e3 = None" "e4 = Some (NewLockNotFoundError '''' t4)"
    "lookup m5 key = None"
proof -
  note f = fresh_handle [OF assms(1-3)]
  let ?l = "heap m1 ! h_lock h"
  have 1: "r1 = (True, None)" "m2 = upd_lock (h_lock h) (\<lambda>_. snd (SL_TryLock opts uv t1 t2 ?l)) m1"
    using assms(4) f(4) by (auto simp: Local_TryLock_def on_lock_def SL_TryLock_def Let_def)
  have o2: "heap m2 ! h_lock h = snd (SL_TryLock opts uv t1 t2 ?l)" using f(3) by (simp add: 1(2) upd_lock_def)
  have l2: "\<not> unlocked (heap m2 ! h_lock h)" "expireAt (heap m2 ! h_lock h) = time_add t2 (LockTTL (ApplyLockOptions opts uv))"
    "refCount (heap m2 ! h_lock h) = 1" "lookup m2 key = Some (h_lock h)"
    using f(2,4,5) by (simp_all add: o2 SL_TryLock_def Let_def, simp add: 1(2))
  have wf2: "wf_mgr m2"
    using wf_mgr_on_lock [OF f(1) object_methods_keep_identity(1)] assms(4) by (metis Local_TryLock_def snd_conv)
  have 2: "r2 = (False, None)" "m3 = m2"
    using assms(5,6) l2(1,2)
    by (auto simp: Local_TryLock_def on_lock_def SL_TryLock_def Let_def time_after_def time_add_def upd_lock_def list_update_id)
  note u = Local_Unlock_last [OF wf2 l2(4,3,1), of t3]
  define m0 where "m0 = snd (on_lock (h_lock h) (SL_Unlock t3) m2)"
  note u = u [folded m0_def]
  have 3: "e3 = None" "m4 = ReleaseLock (h_lock h) m0" using u(1) assms(7) 2(2) by simp_all
  have look: "lookup m0 key = Some (h_lock h)" using u(3) l2(4) by simp
  note last = ReleaseLock_last [OF u(2) look u(4)]
  have key: "sl_key (heap m4 ! h_lock h) = ''''"
    using u(6) unfolding 3(2) last(1) by (simp add: unregister_def decRef_def heap_defs reset_object_def)
  have 4: "e4 = Some (NewLockNotFoundError '''' t4)" "m5 = m4"
    using assms(8) last(3) key
    by (auto simp: Local_Unlock_def on_lock_def SL_Unlock_def 3(2) upd_lock_def list_update_id)
  show "r1 = (True, None)" "r2 = (False, None)" "e3 = None" "e4 = Some (NewLockNotFoundError '''' t4)"
    "lookup m5 key = None"
    using 1(1) 2(1) 3 4 last(2) by simp_all
qed

lemma handle_extended:
  assumes "reachable m" and "lookup m key = None" and "newLocalLock () pick key m = (h, m1)"
    and "Local_TryLock h opts uv t1 t2 m1 = (r1, m2)" and "Local_Extend h ttl t3 m2 = (r2, m3)"
    and "Local_Unlock h t4 m3 = (e4, m4)"
  shows "r1 = (True, None)" "r2 = (True, None)" "e4 = None"
proof -
  note f = fresh_handle [OF assms(1-3)]
  have 1: "r1 = (True, None)" "\<not> unlocked (heap m2 ! h_lock h)" "h_lock h < length (heap m2)"
    using assms(4) f(3,4) by (auto simp: Local_TryLock_def on_lock_def SL_TryLock_def Let_def upd_lock_def)
  then have 2: "r2 = (True, None)" "\<not> unlocked (heap m3 ! h_lock h)"
    using assms(5) by (auto simp: Local_Extend_def on_lock_def SL_Extend_def upd_lock_def)
  then have "e4 = None" using assms(6) by (auto simp: Local_Unlock_def on_lock_def SL_Unlock_def)
  with 1 2 show "r1 = (True, None)" "r2 = (True, None)" "e4 = None" by blast+
qed

lemma lookup_new_manager: "NewShardedLockManager n = Some m \<Longrightarrow> lookup m key = None"
  using getShard_less [OF wf_mgr_shape [OF wf_mgr_new], of n m key]
  by (auto dest!: NewShardedLockManager_form simp: lookup_def)

definition unused_key :: "string \<Rightarrow> ('c, 's, 'z) world_scheme \<Rightarrow> bool" where
  "unused_key key w \<longleftrightarrow> managers (w_globals w) = None \<or> lookup (simple_mgr w) key = None"

lemma created_unused:
  assumes "unused_key key w" and "managers (w_globals w) \<noteq> None \<longrightarrow> m = simple_mgr w"
    and "managers (w_globals w) = None \<longrightarrow> NewShardedLockManager n = Some m"
  shows "lookup m key = None"
  using assms lookup_new_manager by (auto simp: unused_key_def)

lemma say_simps [simp]:
  "w_globals (say x w) = w_globals w" "pr_metrics (say x w) = pr_metrics w" "pr_out (say x w) = pr_out w @ [x]"
  "simple_mgr (say x w) = simple_mgr w"
  by (simp_all add: say_def simple_mgr_def)

section \<open>The goroutines, one step at a time\<close>

text \<open>The attempts a goroutine has made, whether it holds its lock, and how many steps it has left.\<close>

fun attempts :: "'l worker \<Rightarrow> nat" where
  "attempts Starting = 0" | "attempts (Attempting l j) = j" | "attempts (Sleeping l j) = Suc j"
| "attempts (Releasing l j) = Suc j" | "attempts Finished = operations"

fun holding :: "'l worker \<Rightarrow> nat" where
  "holding (Sleeping l j) = 1" | "holding (Releasing l j) = 1" | "holding x = 0"

fun steps_left :: "'l worker \<Rightarrow> nat" where
  "steps_left Starting = 3 * operations + 2" | "steps_left (Attempting l j) = 3 * (operations - j) + 1"
| "steps_left (Sleeping l j) = 3 * (operations - j)" | "steps_left (Releasing l j) = 3 * (operations - j) - 1"
| "steps_left Finished = 0"

fun worker_ok :: "('c, 's, 'f) runtime \<Rightarrow> bool \<Rightarrow> ('c, 's, 'f) demo_worker \<Rightarrow> bool" where
  "worker_ok R ready Starting = True"
| "worker_ok R ready (Attempting l j) = (ready \<and> j \<le> operations \<and> (\<exists>h. l = wrapped_handle R h))"
| "worker_ok R ready (Sleeping l j) = (ready \<and> j < operations \<and> (\<exists>h. l = wrapped_handle R h))"
| "worker_ok R ready (Releasing l j) = (ready \<and> j < operations \<and> (\<exists>h. l = wrapped_handle R h))"
| "worker_ok R ready Finished = ready"

definition ready :: "('c, 's, 'f) process \<Rightarrow> bool" where "ready w \<longleftrightarrow> managers (w_globals w) \<noteq> None"

definition tries :: "('c, 's, 'f) process \<Rightarrow> i64" where "tries w = oc_count (dm_tryAcquire (pr_metrics w))"
definition grants :: "('c, 's, 'f) process \<Rightarrow> i64" where "grants w = oc_success (dm_tryAcquire (pr_metrics w))"
definition refusals :: "('c, 's, 'f) process \<Rightarrow> i64" where "refusals w = oc_failed (dm_tryAcquire (pr_metrics w))"
definition releases :: "('c, 's, 'f) process \<Rightarrow> i64" where "releases w = oc_count (dm_release (pr_metrics w))"

lemmas count_defs = tries_def grants_def refusals_def releases_def

lemma counts_TryAcquire:
  assumes "pr_metrics w' = record_all (RecordLockTryAcquire lt be b d # (if b then [RecordGoroutineCount k] else [])) (pr_metrics w)"
  shows "tries w' = tries w + 1" "grants w' = grants w + (if b then 1 else 0)"
    "refusals w' = refusals w + (if b then 0 else 1)" "releases w' = releases w"
proof -
  have "dm_tryAcquire (pr_metrics w') = oc_record b d (dm_tryAcquire (pr_metrics w))"
    "dm_release (pr_metrics w') = dm_release (pr_metrics w)"
    unfolding assms by (cases b; simp add: record_all_def dm_defs)+
  then show "tries w' = tries w + 1" "grants w' = grants w + (if b then 1 else 0)"
    "refusals w' = refusals w + (if b then 0 else 1)" "releases w' = releases w"
    by (simp_all add: count_defs oc_record_def Let_def)
qed

lemma counts_error_call:
  "dm_tryAcquire (default_metrics (error_call lt be x) m) = dm_tryAcquire m"
  "dm_release (default_metrics (error_call lt be x) m) = dm_release m"
  by (cases x; simp add: error_call_def dm_defs)+

lemma counts_Release:
  assumes "pr_metrics w' = record_all [RecordLockRelease lt be ok d,
      case e of None \<Rightarrow> RecordGoroutineCount k | Some x \<Rightarrow> error_call lt be x] (pr_metrics w)"
  shows "tries w' = tries w" "grants w' = grants w" "refusals w' = refusals w" "releases w' = releases w + 1"
proof -
  have e: "dm_tryAcquire (pr_metrics w') = dm_tryAcquire (pr_metrics w)"
    "dm_release (pr_metrics w') = oc_record ok d (dm_release (pr_metrics w))"
    unfolding assms by (cases e; simp add: record_all_def counts_error_call; simp add: dm_defs)+
  then show "tries w' = tries w" "grants w' = grants w" "refusals w' = refusals w" "releases w' = releases w + 1"
    by (simp_all add: count_defs oc_record_def Let_def)
qed

lemma counts_own: "own v = own w \<Longrightarrow> tries v = tries w \<and> grants v = grants w \<and> refusals v = refusals w \<and> releases v = releases w \<and>
    pr_out v = pr_out w \<and> ready v = ready w"
  by (simp add: count_defs own_same ready_def)

definition moved :: "('c, 's, 'f) demo_worker \<Rightarrow> ('c, 's, 'f) process \<Rightarrow> ('c, 's, 'f) demo_worker \<Rightarrow> ('c, 's, 'f) process \<Rightarrow> bool" where
  "moved x w x' w' \<longleftrightarrow> tries w' - of_nat (attempts x') = tries w - of_nat (attempts x) \<and>
     grants w' + refusals w' - tries w' = grants w + refusals w - tries w \<and>
     releases w' + of_nat (holding x') - grants w' = releases w + of_nat (holding x) - grants w \<and>
     pr_out w' = pr_out w \<and> (ready w \<longrightarrow> ready w') \<and> (x \<noteq> Finished \<longrightarrow> steps_left x' < steps_left x)"

lemma worker_moves:
  assumes "undisturbed R" and "worker_ok R (ready w) x"
  obtains x' w' where "worker_step R (NewLocalBackend 8) i x w = Some (x', w')" "worker_ok R (ready w') x'" "moved x w x' w'"
proof (cases x)
  case Starting
  obtain h m pick w' where
    "NewSimpleLockWithMetrics (rn_init R) (rn_env R) process_globals (worker_key i) (NewLocalBackend 8) w = Some (Inr (wrapped_handle R h), w')"
    "managers (w_globals w') \<noteq> None" "pr_out w' = pr_out w" "pr_metrics w' = pr_metrics w"
    by (rule wrapped_create [OF assms(1)])
  then show thesis
    by (intro that [of "Attempting (wrapped_handle R h) 0" w']) (auto simp: Starting moved_def count_defs ready_def)
next
  case (Attempting l j)
  with assms(2) obtain h where l: "l = wrapped_handle R h" and w: "managers (w_globals w) \<noteq> None" and j: "j \<le> operations"
    by (auto simp: ready_def)
  show thesis
  proof (cases "j < operations")
    case True
    obtain uv v1 v2 d k w' b where
      t: "MW_TryLock (rn_metrics_env R) (wrapped_handle R h) [WithLockTTL (100 * Millisecond)] w = Some ((b, None), w')"
        "managers (w_globals w') \<noteq> None" "pr_out w' = pr_out w"
        "pr_metrics w' = record_all (RecordLockTryAcquire ''SimpleLock'' ''Local'' b d # (if b then [RecordGoroutineCount k] else []))
           (pr_metrics w)"
      by (rule wrapped_TryLock [OF assms(1) w, where h = h and opts = "[WithLockTTL (100 * Millisecond)]"])
    show thesis
      using True t(1-3) counts_TryAcquire [OF t(4)]
      by (intro that [of "if b then Sleeping l j else Attempting l (Suc j)" w'])
         (auto simp: Attempting l moved_def ready_def)
  next
    case False
    with j w show thesis by (intro that [of Finished w]) (auto simp: Attempting moved_def ready_def)
  qed
next
  case (Sleeping l j)
  have "own (rt_sleep (ev_rt (rn_env R)) Millisecond w) = own w" by (rule own_frames [OF assms(1)])
  from counts_own [OF this] assms(2) show thesis
    by (intro that [of "Releasing l j" "rt_sleep (ev_rt (rn_env R)) Millisecond w"]) (auto simp: Sleeping moved_def)
next
  case (Releasing l j)
  with assms(2) obtain h where l: "l = wrapped_handle R h" and w: "managers (w_globals w) \<noteq> None" and j: "j < operations"
    by (auto simp: ready_def)
  obtain v d k w' e where
    u: "MW_Unlock (rn_metrics_env R) (wrapped_handle R h) w = Some (e, w')" "managers (w_globals w') \<noteq> None" "pr_out w' = pr_out w"
      "pr_metrics w' = record_all [RecordLockRelease ''SimpleLock'' ''Local'' (e = None) d,
         case e of None \<Rightarrow> RecordGoroutineCount k | Some x \<Rightarrow> error_call ''SimpleLock'' ''Local'' x] (pr_metrics w)"
    by (rule wrapped_Unlock [OF assms(1) w, where h = h])
  show thesis
    using j u(1-3) counts_Release [OF u(4)]
    by (intro that [of "Attempting l (Suc j)" w']) (auto simp: Releasing l moved_def ready_def)
next
  case Finished
  then show thesis using assms(2) by (intro that [of Finished w]) (simp_all add: moved_def)
qed

text \<open>The sums over all goroutines.\<close>

definition sums :: "('l worker \<Rightarrow> nat) \<Rightarrow> 'l worker list \<Rightarrow> nat" where "sums f ws = sum_list (map f ws)"

lemma sums_update: "i < length ws \<Longrightarrow> sums f (ws[i := x]) + f (ws ! i) = sums f ws + f x"
proof (induction ws arbitrary: i)
  case (Cons y ws)
  then show ?case by (cases i) (auto simp: sums_def)
qed simp

lemma sums_word:
  "i < length ws \<Longrightarrow> (of_nat (sums f (ws[i := x])) :: i64) = of_nat (sums f ws) + of_nat (f x) - of_nat (f (ws ! i))"
  using sums_update [of i ws f x] by (metis add_diff_cancel of_nat_add)

lemma shift_down: "(a :: i64) - b' = c - b \<Longrightarrow> a - (s + b' - b) = c - s"
proof -
  assume e: "a - b' = c - b"
  have "a - (s + b' - b) = (a - b') - (s - b)" by (simp add: algebra_simps)
  also have "\<dots> = c - s" unfolding e by (simp add: algebra_simps)
  finally show ?thesis .
qed

lemma shift_up:
  assumes "(r' :: i64) + h' - g' = r + h - g"
  shows "r' + (s + h' - h) - g' = r + s - g"
proof -
  have "r' + (s + h' - h) - g' = (r' + h' - g') + (s - h)" by (simp add: algebra_simps)
  also have "\<dots> = r + s - g" unfolding assms by (simp add: algebra_simps)
  finally show ?thesis .
qed

definition progress :: "('c, 's, 'f) demo_worker list \<Rightarrow> ('c, 's, 'f) process \<Rightarrow> ('c, 's, 'f) demo_worker list \<Rightarrow> ('c, 's, 'f) process \<Rightarrow> bool" where
  "progress ws w ws' w' \<longleftrightarrow> length ws' = length ws \<and>
     tries w' - of_nat (sums attempts ws') = tries w - of_nat (sums attempts ws) \<and>
     grants w' + refusals w' - tries w' = grants w + refusals w - tries w \<and>
     releases w' + of_nat (sums holding ws') - grants w' = releases w + of_nat (sums holding ws) - grants w \<and>
     pr_out w' = pr_out w"

lemma progress_refl: "progress ws w ws w"
  by (simp add: progress_def)

lemma progress_trans: "progress ws w ws1 w1 \<Longrightarrow> progress ws1 w1 ws2 w2 \<Longrightarrow> progress ws w ws2 w2"
  by (simp add: progress_def)

lemma worker_ok_mono: "worker_ok R r x \<Longrightarrow> (r \<longrightarrow> r') \<Longrightarrow> worker_ok R r' x"
  by (cases x) auto

lemma one_move:
  assumes "undisturbed R" and "list_all (worker_ok R (ready w)) ws" and "i < length ws"
  obtains x w' where "worker_step R (NewLocalBackend 8) i (ws ! i) w = Some (x, w')"
    "list_all (worker_ok R (ready w')) (ws[i := x])" "progress ws w (ws[i := x]) w'"
    "ws ! i \<noteq> Finished \<longrightarrow> sums steps_left (ws[i := x]) < sums steps_left ws"
proof -
  have "worker_ok R (ready w) (ws ! i)" using assms(2,3) by (simp add: list_all_length)
  from worker_moves [OF assms(1) this] obtain x w' where
    s: "worker_step R (NewLocalBackend 8) i (ws ! i) w = Some (x, w')" "worker_ok R (ready w') x" "moved (ws ! i) w x w'" by metis
  have "list_all (worker_ok R (ready w')) (ws[i := x])"
  proof -
    have "worker_ok R (ready w') y" if "y \<in> set ws" for y
      using assms(2) s(3) that by (auto simp: list_all_iff moved_def intro: worker_ok_mono)
    with s(2) set_update_subset_insert [of ws i x] show ?thesis unfolding list_all_iff by blast
  qed
  moreover have "progress ws w (ws[i := x]) w'"
    unfolding progress_def sums_word [OF assms(3)] using s(3)
    by (intro conjI shift_down shift_up) (simp_all add: moved_def)
  moreover have "ws ! i \<noteq> Finished \<longrightarrow> sums steps_left (ws[i := x]) < sums steps_left ws"
    using s(3) sums_update [OF assms(3), of steps_left x] by (auto simp: moved_def)
  ultimately show thesis using that s(1) by blast
qed

lemma workers_progress:
  assumes "undisturbed R" and "list_all (worker_ok R (ready w)) ws"
  shows "\<exists>ws' w'. workers_run R (NewLocalBackend 8) sched (ws, w) = Some (ws', w') \<and>
    list_all (worker_ok R (ready w')) ws' \<and> progress ws w ws' w'"
  using assms(2)
proof (induction sched arbitrary: ws w)
  case (Cons i sched)
  show ?case
  proof (cases "i < length ws")
    case True
    obtain x w1 where m: "worker_step R (NewLocalBackend 8) i (ws ! i) w = Some (x, w1)"
      "list_all (worker_ok R (ready w1)) (ws[i := x])" "progress ws w (ws[i := x]) w1"
      by (rule one_move [OF assms(1) Cons.prems True])
    from Cons.IH [OF m(2)] m True show ?thesis by (auto intro: progress_trans)
  qed (use Cons in simp)
qed (simp add: progress_refl)

lemma all_finished_iff: "all_finished ws \<longleftrightarrow> (\<forall>x \<in> set ws. x = Finished)"
proof -
  have "(case x of Finished \<Rightarrow> True | _ \<Rightarrow> False) = (x = Finished)" for x :: "'a worker" by (cases x) simp_all
  then show ?thesis by (simp add: all_finished_def list_all_iff)
qed

lemma workers_finish:
  assumes "undisturbed R" and "list_all (worker_ok R (ready w)) ws"
  shows "\<exists>more ws' w'. workers_run R (NewLocalBackend 8) more (ws, w) = Some (ws', w') \<and> all_finished ws'"
  using assms(2)
proof (induction "sums steps_left ws" arbitrary: ws w rule: less_induct)
  case less
  show ?case
  proof (cases "all_finished ws")
    case True
    moreover have "workers_run R (NewLocalBackend 8) [] (ws, w) = Some (ws, w)" by simp
    ultimately show ?thesis by blast
  next
    case False
    then obtain i where i: "i < length ws" "ws ! i \<noteq> Finished"
      by (auto simp: all_finished_iff in_set_conv_nth)
    obtain x w1 where m: "worker_step R (NewLocalBackend 8) i (ws ! i) w = Some (x, w1)"
      "list_all (worker_ok R (ready w1)) (ws[i := x])" "sums steps_left (ws[i := x]) < sums steps_left ws"
      using one_move [OF assms(1) less.prems i(1)] i(2) by metis
    from less.hyps [OF m(3,2)] obtain more ws' w' where
      "workers_run R (NewLocalBackend 8) more (ws[i := x], w1) = Some (ws', w')" "all_finished ws'" by blast
    with m(1) i(1) have "workers_run R (NewLocalBackend 8) (i # more) (ws, w) = Some (ws', w')" by simp
    with \<open>all_finished ws'\<close> show ?thesis by blast
  qed
qed

lemma workers_run_append:
  "workers_run R backend (xs @ ys) (ws, w) = Option.bind (workers_run R backend xs (ws, w)) (workers_run R backend ys)"
proof (induction xs arbitrary: ws w)
  case (Cons i xs)
  then show ?case by (cases "worker_step R backend i (ws ! i) w") auto
qed simp

lemma finished_sums:
  assumes "all_finished ws"
  shows "sums attempts ws = length ws * operations" "sums holding ws = 0"
proof -
  have "ws = replicate (length ws) Finished" using assms by (simp add: all_finished_iff replicate_eqI)
  then show "sums attempts ws = length ws * operations" "sums holding ws = 0"
    by (metis (no_types) attempts.simps(5) holding.simps(5) map_replicate sum_list_replicate sums_def length_replicate mult_0_right of_nat_id)+
qed

lemma starting_sums: "sums attempts (replicate n Starting) = 0" "sums holding (replicate n Starting) = 0"
  by (simp_all add: sums_def)

lemma workers_start: "list_all (worker_ok R r) (replicate n Starting)"
  by (simp add: list_all_iff)

lemma workers_done:
  assumes "undisturbed R" and "workers_run R (NewLocalBackend 8) sched (replicate n Starting, w) = Some (ws, v)" and "all_finished ws"
  shows "tries v = tries w + of_nat (n * operations) \<and> grants v + refusals v - tries v = grants w + refusals w - tries w \<and>
    releases v - releases w = grants v - grants w \<and> pr_out v = pr_out w"
proof -
  obtain ws' v' where "workers_run R (NewLocalBackend 8) sched (replicate n Starting, w) = Some (ws', v')"
      "progress (replicate n Starting) w ws' v'" using workers_progress [OF assms(1) workers_start] by blast
  with assms(2) have "progress (replicate n Starting) w ws v" by simp
  with finished_sums [OF assms(3)] show ?thesis
    by (auto simp: progress_def starting_sums algebra_simps diff_eq_eq)
qed

lemma not_found_call: "error_call lt be (NewLockNotFoundError k ts) = RecordError lt be ErrCodeLockNotFound (Severity_String SeverityError)"
  by (simp add: error_call_def NewLockNotFoundError_def NewLockError_def)

text \<open>For the concrete instances: a runtime whose clock stands still, and a process at its start.\<close>

definition still_runtime :: "(unit, ref_state, int) runtime" where
  "still_runtime = \<lparr>rn_init = 0,
     rn_env = \<lparr>ev_rt = \<lparr>rt_now = (\<lambda>w. (7, w)), rt_ctx = (\<lambda>w. (None, w)), rt_sleep = (\<lambda>d w. w), rt_unique = (\<lambda>w. (''u'', w))\<rparr>,
       ev_pick = (\<lambda>w. (None, w)), ev_send = (\<lambda>w. (Delivered, w)), ev_exec = ref_exec, ev_fmt = ref_fmt\<rparr>,
     rn_NumGoroutine = (\<lambda>w. (1, w)),
     rn_float = \<lparr>f_of_int = id, f_add = (+), f_sub = (-), f_mul = (*), f_div = (div), f_pos = (\<lambda>x. 0 < x)\<rparr>\<rparr>"

definition new_process :: "(unit, ref_state, int) process" where
  "new_process = \<lparr>w_globals = \<lparr>managers = None\<rparr>, w_simple = [], w_rw = [], w_fair = [], w_watchdogs = [],
     w_server = (\<lambda>_. ref_empty), pr_metrics = NewDefaultMetrics, pr_out = []\<rparr>"

lemma still_undisturbed: "undisturbed still_runtime"
  by (simp add: undisturbed_def env_frame_def rt_frame_def still_runtime_def)

section \<open>Properties\<close>

text \<open>
  C29: the errors demonstration, end to end. Started in a process whose managers, metrics and output nobody else
  touches, with a key that is not in use and a clock whose readings stay within a second, the program acquires the
  lock through the metrics wrapper, is refused a second acquisition, releases the lock, and is told by the second
  release that there is no such lock - with an empty key, for the object has been recycled by then. It prints exactly
  that, then the error statistics; the counters have moved by two attempts (one refused), two releases (one
  failed) and one error with its code, and the key is free again.
\<close>
theorem errors_demo_end_to_end:
  fixes R :: "('c, 's, 'f) runtime"
  assumes "undisturbed R" and "process_ok w" and "unused_key ''demo:error'' w"
    and "\<And>v. T \<le> fst (rt_now (ev_rt (rn_env R)) v)" and "\<And>v. fst (rt_now (ev_rt (rn_env R)) v) \<le> T + 1000000000"
  shows "\<exists>v ts. demonstrateErrorMetrics R (NewLocalBackend 8) w = Returned (error_report R v) \<and>
    pr_out v = pr_out w @ [(''lock acquired'', []), (''second acquisition refused, as expected'', []),
      (''second release failed'', [PErr (NewLockNotFoundError '''' ts)])] \<and>
    oc_count (dm_tryAcquire (pr_metrics v)) = oc_count (dm_tryAcquire (pr_metrics w)) + 2 \<and>
    oc_failed (dm_tryAcquire (pr_metrics v)) = oc_failed (dm_tryAcquire (pr_metrics w)) + 1 \<and>
    oc_count (dm_release (pr_metrics v)) = oc_count (dm_release (pr_metrics w)) + 2 \<and>
    oc_failed (dm_release (pr_metrics v)) = oc_failed (dm_release (pr_metrics w)) + 1 \<and>
    totalErrors (pr_metrics v) = totalErrors (pr_metrics w) + 1 \<and>
    go_get (errorsByCode (pr_metrics v)) ErrCodeLockNotFound = go_get (errorsByCode (pr_metrics w)) ErrCodeLockNotFound + 1 \<and>
    unused_key ''demo:error'' v"
proof -
  let ?now = "\<lambda>v. fst (rt_now (ev_rt (rn_env R)) v)" and ?o = "[WithLockTTL (1 * Second)]"
  obtain h m pick w1 where c: "NewSimpleLockWithMetrics (rn_init R) (rn_env R) process_globals ''demo:error'' (NewLocalBackend 8) w =
      Some (Inr (wrapped_handle R h), w1)" "process_ok w \<longrightarrow> reachable m" "newLocalLock () pick ''demo:error'' m = (h, simple_mgr w1)"
      "managers (w_globals w) \<noteq> None \<longrightarrow> m = simple_mgr w" "managers (w_globals w) = None \<longrightarrow> NewShardedLockManager 8 = Some m"
      "managers (w_globals w1) \<noteq> None" "pr_out w1 = pr_out w" "pr_metrics w1 = pr_metrics w"
    by (rule wrapped_create [OF assms(1)])
  note free = created_unused [OF assms(3) c(4,5)]
  obtain uv1 v1 v2 d1 k1 w2 b1 where a: "MW_TryLock (rn_metrics_env R) (wrapped_handle R h) ?o w1 = Some ((b1, None), w2)"
      "((b1, None), simple_mgr w2) = Local_TryLock h ?o uv1 (?now v1) (?now v2) (simple_mgr w1)"
      "managers (w_globals w2) \<noteq> None" "pr_out w2 = pr_out w1"
      "pr_metrics w2 = record_all (RecordLockTryAcquire ''SimpleLock'' ''Local'' b1 d1 # (if b1 then [RecordGoroutineCount k1] else []))
         (pr_metrics w1)"
    by (rule wrapped_TryLock [OF assms(1) c(6)])
  let ?w2 = "say (''lock acquired'', []) w2"
  have m2: "managers (w_globals ?w2) \<noteq> None" using a(3) by simp
  obtain uv2 v3 v4 d2 k2 w3 b2 where b: "MW_TryLock (rn_metrics_env R) (wrapped_handle R h) ?o ?w2 = Some ((b2, None), w3)"
      "((b2, None), simple_mgr w3) = Local_TryLock h ?o uv2 (?now v3) (?now v4) (simple_mgr ?w2)"
      "managers (w_globals w3) \<noteq> None" "pr_out w3 = pr_out ?w2"
      "pr_metrics w3 = record_all (RecordLockTryAcquire ''SimpleLock'' ''Local'' b2 d2 # (if b2 then [RecordGoroutineCount k2] else []))
         (pr_metrics ?w2)"
    by (rule wrapped_TryLock [OF assms(1) m2])
  let ?w3 = "say (''second acquisition refused, as expected'', []) w3"
  have m3: "managers (w_globals ?w3) \<noteq> None" using b(3) by simp
  obtain v5 d3 k3 w4 e3 where u: "MW_Unlock (rn_metrics_env R) (wrapped_handle R h) ?w3 = Some (e3, w4)"
      "(e3, simple_mgr w4) = Local_Unlock h (?now v5) (simple_mgr ?w3)" "managers (w_globals w4) \<noteq> None" "pr_out w4 = pr_out ?w3"
      "pr_metrics w4 = record_all [RecordLockRelease ''SimpleLock'' ''Local'' (e3 = None) d3,
         case e3 of None \<Rightarrow> RecordGoroutineCount k3 | Some x \<Rightarrow> error_call ''SimpleLock'' ''Local'' x] (pr_metrics ?w3)"
    by (rule wrapped_Unlock [OF assms(1) m3])
  obtain v6 d4 k4 w5 e4 where x: "MW_Unlock (rn_metrics_env R) (wrapped_handle R h) w4 = Some (e4, w5)"
      "(e4, simple_mgr w5) = Local_Unlock h (?now v6) (simple_mgr w4)" "managers (w_globals w5) \<noteq> None" "pr_out w5 = pr_out w4"
      "pr_metrics w5 = record_all [RecordLockRelease ''SimpleLock'' ''Local'' (e4 = None) d4,
         case e4 of None \<Rightarrow> RecordGoroutineCount k4 | Some x \<Rightarrow> error_call ''SimpleLock'' ''Local'' x] (pr_metrics w4)"
    by (rule wrapped_Unlock [OF assms(1) u(3)])
  have "sint (LockTTL (ApplyLockOptions ?o uv1)) = 1000000000" by (simp add: Apply_LockTTL WithLockTTL_def dur_defs)
  then have t: "?now v3 \<le> ?now v2 + sint (LockTTL (ApplyLockOptions ?o uv1))" using assms(4) [of v2] assms(5) [of v3] by simp
  note life = handle_life [OF c(2) [rule_format, OF assms(2)] free c(3) a(2) [symmetric] b(2) [symmetric, unfolded say_simps] t
      u(2) [symmetric, unfolded say_simps] x(2) [symmetric]]
  let ?v = "say (''second release failed'', [PErr (NewLockNotFoundError '''' (?now v6))]) w5"
  have "demonstrateErrorMetrics R (NewLocalBackend 8) w = Returned (error_report R ?v)"
    using life c(1) a(1) b(1) u(1) x(1) by (simp add: demonstrateErrorMetrics_def Let_def call_simps(1))
  moreover have "pr_metrics ?v = record_all [RecordLockTryAcquire ''SimpleLock'' ''Local'' True d1, RecordGoroutineCount k1,
      RecordLockTryAcquire ''SimpleLock'' ''Local'' False d2, RecordLockRelease ''SimpleLock'' ''Local'' True d3, RecordGoroutineCount k3,
      RecordLockRelease ''SimpleLock'' ''Local'' False d4,
      error_call ''SimpleLock'' ''Local'' (NewLockNotFoundError '''' (?now v6))] (pr_metrics w)"
    using life a(5) b(5) u(5) x(5) c(8) by (simp add: record_all_def)
  ultimately show ?thesis using life a(4) b(4) u(4) x(4) c(7)
    by (intro exI [of _ ?v] exI [of _ "?now v6"])
       (simp add: record_all_def dm_defs oc_record_def Let_def go_get_add_to not_found_call unused_key_def)
qed

theorem errors_demo_end_to_end_witness:
  "\<exists>v ts. demonstrateErrorMetrics still_runtime (NewLocalBackend 8) new_process = Returned (error_report still_runtime v) \<and>
    pr_out v = [(''lock acquired'', []), (''second acquisition refused, as expected'', []),
      (''second release failed'', [PErr (NewLockNotFoundError '''' ts)])] \<and>
    totalErrors (pr_metrics v) = 1 \<and> oc_count (dm_tryAcquire (pr_metrics v)) = 2"
proof -
  have p: "process_ok new_process" "unused_key ''demo:error'' new_process"
    by (simp_all add: new_process_def process_ok_def unused_key_def)
  have t: "7 \<le> fst (rt_now (ev_rt (rn_env still_runtime)) v)" "fst (rt_now (ev_rt (rn_env still_runtime)) v) \<le> 7 + 1000000000" for v
    by (simp_all add: still_runtime_def)
  have z: "totalErrors (pr_metrics new_process) = 0" "oc_count (dm_tryAcquire (pr_metrics new_process)) = 0" "pr_out new_process = []"
    by (simp_all add: new_process_def NewDefaultMetrics_def oc_zero_def)
  show ?thesis
    using errors_demo_end_to_end [OF still_undisturbed p t] unfolding z by auto
qed

text \<open>
  the basic demonstration, end to end: with a key that is not in use the lock is acquired, extended and released
  through the wrapper, and the report that is printed says so, with one more of each in the counters.
\<close>
theorem basic_demo_end_to_end:
  fixes R :: "('c, 's, 'f) runtime"
  assumes "undisturbed R" and "process_ok w" and "unused_key ''demo:simple'' w"
  shows "\<exists>v. demonstrateBasicMetrics R (NewLocalBackend 8) w = Returned (basic_report R v) \<and>
    pr_out v = pr_out w @ [(''running lock operations'', []), (''TryLock succeeded'', []), (''lock extended'', []),
      (''Unlock succeeded'', [])] \<and>
    oc_success (dm_tryAcquire (pr_metrics v)) = oc_success (dm_tryAcquire (pr_metrics w)) + 1 \<and>
    oc_success (dm_extend (pr_metrics v)) = oc_success (dm_extend (pr_metrics w)) + 1 \<and>
    oc_success (dm_release (pr_metrics v)) = oc_success (dm_release (pr_metrics w)) + 1"
proof -
  let ?now = "\<lambda>v. fst (rt_now (ev_rt (rn_env R)) v)" and ?o = "[WithLockTTL (2 * Second)]"
  obtain h m pick w1 where c: "NewSimpleLockWithMetrics (rn_init R) (rn_env R) process_globals ''demo:simple'' (NewLocalBackend 8) w =
      Some (Inr (wrapped_handle R h), w1)" "process_ok w \<longrightarrow> reachable m" "newLocalLock () pick ''demo:simple'' m = (h, simple_mgr w1)"
      "managers (w_globals w) \<noteq> None \<longrightarrow> m = simple_mgr w" "managers (w_globals w) = None \<longrightarrow> NewShardedLockManager 8 = Some m"
      "managers (w_globals w1) \<noteq> None" "pr_out w1 = pr_out w" "pr_metrics w1 = pr_metrics w"
    by (rule wrapped_create [OF assms(1)])
  note free = created_unused [OF assms(3) c(4,5)]
  let ?w1 = "say (''running lock operations'', []) w1"
  have m1: "managers (w_globals ?w1) \<noteq> None" using c(6) by simp
  obtain uv1 v1 v2 d1 k1 w2 b1 where a: "MW_TryLock (rn_metrics_env R) (wrapped_handle R h) ?o ?w1 = Some ((b1, None), w2)"
      "((b1, None), simple_mgr w2) = Local_TryLock h ?o uv1 (?now v1) (?now v2) (simple_mgr ?w1)"
      "managers (w_globals w2) \<noteq> None" "pr_out w2 = pr_out ?w1"
      "pr_metrics w2 = record_all (RecordLockTryAcquire ''SimpleLock'' ''Local'' b1 d1 # (if b1 then [RecordGoroutineCount k1] else []))
         (pr_metrics ?w1)"
    by (rule wrapped_TryLock [OF assms(1) m1])
  let ?w2 = "rt_sleep (ev_rt (rn_env R)) (100 * Millisecond) (say (''TryLock succeeded'', []) w2)"
  have s: "own ?w2 = own (say (''TryLock succeeded'', []) w2)" by (rule own_frames [OF assms(1)])
  then have m2: "managers (w_globals ?w2) \<noteq> None" and g2: "simple_mgr ?w2 = simple_mgr w2" "pr_metrics ?w2 = pr_metrics w2"
    "pr_out ?w2 = pr_out w2 @ [(''TryLock succeeded'', [])]"
    using a(3) own_mgr [OF s] by (simp_all add: own_same)
  obtain v3 d2 w3 b2 e2 where x: "MW_Extend (rn_metrics_env R) (wrapped_handle R h) (3 * Second) ?w2 = Some ((b2, e2), w3)"
      "((b2, e2), simple_mgr w3) = Local_Extend h (3 * Second) (?now v3) (simple_mgr ?w2)"
      "managers (w_globals w3) \<noteq> None" "pr_out w3 = pr_out ?w2"
      "pr_metrics w3 = record_all (RecordLockExtend ''SimpleLock'' ''Local'' (b2 \<and> e2 = None) d2 #
         (case e2 of None \<Rightarrow> [] | Some x \<Rightarrow> [error_call ''SimpleLock'' ''Local'' x])) (pr_metrics ?w2)"
    by (rule wrapped_Extend [OF assms(1) m2])
  let ?w3 = "say (''lock extended'', []) w3"
  have m3: "managers (w_globals ?w3) \<noteq> None" using x(3) by simp
  obtain v4 d3 k3 w4 e3 where u: "MW_Unlock (rn_metrics_env R) (wrapped_handle R h) ?w3 = Some (e3, w4)"
      "(e3, simple_mgr w4) = Local_Unlock h (?now v4) (simple_mgr ?w3)" "managers (w_globals w4) \<noteq> None" "pr_out w4 = pr_out ?w3"
      "pr_metrics w4 = record_all [RecordLockRelease ''SimpleLock'' ''Local'' (e3 = None) d3,
         case e3 of None \<Rightarrow> RecordGoroutineCount k3 | Some x \<Rightarrow> error_call ''SimpleLock'' ''Local'' x] (pr_metrics ?w3)"
    by (rule wrapped_Unlock [OF assms(1) m3])
  note life = handle_extended [OF c(2) [rule_format, OF assms(2)] free c(3) a(2) [symmetric, unfolded say_simps]
      x(2) [symmetric, unfolded g2(1)] u(2) [symmetric, unfolded say_simps]]
  let ?v = "say (''Unlock succeeded'', []) w4"
  have "demonstrateBasicMetrics R (NewLocalBackend 8) w = Returned (basic_report R ?v)"
    using life c(1) a(1) x(1) u(1) by (simp add: demonstrateBasicMetrics_def Let_def call_simps(1))
  moreover have "pr_metrics ?v = record_all [RecordLockTryAcquire ''SimpleLock'' ''Local'' True d1, RecordGoroutineCount k1,
      RecordLockExtend ''SimpleLock'' ''Local'' True d2, RecordLockRelease ''SimpleLock'' ''Local'' True d3, RecordGoroutineCount k3]
      (pr_metrics w)"
    using life a(5) x(5) u(5) c(8) g2(2) by (simp add: record_all_def)
  ultimately show ?thesis using a(4) x(4) u(4) c(7) g2(3)
    by (intro exI [of _ ?v]) (simp add: record_all_def dm_defs oc_record_def Let_def)
qed

text \<open>
  C33: the concurrent demonstration counts right. Ten goroutines, each with a lock of its own key, run the loop of
  50 attempts under any interleaving of their calls. When the demonstration returns, the global statistics have
  moved by exactly 500 attempts, each counted as granted or refused, and by one release for every granted
  attempt; no goroutine has printed an error. And whatever the scheduler has done so far, there is a way to go on
  in which all goroutines end and the demonstration returns.
\<close>
theorem concurrent_demo_counts:
  fixes R :: "('c, 's, 'f) runtime"
  assumes "undisturbed R"
  shows "(demonstrateConcurrentMetrics R sched (NewLocalBackend 8) w = Returned w' \<longrightarrow>
      (\<exists>start v. w' = concurrent_report R start v \<and> tries v = tries w + 500 \<and>
        grants v + refusals v - tries v = grants w + refusals w - tries w \<and>
        releases v - releases w = grants v - grants w \<and>
        pr_out v = pr_out w @ [(''starting goroutines, operations each'', [PNat 10, PNat 50])])) \<and>
    (\<exists>more v. demonstrateConcurrentMetrics R (sched @ more) (NewLocalBackend 8) w = Returned v)"
proof
  let ?w = "say (''starting goroutines, operations each'', [PNat goroutines, PNat operations]) w"
  obtain start w1 where s: "rt_now (ev_rt (rn_env R)) ?w = (start, w1)" by (cases "rt_now (ev_rt (rn_env R)) ?w")
  have "own w1 = own ?w" using own_frames(1) [OF assms, of ?w] s by simp
  then have o: "tries w1 = tries w" "grants w1 = grants w" "refusals w1 = refusals w" "releases w1 = releases w"
    "pr_out w1 = pr_out w @ [(''starting goroutines, operations each'', [PNat 10, PNat 50])]"
    by (simp_all add: own_same count_defs goroutines_def operations_def)
  show "demonstrateConcurrentMetrics R sched (NewLocalBackend 8) w = Returned w' \<longrightarrow>
      (\<exists>start v. w' = concurrent_report R start v \<and> tries v = tries w + 500 \<and>
        grants v + refusals v - tries v = grants w + refusals w - tries w \<and>
        releases v - releases w = grants v - grants w \<and>
        pr_out v = pr_out w @ [(''starting goroutines, operations each'', [PNat 10, PNat 50])])"
  proof
    assume "demonstrateConcurrentMetrics R sched (NewLocalBackend 8) w = Returned w'"
    then obtain ws v where r: "workers_run R (NewLocalBackend 8) sched (replicate goroutines Starting, w1) = Some (ws, v)"
      "all_finished ws" "w' = concurrent_report R start v"
      by (auto simp: demonstrateConcurrentMetrics_def s split: option.splits if_splits)
    have n: "of_nat (goroutines * operations) = (500 :: i64)" by (simp add: goroutines_def operations_def)
    from workers_done [OF assms r(1,2)] r(3) show "\<exists>start v. w' = concurrent_report R start v \<and> tries v = tries w + 500 \<and>
        grants v + refusals v - tries v = grants w + refusals w - tries w \<and> releases v - releases w = grants v - grants w \<and>
        pr_out v = pr_out w @ [(''starting goroutines, operations each'', [PNat 10, PNat 50])]"
      unfolding o by (intro exI [of _ start] exI [of _ v]) (auto simp only: n)
  qed
  obtain ws v where r: "workers_run R (NewLocalBackend 8) sched (replicate goroutines Starting, w1) = Some (ws, v)"
    "list_all (worker_ok R (ready v)) ws"
    using workers_progress [OF assms workers_start] by blast
  from workers_finish [OF assms r(2)] obtain more ws' v' where
    "workers_run R (NewLocalBackend 8) more (ws, v) = Some (ws', v')" "all_finished ws'" by blast
  with r(1) s have "demonstrateConcurrentMetrics R (sched @ more) (NewLocalBackend 8) w = Returned (concurrent_report R start v')"
    by (simp add: demonstrateConcurrentMetrics_def workers_run_append)
  then show "\<exists>more v. demonstrateConcurrentMetrics R (sched @ more) (NewLocalBackend 8) w = Returned v" by blast
qed

theorem concurrent_demo_counts_witness:
  "\<exists>sched start v. demonstrateConcurrentMetrics still_runtime sched (NewLocalBackend 8) new_process =
      Returned (concurrent_report still_runtime start v) \<and> tries v = 500 \<and> releases v = grants v"
proof -
  obtain more w' where r: "demonstrateConcurrentMetrics still_runtime ([0, 1, 0] @ more) (NewLocalBackend 8) new_process = Returned w'"
    using concurrent_demo_counts [OF still_undisturbed, of "[0, 1, 0]" new_process] by blast
  have z: "tries new_process = 0" "releases new_process = 0" "grants new_process = 0"
    by (simp_all add: new_process_def count_defs NewDefaultMetrics_def oc_zero_def)
  from r concurrent_demo_counts [OF still_undisturbed, of "[0, 1, 0] @ more" new_process w']
  obtain start v where "w' = concurrent_report still_runtime start v" "tries v = 500" "releases v = grants v"
    unfolding z by auto
  with r show ?thesis by blast
qed

end
