(* ===== verification/Spec2Isabelle.thy ===== *)
theory Spec2Isabelle
  imports Config Errors Lease Retry ShardedLock ShardedRW ShardedFair ShardedManager LocalLocks
    RedisServer RedisReference RedisSimple RedisRW RedisFair RedisFairQueue
    Interfaces Metrics MetricsPeak MetricsWrapper Watchdog WatchedLock BlockingLock Factory Example ExampleRuns
begin

text \<open>
  \<^bold>\<open>xAILock, a Go library of locks, and what its locks promise.\<close>

  The library offers a simple lock, a read-write lock and a fair lock, each on two backends: the
  memory of one process (\<open>local_simple.go\<close>, \<open>local_rw.go\<close>, \<open>local_fair.go\<close> over \<open>sharded_lock.go\<close>)
  and a Redis server (\<open>redis_simple.go\<close>, \<open>redis_rw.go\<close>, \<open>redis_fair.go\<close> over the Lua scripts of
  \<open>redis_scripts.go\<close>). \<open>lock.go\<close> has what they share: errors, options, the retry loop of every
  blocking acquisition, the interfaces and the factories. \<open>watchdog.go\<close> renews leases in the
  background, \<open>metrics.go\<close> counts, \<open>metrics_wrapper.go\<close> wraps a lock and counts its calls. All file
  names are below \<open>src/\<close>; names of definitions are the source's, with a prefix for the receiver
  where methods of several types share a name.

  \<^bold>\<open>Theories.\<close>

  \<^item> \<open>Prelude\<close>: 64-bit durations that wrap, instants as integers of nanoseconds, decimal and
    hexadecimal renderings, Go maps as association lists, \<open>run\<close> of a list of events.
  \<^item> \<open>Errors\<close>, \<open>Config\<close>, \<open>Retry\<close>: the parts of \<open>lock.go\<close> below the interfaces. A Go \<open>error\<close> is an
    \<open>err option\<close>. A \<open>LockOption\<close> is a function on \<open>LockConfig\<close>; the unique value that
    \<open>ApplyLockOptions\<close> draws is an argument. \<open>Retry\<close> has the loop as a \<^theory_text>\<open>partial_function\<close> over the
    record \<open>go_rt\<close> of the runtime (clock, context, sleep, unique values) on an opaque world; the
    locale \<open>go_runtime\<close> states what Go documents of the clock and of \<open>time.Sleep\<close>, and under it the
    loop is shown to return, with a bound on its attempts.
  \<^item> \<open>Lease\<close>: the contract of all the locks, as the locales \<open>leased\<close> and \<open>granting_lease\<close>: a state machine
    with a clock and a lease of a value up to an instant; a grant sets the lease, every operation
    keeps a running lease but those that are said to yield it. Exclusion along runs is proved once, there.
  \<^item> \<open>ShardedLock\<close>, \<open>ShardedRW\<close>, \<open>ShardedFair\<close>: the in-process lock objects (\<open>ShardedLock[T]\<close> with its three
    kinds of data), each an interpretation of the lease contract.
  \<^item> \<open>ShardedManager\<close>: shards, object pool, reference counts, the sweep and the process-wide managers.
    Objects live in an explicit heap, for handles alias them. The invariant \<open>wf_mgr\<close> is kept by every
    operation, so it holds of all \<open>reachable\<close> managers: those that any number of goroutines bring about by
    interleaving their calls, where a \<open>ReleaseLock\<close> is three steps (decrement, read of \<open>lock.shard\<close>,
    cleanup) and a sweep is a series of tests and removals, as long as no two of them have the same object
    between the read and the cleanup (\<open>race_free\<close>); one property shows what happens otherwise.
  \<^item> \<open>LocalLocks\<close>: the local handles, over the address of their object.
  \<^item> \<open>RedisServer\<close>: what the scripts and the client library do with a server, which is a parameter: a
    function \<open>exec\<close> from a command and a state to a reply and a state. The locales \<open>redis_server\<close>
    and \<open>redis_lists\<close> state what Redis documents of the commands used, and of expiry. A step is one
    attempt of the client library; an attempt it repeats is a further request.
    \<open>RedisReference\<close> is an executable server of which the locales are interpreted; the witnesses run
    on it.
  \<^item> \<open>RedisSimple\<close>, \<open>RedisRW\<close>, \<open>RedisFair\<close>, \<open>RedisFairQueue\<close>: the scripts, line by line, as functions of
    \<open>exec\<close>, \<open>KEYS\<close> and \<open>ARGV\<close>; the methods over them; steps of any number of clients, where each
    request is delivered, lost, or answered in vain (\<open>net\<close>) and the server's time passes between
    two of them. Each is an instance of the lease contract; the read side refines a counter
    and the fair lock a holder with a queue.
  \<^item> \<open>Interfaces\<close>: \<open>Lock\<close>, \<open>RWLock\<close>, \<open>FairLock\<close> as records of methods over a world.
  \<^item> \<open>Metrics\<close>, \<open>MetricsWrapper\<close>: the counters, whose statistics are compared with the list of the recorded
    calls; the wrappers of any lock. \<open>MetricsPeak\<close>: the compare-and-swap loop of the high-water marks, one
    atomic access at a time, under every interleaving.
  \<^item> \<open>Watchdog\<close>: the watchdog as a step relation: its methods, \<open>Start\<close> and \<open>Stop\<close> in pieces between which
    the goroutines may do anything, and the steps of its goroutines in any order. The locale \<open>extendable\<close> is what a watchdog needs of a lock; it is interpreted on the local
    and on the distributed simple lock.
  \<^item> \<open>WatchedLock\<close>: a lock, its watchdog and all the other clients together: the ticks interleave with the
    operations of the others and their requests may get lost. The locale \<open>watched_lease\<close> extends \<open>leased\<close> by
    the renewal; it is interpreted on the local lock and on the distributed simple and fair locks.
  \<^item> \<open>BlockingLock\<close>: the blocking methods and the contract together: the loop ends without an error only after a
    granted attempt, so the caller holds a lease. The locale \<open>blocking_lease\<close> extends \<open>leased\<close> by the
    blocking operation; it is interpreted on the local lock objects and on the three distributed locks.
  \<^item> \<open>Factory\<close>: one world with the managers, the distributed handles, the watchdogs and the servers, every handle
    behind its interface in it, and all the functions that create locks.
  \<^item> \<open>Example\<close>, \<open>ExampleRuns\<close>: the program \<open>examples/metrics_example.go\<close> in that world, with what it prints, and
    its runs from end to end: factories, managers, handles, wrappers and counters at work together.

  \<^bold>\<open>What is shown.\<close> The numbered properties stand in the theories of their definitions. Exclusion:
  whoever holds a lock, on either backend, of any kind, keeps it for its TTL against every other
  client, unless an operation yields it that the theorem names, and for as long as its watchdog's ticks get through
  in time; a blocking \<open>Lock\<close> that returns no error has acquired it; two handles of one key share the
  lock and two keys do not disturb each other; two local backends are one. Order: the fair locks serve
  their queues in order. Returning: the blocking methods return, each outcome classified. Refinement: the
  distributed read counter and the fair lock against their specifications, every answer included. The sweep, the maps and the counters
  do exactly what they should; the metrics wrapper does not change what the lock does. Validation accepts
  exactly the valid configurations; options keep valid ones valid; unique values are unique when
  their random parts are. The remaining properties show where the code does not keep what its
  documentation says: handles that lose their object (an \<open>Unlock\<close> or the sweep gives it
  away), a pool that hands out an object with the data of its former key, TTLs with a fraction of a
  second (never granted, and readers counted that hold nothing), a refused \<open>TryLock\<close>
  that stays in the queue and blocks it, two releases that pool an object twice, a waiter with a default
  value that starves, and a watchdog that cannot be restarted and whose \<open>Stop\<close>, called too early, never returns.

  \<^bold>\<open>Partiality.\<close> A loop that may not end is a \<^theory_text>\<open>partial_function\<close> with the value \<open>None\<close> where it does not: the
  retry loop, the waiting loop of the distributed fair lock and the doubling loop of
  \<open>NewShardedLockManager\<close>; each has a theorem that says when it returns. No fuel is used. Counters,
  durations and shard arithmetic are words of the source's width, and wrap.

  \<^bold>\<open>Parameters.\<close> The Redis server and the client library (\<open>exec\<close>, \<open>net\<close>), the rendering of a \<open>float64\<close> number of
  seconds (\<open>fmt\<close>; \<open>seconds_format\<close> says that a whole number is rendered as an integer and any other is not, but that from
  \<open>2 ^ 24\<close> seconds on the rounding of \<open>float64\<close> may drop a part of a second below a microsecond),
  \<open>float64\<close> in the statistics (\<open>float_ops\<close>), the runtime (\<open>go_rt\<close>, \<open>mw_env\<close>), the choices of \<open>sync.Pool\<close>
  (\<open>pick\<close>). A Go map is visited in the order of its association list.

  \<^bold>\<open>Atomicity.\<close> A method that holds a mutex is one step. Where the code holds none, the pieces are steps: in
  \<open>ReleaseLock\<close> and \<open>cleanupLock\<close> (\<open>ShardedManager\<close>), between the test and the removal of the sweep, in \<open>Start\<close> and
  \<open>Stop\<close> of the watchdog, and in the compare-and-swap loop of the counters. \<open>LocalLocks\<close> composes the pieces of a
  release into the method; its properties about several goroutines rest on the interleaved steps. A script is
  one step of the server, as Redis documents. Stopping a watchdog through the manager runs its goroutine to the
  end in one step; the step relation has all interleavings. In \<open>Factory\<close> the time of an error is
  read before the request, not after it.

  \<^bold>\<open>Not modelled.\<close> The constant text the example prints is given in English, without its layout. Contexts appear
  as the error they report: that a context ends a request in the client library is one of
  the fates in \<open>net\<close>. A nil backend, client or lock panics at its first use and has no value here. The data
  races of the fields read without a mutex are not given a meaning.
\<close>

end
